(* ===== verification/Canard_Prelude.thy ===== *)
theory Canard_Prelude
  imports Main "HOL-Library.Word" "HOL-Library.Monad_Syntax"
begin

unbundle bit_operations_syntax

text \<open>
  Names and generic lemmas shared by every theory of the development.

  \<^item> Machine integers keep their C width: \<open>uint8_t\<close> is \<open>8 word\<close>, and so on.
  \<^item> A computation that may go wrong returns \<open>'a option\<close>. \<open>None\<close> stands for what the C
    program leaves without a meaning or stops at: a dereference of a null or foreign pointer, a
    read of an element that was never written or that lies outside its array, a failed
    \<open>CANARD_ASSERT\<close>, a loop that does not end. A theorem \<open>op s = Some r\<close> therefore says that the
    operation is memory safe, raises no assertion and returns.
  \<^item> Pool blocks are addressed by their index in the arena; a pointer to a block is an
    \<open>addr option\<close> whose \<open>None\<close> is \<open>NULL\<close>.
  \<^item> A linked list in the arena is described by \<open>chain\<close>, a path through a view of the arena
    that yields the next pointer and the content of the block at an address.
\<close>

named_theorems canard_simps "unfolding rules of the library's small accessors"

section \<open>Machine integers and pointers\<close>

type_synonym u8 = "8 word"
type_synonym u16 = "16 word"
type_synonym u32 = "32 word"
type_synonym u64 = "64 word"

type_synonym addr = nat
type_synonym ptr = "addr option"

lemma xor_eq_0_iff: "a XOR b = 0 \<longleftrightarrow> a = (b :: 'a::len word)"
  by (metis word_bw_lcs(3) word_bw_same(3) xor.right_neutral)

lemma xor_left_cancel [simp]: "a XOR b = a XOR c \<longleftrightarrow> b = (c :: 'a::len word)"
  by (metis xor.left_commute xor_self_eq xor.right_neutral)

lemma xor_right_cancel [simp]: "b XOR a = c XOR a \<longleftrightarrow> b = (c :: 'a::len word)"
  by (simp add: xor.commute [of _ a])

text \<open>Counters that stay below another one do not wrap around.\<close>

lemma unat_plus_1: "unat x < unat (y :: 'a word) \<Longrightarrow> unat (x + 1 :: 'a::len word) = Suc (unat x)"
proof -
  assume "unat x < unat y"
  moreover have "unat y < 2 ^ LENGTH('a)" by simp
  ultimately have "Suc (unat x) < 2 ^ LENGTH('a)" by linarith
  then show ?thesis by (simp add: unat_word_ariths take_bit_nat_eq_self unsigned_1)
qed

lemma unat_minus_1: "0 < unat x \<Longrightarrow> unat (x - 1 :: 'a::len word) = unat x - 1"
  by (rule unat_minus_one) auto

text \<open>Testing a flag: \<open>(w & (1 << k)) != 0\<close>.\<close>

lemma and_flag_iff: "m = 2 ^ k \<Longrightarrow> (w AND m \<noteq> 0) = bit (w :: 'a::len word) k"
  by (simp add: and_exp_eq_0_iff_not_bit)

lemma unat_add_small: "unat a + unat b < 2 ^ LENGTH('a) \<Longrightarrow> unat (a + b :: 'a::len word) = unat a + unat b"
  by (simp add: unat_word_ariths)

lemma unat_ucast_small: "unat (x :: 'a::len word) < 2 ^ LENGTH('b) \<Longrightarrow> unat (ucast x :: 'b::len word) = unat x"
  by (simp add: unsigned_ucast_eq take_bit_nat_eq_self)

lemma unat_u8_u32 [simp]: "unat (ucast (x :: u8) :: u32) = unat x"
proof -
  have "unat x < 2 ^ LENGTH(8)" by (rule unsigned_less)
  then show ?thesis by (simp add: unat_ucast_small)
qed

lemma unat_min: "unat (min a b) = min (unat a) (unat (b :: 'a::len word))"
  by (simp add: min_def word_le_nat_alt)

section \<open>Integers as bytes\<close>

text \<open>The bytes of an integer, lowest first, and the integer with given bytes.\<close>

definition le_bytes :: "nat \<Rightarrow> u64 \<Rightarrow> u8 list" where
  "le_bytes n w = map (\<lambda>k. ucast (drop_bit (8 * k) w)) [0..<n]"

primrec le_value :: "u8 list \<Rightarrow> u64" where
  "le_value [] = 0"
| "le_value (b # bs) = ucast b OR push_bit 8 (le_value bs)"

lemma bit_le_value: "bit (le_value bs) k \<longleftrightarrow> k < 64 \<and> k div 8 < length bs \<and> bit (bs ! (k div 8)) (k mod 8)"
proof (induction bs arbitrary: k)
  case Nil
  then show ?case by simp
next
  case (Cons b bs)
  have b: "bit b k \<Longrightarrow> k < 8" by (drule bit_imp_le_length) simp
  show ?case
  proof (cases "k < 8")
    case True
    then show ?thesis by (simp add: bit_simps)
  next
    case False
    then obtain j where j: "k = 8 + j" by (metis le_Suc_ex not_less)
    have d: "(8 + j) div 8 = Suc (j div 8)" "(8 + j) mod 8 = j mod 8" by simp_all
    show ?thesis using b Cons.IH [of j] unfolding j d by (auto simp: bit_simps)
  qed
qed

lemma length_le_bytes [simp]: "length (le_bytes n v) = n"
  by (simp add: le_bytes_def)

lemma le_value_bytes: "8 * n \<le> 64 \<Longrightarrow> le_value (le_bytes n v) = take_bit (8 * n) v"
  by (rule bit_word_eqI) (auto simp: bit_le_value le_bytes_def bit_simps less_mult_imp_div_less div_less_iff_less_mult mult.commute)

lemma le_bytes_value: "length bs = n \<Longrightarrow> n \<le> 8 \<Longrightarrow> le_bytes n (le_value bs) = bs"
proof (rule nth_equalityI)
  fix i assume h: "length bs = n" "n \<le> 8" "i < length (le_bytes n (le_value bs))"
  show "le_bytes n (le_value bs) ! i = bs ! i"
  proof (rule bit_word_eqI)
    fix j :: nat assume j: "j < LENGTH(8)"
    then have "(8 * i + j) div 8 = i" "(8 * i + j) mod 8 = j" "8 * i + j < 64" using h by simp_all
    then show "bit (le_bytes n (le_value bs) ! i) j = bit (bs ! i) j"
      using h j by (simp add: le_bytes_def bit_simps bit_le_value)
  qed
qed simp

section \<open>The partiality monad\<close>

text \<open>\<open>CANARD_ASSERT\<close> and \<open>assert\<close>: a failed assertion stops the program.\<close>

definition canard_assert :: "bool \<Rightarrow> unit option" where
  "canard_assert b = (if b then Some () else None)"

lemma canard_assert_True [simp]: "canard_assert True = Some ()"
  and canard_assert_False [simp]: "canard_assert False = None"
  by (simp_all add: canard_assert_def)

lemma canard_assert_Some [simp]: "canard_assert b = Some u \<longleftrightarrow> b"
  by (simp add: canard_assert_def)

text \<open>Reading an array: defined inside its bounds only.\<close>

definition nth_opt :: "'a list \<Rightarrow> nat \<Rightarrow> 'a option" where
  "nth_opt xs i = (if i < length xs then Some (xs ! i) else None)"

lemma nth_opt_in [simp]: "i < length xs \<Longrightarrow> nth_opt xs i = Some (xs ! i)"
  and nth_opt_out [simp]: "length xs \<le> i \<Longrightarrow> nth_opt xs i = None"
  by (simp_all add: nth_opt_def)

text \<open>Writing an array: defined inside its bounds only.\<close>

definition upd_opt :: "'a list \<Rightarrow> nat \<Rightarrow> 'a \<Rightarrow> 'a list option" where
  "upd_opt xs i x = (if i < length xs then Some (xs[i := x]) else None)"

lemma upd_opt_in [simp]: "i < length xs \<Longrightarrow> upd_opt xs i x = Some (xs[i := x])"
  and upd_opt_out [simp]: "length xs \<le> i \<Longrightarrow> upd_opt xs i x = None"
  by (simp_all add: upd_opt_def)

lemma bind_eq_Some [simp]:
  "Option.bind m f = Some r \<longleftrightarrow> (\<exists>x. m = Some x \<and> f x = Some r)"
  by (cases m) auto

text \<open>
  Total correctness of a partial computation: it has a result, and the result satisfies \<open>Q\<close>.
\<close>

definition returns :: "'a option \<Rightarrow> ('a \<Rightarrow> bool) \<Rightarrow> bool" where
  "returns m Q \<longleftrightarrow> (\<exists>x. m = Some x \<and> Q x)"

lemma returns_Some [simp]: "returns (Some x) Q \<longleftrightarrow> Q x"
  by (simp add: returns_def)

lemma returns_None [simp]: "\<not> returns None Q"
  by (simp add: returns_def)

lemma returns_bind: "returns m (\<lambda>x. returns (f x) Q) \<Longrightarrow> returns (Option.bind m f) Q"
  by (auto simp: returns_def)

lemma returns_mono: "returns m P \<Longrightarrow> (\<And>x. P x \<Longrightarrow> Q x) \<Longrightarrow> returns m Q"
  by (auto simp: returns_def)

lemma returns_then: "returns m P \<Longrightarrow> (\<And>x. P x \<Longrightarrow> returns (f x) Q) \<Longrightarrow> returns (Option.bind m f) Q"
  by (auto simp: returns_def)

lemma returnsI: "m = Some x \<Longrightarrow> Q x \<Longrightarrow> returns m Q"
  by (simp add: returns_def)

lemma returnsE: "returns m Q \<Longrightarrow> (\<And>x. m = Some x \<Longrightarrow> Q x \<Longrightarrow> R) \<Longrightarrow> R"
  by (auto simp: returns_def)

section \<open>Chains of blocks\<close>

text \<open>
  \<open>chain v p xs\<close>: following the next pointers of the view \<open>v\<close> from the pointer \<open>p\<close> visits
  exactly the addresses and contents of \<open>xs\<close>, in order, and ends at \<open>NULL\<close>.
  \<open>segment\<close> is the same path up to a given end pointer.
\<close>

type_synonym 'c view = "addr \<Rightarrow> (ptr \<times> 'c) option"

primrec segment :: "'c view \<Rightarrow> ptr \<Rightarrow> (addr \<times> 'c) list \<Rightarrow> ptr \<Rightarrow> bool" where
  "segment v p [] e \<longleftrightarrow> p = e"
| "segment v p (x # xs) e \<longleftrightarrow>
     p = Some (fst x) \<and> (\<exists>q. v (fst x) = Some (q, snd x) \<and> segment v q xs e)"

abbreviation chain :: "'c view \<Rightarrow> ptr \<Rightarrow> (addr \<times> 'c) list \<Rightarrow> bool" where
  "chain v p xs \<equiv> segment v p xs None"

definition addrs :: "(addr \<times> 'c) list \<Rightarrow> addr list" where
  "addrs xs = map fst xs"

lemma addrs_simps [simp]:
  "addrs [] = []" "addrs (x # xs) = fst x # addrs xs" "addrs (xs @ ys) = addrs xs @ addrs ys"
  "length (addrs xs) = length xs"
  by (simp_all add: addrs_def)

lemma segment_append:
  "segment v p (xs @ ys) e \<longleftrightarrow> (\<exists>q. segment v p xs q \<and> segment v q ys e)"
  by (induction xs arbitrary: p) auto

lemma segment_cong:
  "(\<And>a. a \<in> set (addrs xs) \<Longrightarrow> v a = w a) \<Longrightarrow> segment v p xs e = segment w p xs e"
  by (induction xs arbitrary: p) auto

lemma chain_NULL [simp]: "chain v None xs \<longleftrightarrow> xs = []"
  by (cases xs) auto

lemma chain_Some_conv:
  "chain v (Some a) xs \<longleftrightarrow>
     (\<exists>c q ys. xs = (a, c) # ys \<and> v a = Some (q, c) \<and> chain v q ys)"
  by (cases xs) auto

lemma chain_unique: "chain v p xs \<Longrightarrow> chain v p ys \<Longrightarrow> xs = ys"
proof (induction xs arbitrary: p ys)
  case Nil
  then show ?case by simp
next
  case (Cons x xs)
  then show ?case by (cases x, cases ys) auto
qed

lemma chain_suffix:
  "chain v p (xs @ (a, c) # ys) \<Longrightarrow> chain v (Some a) ((a, c) # ys)"
  by (auto simp: segment_append)

lemma chain_distinct: "chain v p xs \<Longrightarrow> distinct (addrs xs)"
proof (induction xs arbitrary: p)
  case Nil
  then show ?case by simp
next
  case (Cons x xs)
  from Cons.prems obtain q where q: "v (fst x) = Some (q, snd x)" "chain v q xs"
    by auto
  have "fst x \<notin> set (addrs xs)"
  proof
    assume "fst x \<in> set (addrs xs)"
    then obtain ys c zs where xs: "xs = ys @ (fst x, c) # zs"
      by (auto simp: addrs_def in_set_conv_decomp)
    with q(2) have "chain v (Some (fst x)) ((fst x, c) # zs)"
      by (auto simp: segment_append)
    moreover have "chain v (Some (fst x)) (x # xs)"
      using q by simp
    ultimately have "(fst x, c) # zs = x # xs"
      by (rule chain_unique)
    then have "zs = xs" by simp
    with xs show False by simp
  qed
  with Cons.IH [OF q(2)] show ?case by simp
qed

lemma segment_views:
  "segment v p xs e \<Longrightarrow> (a, c) \<in> set xs \<Longrightarrow> \<exists>q. v a = Some (q, c)"
  by (induction xs arbitrary: p) auto

end
