(* ===== verification/Canard_Types.thy ===== *)
theory Canard_Types
  imports Canard_Prelude
begin

text \<open>
  The data of libcanard (\<open>canard.h\<close>, the head of \<open>canard.c\<close>): constants, the CAN frame, the
  objects that live in pool blocks, the allocator and the library instance.

  Sizes are those of the 32-bit target: a pool block has 32 bytes, of which a receive state leaves
  6 for \<open>buffer_head\<close> and a buffer block 28 for \<open>data\<close>. Byte storage that the code leaves
  uninitialised is a partial map from offsets to bytes, so a read of a byte that was never written
  has no value. The callbacks of \<open>struct CanardInstance\<close> are arguments of the operations that call
  them (\<open>Canard_Rx\<close>), since a HOL record cannot hold functions on itself.
\<close>

section \<open>Constants\<close>

abbreviation (input) CANARD_OK :: int where "CANARD_OK \<equiv> 0"
abbreviation (input) CANARD_ERROR_INVALID_ARGUMENT :: int where "CANARD_ERROR_INVALID_ARGUMENT \<equiv> 2"
abbreviation (input) CANARD_ERROR_OUT_OF_MEMORY :: int where "CANARD_ERROR_OUT_OF_MEMORY \<equiv> 3"
abbreviation (input) CANARD_ERROR_NODE_ID_NOT_SET :: int where "CANARD_ERROR_NODE_ID_NOT_SET \<equiv> 4"
abbreviation (input) CANARD_ERROR_INTERNAL :: int where "CANARD_ERROR_INTERNAL \<equiv> 9"

abbreviation (input) CANARD_MEM_BLOCK_SIZE :: nat where "CANARD_MEM_BLOCK_SIZE \<equiv> 32"
abbreviation (input) CANARD_MULTIFRAME_RX_PAYLOAD_HEAD_SIZE :: nat
  where "CANARD_MULTIFRAME_RX_PAYLOAD_HEAD_SIZE \<equiv> 6"
abbreviation (input) CANARD_BUFFER_BLOCK_DATA_SIZE :: nat where "CANARD_BUFFER_BLOCK_DATA_SIZE \<equiv> 28"
abbreviation (input) CANARD_CAN_FRAME_MAX_DATA_LEN :: nat where "CANARD_CAN_FRAME_MAX_DATA_LEN \<equiv> 8"

abbreviation (input) CANARD_BROADCAST_NODE_ID :: u8 where "CANARD_BROADCAST_NODE_ID \<equiv> 0"
abbreviation (input) CANARD_MIN_NODE_ID :: u8 where "CANARD_MIN_NODE_ID \<equiv> 1"
abbreviation (input) CANARD_MAX_NODE_ID :: u8 where "CANARD_MAX_NODE_ID \<equiv> 127"
abbreviation (input) CANARD_TRANSFER_PRIORITY_LOWEST :: u8 where "CANARD_TRANSFER_PRIORITY_LOWEST \<equiv> 31"

abbreviation (input) CANARD_CAN_EXT_ID_MASK :: u32 where "CANARD_CAN_EXT_ID_MASK \<equiv> 0x1FFFFFFF"
abbreviation (input) CANARD_CAN_STD_ID_MASK :: u32 where "CANARD_CAN_STD_ID_MASK \<equiv> 0x000007FF"
abbreviation (input) CANARD_CAN_FRAME_EFF :: u32 where "CANARD_CAN_FRAME_EFF \<equiv> 0x80000000"
abbreviation (input) CANARD_CAN_FRAME_RTR :: u32 where "CANARD_CAN_FRAME_RTR \<equiv> 0x40000000"
abbreviation (input) CANARD_CAN_FRAME_ERR :: u32 where "CANARD_CAN_FRAME_ERR \<equiv> 0x20000000"

abbreviation (input) TRANSFER_TIMEOUT_USEC :: u64 where "TRANSFER_TIMEOUT_USEC \<equiv> 2000000"
abbreviation (input) TRANSFER_ID_BIT_LEN :: nat where "TRANSFER_ID_BIT_LEN \<equiv> 5"
abbreviation (input) ANON_MSG_DATA_TYPE_ID_BIT_LEN :: nat where "ANON_MSG_DATA_TYPE_ID_BIT_LEN \<equiv> 2"

section \<open>Frames and transfers\<close>

text \<open>\<open>frame_data\<close> is the array \<open>data[CANARD_CAN_FRAME_MAX_DATA_LEN]\<close>: a list of eight bytes.\<close>

record CanardCANFrame =
  frame_id :: u32
  frame_data :: "u8 list"
  frame_data_len :: u8

datatype CanardTransferType =
  CanardTransferTypeResponse | CanardTransferTypeRequest | CanardTransferTypeBroadcast

fun transfer_type_value :: "CanardTransferType \<Rightarrow> u32" where
  "transfer_type_value CanardTransferTypeResponse = 0"
| "transfer_type_value CanardTransferTypeRequest = 1"
| "transfer_type_value CanardTransferTypeBroadcast = 2"

datatype CanardRequestResponse = CanardResponse | CanardRequest

fun request_response_value :: "CanardRequestResponse \<Rightarrow> u32" where
  "request_response_value CanardResponse = 0"
| "request_response_value CanardRequest = 1"

text \<open>
  A received transfer as the application sees it. \<open>payload_head\<close> and \<open>payload_tail\<close> point into a
  frame or a receive state; the model carries the bytes found there (\<open>None\<close> is \<open>NULL\<close>), since that
  storage is not written while the transfer is visible. \<open>payload_middle\<close> is a pointer into the
  arena: the blocks it leads to are owned by the transfer.
\<close>

record CanardRxTransfer =
  xfer_timestamp_usec :: u64
  xfer_payload_head :: "(nat \<rightharpoonup> u8) option"
  xfer_payload_middle :: ptr
  xfer_payload_tail :: "(nat \<rightharpoonup> u8) option"
  xfer_payload_len :: u16
  xfer_data_type_id :: u16
  xfer_transfer_type :: CanardTransferType
  xfer_transfer_id :: u8
  xfer_priority :: u8
  xfer_source_node_id :: u8

section \<open>Objects in pool blocks\<close>

record CanardBufferBlock =
  bb_next :: ptr
  bb_data :: "nat \<rightharpoonup> u8"

text \<open>The bit fields keep their widths: 16, 10, 5 and 1 bits.\<close>

record CanardRxState =
  rx_next :: ptr
  rx_buffer_blocks :: ptr
  rx_timestamp_usec :: u64
  rx_dtid_tt_snid_dnid :: u32
  rx_payload_crc :: u16
  rx_calculated_crc :: u16
  rx_payload_len :: "10 word"
  rx_transfer_id :: "5 word"
  rx_next_toggle :: bool
  rx_buffer_head :: "nat \<rightharpoonup> u8"

record CanardTxQueueItem =
  tx_next :: ptr
  tx_frame :: CanardCANFrame

text \<open>
  What a block of the arena holds: \<open>FreeBlock\<close> is the union member \<open>next\<close> of
  \<open>CanardPoolAllocatorBlock\<close>; the others are the objects the library places in blocks.
\<close>

datatype CanardPoolAllocatorBlock =
  FreeBlock ptr
| TxBlock CanardTxQueueItem
| RxBlock CanardRxState
| BufBlock CanardBufferBlock

section \<open>The allocator and the instance\<close>

record CanardPoolAllocatorStatistics =
  capacity_blocks :: u16
  current_usage_blocks :: u16
  peak_usage_blocks :: u16

text \<open>The allocator with the arena it manages.\<close>

record CanardPoolAllocator =
  free_list :: ptr
  statistics :: CanardPoolAllocatorStatistics
  arena :: "addr \<rightharpoonup> CanardPoolAllocatorBlock"

record CanardInstance =
  node_id :: u8
  allocator :: CanardPoolAllocator
  rx_states :: ptr
  tx_queue :: ptr
  user_reference :: nat

section \<open>Typed access to blocks\<close>

text \<open>
  Dereferencing a pointer to an object of a given type. It has a value only when the block exists
  and holds an object of that type.
\<close>

definition get_tx :: "CanardPoolAllocator \<Rightarrow> addr \<Rightarrow> CanardTxQueueItem option" where
  "get_tx al a = (case arena al a of Some (TxBlock x) \<Rightarrow> Some x | _ \<Rightarrow> None)"

definition get_rx :: "CanardPoolAllocator \<Rightarrow> addr \<Rightarrow> CanardRxState option" where
  "get_rx al a = (case arena al a of Some (RxBlock x) \<Rightarrow> Some x | _ \<Rightarrow> None)"

definition get_buf :: "CanardPoolAllocator \<Rightarrow> addr \<Rightarrow> CanardBufferBlock option" where
  "get_buf al a = (case arena al a of Some (BufBlock x) \<Rightarrow> Some x | _ \<Rightarrow> None)"

definition get_free :: "CanardPoolAllocator \<Rightarrow> addr \<Rightarrow> ptr option" where
  "get_free al a = (case arena al a of Some (FreeBlock q) \<Rightarrow> Some q | _ \<Rightarrow> None)"

definition put_block :: "CanardPoolAllocator \<Rightarrow> addr \<Rightarrow> CanardPoolAllocatorBlock \<Rightarrow> CanardPoolAllocator"
  where "put_block al a b = al\<lparr>arena := (arena al)(a \<mapsto> b)\<rparr>"

lemma put_block_sel [simp]:
  "arena (put_block al a b) = (arena al)(a \<mapsto> b)"
  "free_list (put_block al a b) = free_list al"
  "statistics (put_block al a b) = statistics al"
  by (simp_all add: put_block_def)

lemma put_block_twice [simp]: "put_block (put_block al a b) a c = put_block al a c"
  by (simp add: put_block_def)

lemmas get_defs = get_tx_def get_rx_def get_buf_def get_free_def

lemma get_put_same [simp]:
  "get_tx (put_block al a (TxBlock x)) a = Some x"
  "get_rx (put_block al a (RxBlock y)) a = Some y"
  "get_buf (put_block al a (BufBlock z)) a = Some z"
  "get_free (put_block al a (FreeBlock q)) a = Some q"
  by (simp_all add: get_defs)

lemma get_put_other [simp]:
  assumes "a \<noteq> c"
  shows "get_tx (put_block al a b) c = get_tx al c"
    and "get_rx (put_block al a b) c = get_rx al c"
    and "get_buf (put_block al a b) c = get_buf al c"
    and "get_free (put_block al a b) c = get_free al c"
  using assms by (simp_all add: get_defs)

lemma get_Some_arena:
  "get_tx al a = Some x \<longleftrightarrow> arena al a = Some (TxBlock x)"
  "get_rx al a = Some y \<longleftrightarrow> arena al a = Some (RxBlock y)"
  "get_buf al a = Some z \<longleftrightarrow> arena al a = Some (BufBlock z)"
  "get_free al a = Some q \<longleftrightarrow> arena al a = Some (FreeBlock q)"
  by (auto simp: get_defs split: option.splits CanardPoolAllocatorBlock.splits)

text \<open>The views of the four kinds of lists that run through the arena.\<close>

definition free_view :: "(addr \<rightharpoonup> CanardPoolAllocatorBlock) \<Rightarrow> unit view" where
  "free_view m a = (case m a of Some (FreeBlock q) \<Rightarrow> Some (q, ()) | _ \<Rightarrow> None)"

definition tx_view :: "(addr \<rightharpoonup> CanardPoolAllocatorBlock) \<Rightarrow> CanardCANFrame view" where
  "tx_view m a = (case m a of Some (TxBlock x) \<Rightarrow> Some (tx_next x, tx_frame x) | _ \<Rightarrow> None)"

definition rx_view :: "(addr \<rightharpoonup> CanardPoolAllocatorBlock) \<Rightarrow> CanardRxState view" where
  "rx_view m a = (case m a of Some (RxBlock x) \<Rightarrow> Some (rx_next x, x) | _ \<Rightarrow> None)"

definition buf_view :: "(addr \<rightharpoonup> CanardPoolAllocatorBlock) \<Rightarrow> (nat \<rightharpoonup> u8) view" where
  "buf_view m a = (case m a of Some (BufBlock x) \<Rightarrow> Some (bb_next x, bb_data x) | _ \<Rightarrow> None)"

lemmas view_defs = free_view_def tx_view_def rx_view_def buf_view_def

lemma view_upd_other [simp]:
  assumes "a \<noteq> c"
  shows "free_view (m(a \<mapsto> b)) c = free_view m c" "tx_view (m(a \<mapsto> b)) c = tx_view m c"
    and "rx_view (m(a \<mapsto> b)) c = rx_view m c" "buf_view (m(a \<mapsto> b)) c = buf_view m c"
  using assms by (simp_all add: view_defs)

lemma view_upd_same [simp]:
  "free_view (m(a \<mapsto> FreeBlock q)) a = Some (q, ())"
  "tx_view (m(a \<mapsto> TxBlock x)) a = Some (tx_next x, tx_frame x)"
  "rx_view (m(a \<mapsto> RxBlock y)) a = Some (rx_next y, y)"
  "buf_view (m(a \<mapsto> BufBlock z)) a = Some (bb_next z, bb_data z)"
  by (simp_all add: view_defs)

lemma free_chain_upd [simp]:
  "a \<notin> set (addrs xs) \<Longrightarrow> segment (free_view (m(a \<mapsto> b))) p xs e = segment (free_view m) p xs e"
  by (rule segment_cong) (metis view_upd_other(1))

lemma tx_chain_upd [simp]:
  "a \<notin> set (addrs xs) \<Longrightarrow> segment (tx_view (m(a \<mapsto> b))) p xs e = segment (tx_view m) p xs e"
  by (rule segment_cong) (metis view_upd_other(2))

lemma rx_chain_upd [simp]:
  "a \<notin> set (addrs xs) \<Longrightarrow> segment (rx_view (m(a \<mapsto> b))) p xs e = segment (rx_view m) p xs e"
  by (rule segment_cong) (metis view_upd_other(3))

lemma buf_chain_upd [simp]:
  "a \<notin> set (addrs xs) \<Longrightarrow> segment (buf_view (m(a \<mapsto> b))) p xs e = segment (buf_view m) p xs e"
  by (rule segment_cong) (metis view_upd_other(4))

end
