(* ===== verification/Canard_Pool.thy ===== *)
theory Canard_Pool
  imports Canard_Types
begin

text \<open>
  The pool allocator of libcanard (\<open>canard.c\<close>, section \<open>Pool Allocator functions\<close>): a free list
  threaded through the blocks of the arena, with usage statistics.
\<close>

section \<open>Operations\<close>

text \<open>
  The variable \<open>current_block\<close> of \<open>initPoolAllocator\<close> points to a cell that holds a block pointer:
  first the head of the free list, then the \<open>next\<close> member of the block written last.
\<close>

datatype pointer_cell = FreeListCell | NextCell addr

fun write_cell :: "pointer_cell \<Rightarrow> ptr \<Rightarrow> CanardPoolAllocator \<Rightarrow> CanardPoolAllocator" where
  "write_cell FreeListCell p al = al\<lparr>free_list := p\<rparr>"
| "write_cell (NextCell a) p al = put_block al a (FreeBlock p)"

function initPool_loop ::
  "nat \<Rightarrow> nat \<Rightarrow> pointer_cell \<Rightarrow> CanardPoolAllocator \<Rightarrow> CanardPoolAllocator" where
  "initPool_loop current_index buf_len current_block al =
     (if current_index < buf_len
      then initPool_loop (Suc current_index) buf_len (NextCell current_index)
             (write_cell current_block (Some current_index) al)
      else write_cell current_block None al)"
  by pat_completeness auto
termination
  by (relation "measure (\<lambda>(i, n, c, al). n - i)") auto

declare initPool_loop.simps [simp del]

definition initPoolAllocator :: "CanardPoolAllocator \<Rightarrow> u16 \<Rightarrow> CanardPoolAllocator" where
  "initPoolAllocator al buf_len =
     (initPool_loop 0 (unat buf_len) FreeListCell al)
       \<lparr>statistics := \<lparr>capacity_blocks = buf_len, current_usage_blocks = 0, peak_usage_blocks = 0\<rparr>\<rparr>"

definition allocateBlock :: "CanardPoolAllocator \<Rightarrow> (ptr \<times> CanardPoolAllocator) option" where
  "allocateBlock al =
     (case free_list al of
        None \<Rightarrow> Some (None, al)
      | Some result \<Rightarrow> do {
          next_free \<leftarrow> get_free al result;
          let st = statistics al;
          let st = st\<lparr>current_usage_blocks := current_usage_blocks st + 1\<rparr>;
          let st = (if peak_usage_blocks st < current_usage_blocks st
                    then st\<lparr>peak_usage_blocks := current_usage_blocks st\<rparr> else st);
          Some (Some result, al\<lparr>free_list := next_free, statistics := st\<rparr>)
        })"

definition freeBlock :: "CanardPoolAllocator \<Rightarrow> ptr \<Rightarrow> CanardPoolAllocator option" where
  "freeBlock al p = do {
     block \<leftarrow> p;
     canard_assert (block \<in> dom (arena al));
     let al = put_block al block (FreeBlock (free_list al));
     let al = al\<lparr>free_list := Some block\<rparr>;
     canard_assert (current_usage_blocks (statistics al) > 0);
     Some (al\<lparr>statistics := (statistics al)
                \<lparr>current_usage_blocks := current_usage_blocks (statistics al) - 1\<rparr>\<rparr>)
   }"

definition canardGetPoolAllocatorStatistics :: "CanardInstance \<Rightarrow> CanardPoolAllocatorStatistics"
  where "canardGetPoolAllocatorStatistics ins = statistics (allocator ins)"

section \<open>Setting up an instance\<close>

text \<open>
  \<open>memset(out_ins, 0, ...)\<close> followed by the assignments. The arena is raw memory: no block of it
  holds an object yet.
\<close>

definition canardInit :: "u32 \<Rightarrow> nat \<Rightarrow> CanardInstance" where
  "canardInit mem_arena_size user_ref =
     (let pool_capacity = unat mem_arena_size div CANARD_MEM_BLOCK_SIZE;
          pool_capacity = (if pool_capacity > 0xFFFF then 0xFFFF else pool_capacity);
          raw = \<lparr>free_list = None,
                 statistics = \<lparr>capacity_blocks = 0, current_usage_blocks = 0, peak_usage_blocks = 0\<rparr>,
                 arena = Map.empty\<rparr>
      in \<lparr>node_id = CANARD_BROADCAST_NODE_ID,
          allocator = initPoolAllocator raw (of_nat pool_capacity),
          rx_states = None, tx_queue = None, user_reference = user_ref\<rparr>)"

definition canardGetUserReference :: "CanardInstance \<Rightarrow> nat" where
  "canardGetUserReference ins = user_reference ins"

definition canardSetLocalNodeID :: "CanardInstance \<Rightarrow> u8 \<Rightarrow> CanardInstance option" where
  "canardSetLocalNodeID ins self_node_id =
     (if node_id ins = CANARD_BROADCAST_NODE_ID \<and> self_node_id \<ge> CANARD_MIN_NODE_ID \<and>
         self_node_id \<le> CANARD_MAX_NODE_ID
      then Some (ins\<lparr>node_id := self_node_id\<rparr>)
      else do { canard_assert False; Some ins })"

definition canardGetLocalNodeID :: "CanardInstance \<Rightarrow> u8" where
  "canardGetLocalNodeID ins = node_id ins"

lemmas instance_accessors [canard_simps] =
  canardGetPoolAllocatorStatistics_def canardGetUserReference_def canardGetLocalNodeID_def

section \<open>The interface the clients of the pool rely on\<close>

text \<open>
  \<open>invar p fs U\<close>: the blocks \<open>fs\<close> are free, in the order the allocator will hand them out, the
  blocks \<open>U\<close> are in use, and there are no others.
\<close>

locale block_pool =
  fixes alloc :: "'p \<Rightarrow> (ptr \<times> 'p) option"
    and release :: "'p \<Rightarrow> ptr \<Rightarrow> 'p option"
    and store :: "'p \<Rightarrow> addr \<Rightarrow> 'b \<Rightarrow> 'p"
    and content :: "'p \<Rightarrow> addr \<Rightarrow> 'b option"
    and invar :: "'p \<Rightarrow> addr list \<Rightarrow> addr set \<Rightarrow> bool"
  assumes alloc_empty: "invar p [] U \<Longrightarrow> alloc p = Some (None, p)"
    and alloc_block: "invar p (a # fs) U \<Longrightarrow>
      \<exists>q. alloc p = Some (Some a, q) \<and> invar q fs (insert a U) \<and> content q = content p"
    and release_block: "invar p fs U \<Longrightarrow> a \<in> U \<Longrightarrow>
      \<exists>q. release p (Some a) = Some q \<and> invar q (a # fs) (U - {a}) \<and>
          (\<forall>c. c \<noteq> a \<longrightarrow> content q c = content p c)"
    and store_block: "invar p fs U \<Longrightarrow> a \<in> U \<Longrightarrow> invar (store p a b) fs U"
    and read_store: "content (store p a b) = (content p)(a \<mapsto> b)"
    and separated: "invar p fs U \<Longrightarrow> distinct fs \<and> set fs \<inter> U = {}"
begin

text \<open>Placing a new object into the next free block leaves every other block alone.\<close>

lemma new_object:
  assumes "invar p (a # fs) U"
  shows "\<exists>q. alloc p = Some (Some a, q) \<and> content q = content p \<and> a \<notin> U \<and> a \<notin> set fs \<and>
    (\<forall>b. invar (store q a b) fs (insert a U) \<and> content (store q a b) = (content p)(a \<mapsto> b))"
proof -
  obtain q where q: "alloc p = Some (Some a, q)" "invar q fs (insert a U)" "content q = content p"
    using alloc_block [OF assms] by blast
  moreover have "a \<notin> U" "a \<notin> set fs"
    using separated [OF assms] by auto
  moreover have "invar (store q a b) fs (insert a U)" for b
    using store_block [OF q(2)] by simp
  ultimately show ?thesis
    by (auto simp: read_store)
qed

text \<open>A block that is released is the next one to be handed out.\<close>

lemma release_then_alloc:
  assumes "invar p fs U" and "a \<in> U"
  shows "\<exists>q r. release p (Some a) = Some q \<and> alloc q = Some (Some a, r) \<and> invar r fs U \<and>
    (\<forall>c. c \<noteq> a \<longrightarrow> content r c = content p c)"
proof -
  obtain q where q: "release p (Some a) = Some q" "invar q (a # fs) (U - {a})"
      "\<forall>c. c \<noteq> a \<longrightarrow> content q c = content p c"
    using release_block [OF assms] by blast
  obtain r where r: "alloc q = Some (Some a, r)" "invar r fs (insert a (U - {a}))" "content r = content q"
    using alloc_block [OF q(2)] by blast
  have "insert a (U - {a}) = U" using assms(2) by auto
  with q r show ?thesis by auto
qed

end

section \<open>The allocator provides the interface\<close>

abbreviation unit_list :: "addr list \<Rightarrow> (addr \<times> unit) list" where
  "unit_list fs \<equiv> map (\<lambda>a. (a, ())) fs"

lemma addrs_unit_list [simp]: "addrs (unit_list fs) = fs"
  by (simp add: addrs_def comp_def)

definition pool_inv :: "CanardPoolAllocator \<Rightarrow> addr list \<Rightarrow> addr set \<Rightarrow> bool" where
  "pool_inv al fs U \<longleftrightarrow>
     chain (free_view (arena al)) (free_list al) (unit_list fs) \<and>
     finite U \<and> set fs \<inter> U = {} \<and> dom (arena al) = set fs \<union> U \<and>
     card U = unat (current_usage_blocks (statistics al)) \<and>
     length fs + card U = unat (capacity_blocks (statistics al)) \<and>
     current_usage_blocks (statistics al) \<le> peak_usage_blocks (statistics al) \<and>
     peak_usage_blocks (statistics al) \<le> capacity_blocks (statistics al)"

lemma pool_inv_separated: "pool_inv al fs U \<Longrightarrow> distinct fs \<and> set fs \<inter> U = {}"
  using chain_distinct [of "free_view (arena al)" "free_list al" "unit_list fs"]
  by (simp add: pool_inv_def)

lemma pool_inv_alloc_empty: "pool_inv al [] U \<Longrightarrow> allocateBlock al = Some (None, al)"
  by (simp add: pool_inv_def allocateBlock_def)

lemma free_view_get: "free_view (arena al) a = Some (q, ()) \<longleftrightarrow> get_free al a = Some q"
  by (auto simp: free_view_def get_free_def split: option.splits CanardPoolAllocatorBlock.splits)

lemma pool_inv_alloc:
  assumes "pool_inv al (a # fs) U"
  shows "\<exists>al'. allocateBlock al = Some (Some a, al') \<and> pool_inv al' fs (insert a U) \<and>
    arena al' = arena al"
proof -
  let ?st = "statistics al"
  from assms obtain q where q: "free_list al = Some a" "get_free al a = Some q"
      "chain (free_view (arena al)) q (unit_list fs)"
    by (auto simp: pool_inv_def free_view_get)
  from pool_inv_separated [OF assms] have a: "a \<notin> U" "a \<notin> set fs" by auto
  have lt: "unat (current_usage_blocks ?st) < unat (capacity_blocks ?st)"
    using assms by (simp add: pool_inv_def)
  then have un: "unat (current_usage_blocks ?st + 1) = Suc (unat (current_usage_blocks ?st))"
    by (rule unat_plus_1)
  with lt have cap: "current_usage_blocks ?st + 1 \<le> capacity_blocks ?st"
    by (simp add: word_le_nat_alt)
  show ?thesis
    using assms q a cap un
    by (auto simp: allocateBlock_def pool_inv_def Let_def)
qed

lemma pool_inv_free:
  assumes "pool_inv al fs U" and "a \<in> U"
  shows "\<exists>al'. freeBlock al (Some a) = Some al' \<and> pool_inv al' (a # fs) (U - {a}) \<and>
    (\<forall>c. c \<noteq> a \<longrightarrow> arena al' c = arena al c)"
proof -
  let ?st = "statistics al"
  have dom: "a \<in> dom (arena al)" and a: "a \<notin> set fs" and fin: "finite U"
    using assms by (auto simp: pool_inv_def)
  have "0 < card U"
    using assms(2) fin by (auto simp: card_gt_0_iff)
  then have pos: "0 < unat (current_usage_blocks ?st)"
    using assms(1) by (simp add: pool_inv_def)
  then have un: "unat (current_usage_blocks ?st - 1) = unat (current_usage_blocks ?st) - 1"
    by (rule unat_minus_1)
  with pos have "current_usage_blocks ?st - 1 \<le> current_usage_blocks ?st"
    by (simp add: word_le_nat_alt)
  then have peak: "current_usage_blocks ?st - 1 \<le> peak_usage_blocks ?st"
    using assms(1) by (auto simp: pool_inv_def)
  have card: "card (U - {a}) = card U - 1"
    using assms(2) fin by simp
  show ?thesis
    using assms dom a un peak pos card
    by (auto simp: freeBlock_def Let_def pool_inv_def word_less_nat_alt)
qed

lemma pool_inv_put: "pool_inv al fs U \<Longrightarrow> a \<in> U \<Longrightarrow> pool_inv (put_block al a b) fs U"
  using pool_inv_separated [of al fs U] by (subgoal_tac "a \<notin> set fs") (auto simp: pool_inv_def)

interpretation pool: block_pool allocateBlock freeBlock put_block arena pool_inv
  by unfold_locales
     (auto simp: pool_inv_alloc_empty pool_inv_put dest: pool_inv_alloc pool_inv_free
        pool_inv_separated)

section \<open>Initialisation\<close>

text \<open>
  Between iterations the blocks below \<open>i\<close> are linked in order, the last cell written is still open,
  and closing it yields a list of the first \<open>i\<close> blocks.
\<close>

fun cell_at :: "nat \<Rightarrow> pointer_cell" where
  "cell_at 0 = FreeListCell"
| "cell_at (Suc i) = NextCell i"

definition linked :: "nat \<Rightarrow> ptr \<Rightarrow> CanardPoolAllocator \<Rightarrow> CanardPoolAllocator" where
  "linked n e al =
     al\<lparr>free_list := (if n = 0 then e else Some 0),
        arena := (\<lambda>i. if i < n then Some (FreeBlock (if Suc i < n then Some (Suc i) else e)) else arena al i)\<rparr>"

lemma write_next_linked: "write_cell (NextCell i) p (linked i (Some i) al) = linked (Suc i) p al"
  by (auto simp: linked_def put_block_def fun_eq_iff)

lemma initPool_loop_linked:
  "i \<le> n \<Longrightarrow> (\<And>p. write_cell (cell_at i) p st = linked i p al) \<Longrightarrow>
     initPool_loop i n (cell_at i) st = linked n None al"
proof (induction "n - i" arbitrary: i st)
  case 0
  then show ?case
    by (subst initPool_loop.simps) simp
next
  case (Suc k)
  then have lt: "i < n" by simp
  have "initPool_loop i n (cell_at i) st =
      initPool_loop (Suc i) n (cell_at (Suc i)) (linked i (Some i) al)"
    using lt Suc.prems(2) by (subst initPool_loop.simps) simp
  also have "\<dots> = linked n None al"
    using lt Suc.hyps(2) by (intro Suc.hyps(1)) (simp_all del: write_cell.simps add: write_next_linked)
  finally show ?case .
qed

lemma linked_chain:
  "i \<le> n \<Longrightarrow> chain (free_view (arena (linked n None al))) (if i < n then Some i else None)
     (unit_list [i..<n])"
proof (induction "n - i" arbitrary: i)
  case 0
  then show ?case by simp
next
  case (Suc k)
  then have "chain (free_view (arena (linked n None al))) (if Suc i < n then Some (Suc i) else None)
      (unit_list [Suc i..<n])" and "i < n"
    by auto
  then show ?case
    by (simp add: upt_conv_Cons linked_def free_view_def del: upt_Suc)
qed

lemma initPoolAllocator_inv:
  assumes "arena al = Map.empty"
  shows "pool_inv (initPoolAllocator al n) [0..<unat n] {}"
proof -
  have loop: "initPool_loop 0 (unat n) FreeListCell al = linked (unat n) None al"
    using initPool_loop_linked [of 0 "unat n" al al] assms
    by (simp add: linked_def)
  have "dom (arena (linked (unat n) None al)) = {0..<unat n}"
    using assms by (auto simp: linked_def split: if_splits)
  with linked_chain [of 0 "unat n" al] show ?thesis
    unfolding pool_inv_def initPoolAllocator_def loop
    by (cases "unat n = 0") (simp_all add: linked_def)
qed

end
