(* ===== verification/Canard_Layout.thy ===== *)
theory Canard_Layout
  imports Canard_Pool
begin

text \<open>
  Where every block of the arena is. A \<open>layout\<close> lists the free blocks, the items of the transmission
  queue, the receive states with their buffer blocks, and the buffer blocks of a transfer that is
  being shown to the application. \<open>canard_inv\<close> says that an instance has a given layout: the pointers
  of the instance lead to exactly these lists, no block is in two places, and no block is lost.
\<close>

type_synonym buffer_chain = "(addr \<times> (nat \<rightharpoonup> u8)) list"
type_synonym rx_entry = "addr \<times> CanardRxState \<times> buffer_chain"

record layout =
  lay_free :: "addr list"
  lay_tx :: "(addr \<times> CanardCANFrame) list"
  lay_rx :: "rx_entry list"
  lay_held :: buffer_chain

definition rx_head :: "rx_entry \<Rightarrow> addr \<times> CanardRxState" where
  "rx_head e = (fst e, fst (snd e))"

definition rx_addrs :: "rx_entry \<Rightarrow> addr list" where
  "rx_addrs e = fst e # addrs (snd (snd e))"

definition used_blocks :: "layout \<Rightarrow> addr list" where
  "used_blocks L = addrs (lay_tx L) @ concat (map rx_addrs (lay_rx L)) @ addrs (lay_held L)"

definition canard_inv :: "CanardInstance \<Rightarrow> layout \<Rightarrow> ptr \<Rightarrow> bool" where
  "canard_inv ins L held \<longleftrightarrow>
     (let m = arena (allocator ins) in
       pool_inv (allocator ins) (lay_free L) (set (used_blocks L)) \<and>
       distinct (used_blocks L) \<and>
       chain (tx_view m) (tx_queue ins) (lay_tx L) \<and>
       chain (rx_view m) (rx_states ins) (map rx_head (lay_rx L)) \<and>
       (\<forall>e \<in> set (lay_rx L). chain (buf_view m) (rx_buffer_blocks (fst (snd e))) (snd (snd e))) \<and>
       chain (buf_view m) held (lay_held L))"

lemma rx_entry_simps [simp]:
  "rx_head (a, r, bs) = (a, r)" "rx_addrs (a, r, bs) = a # addrs bs"
  "fst (rx_head e) = fst e" "snd (rx_head e) = fst (snd e)"
  by (simp_all add: rx_head_def rx_addrs_def)

lemma addrs_rx_heads [simp]: "addrs (map rx_head es) = map fst es"
  by (simp add: addrs_def)

text \<open>A list depends only on the blocks it visits.\<close>

lemma free_agree:
  "(\<And>a. a \<in> set (addrs xs) \<Longrightarrow> m' a = m a) \<Longrightarrow>
     segment (free_view m') p xs e = segment (free_view m) p xs e"
  and tx_agree: "(\<And>a. a \<in> set (addrs ys) \<Longrightarrow> m' a = m a) \<Longrightarrow>
     segment (tx_view m') p ys e = segment (tx_view m) p ys e"
  and rx_agree: "(\<And>a. a \<in> set (addrs zs) \<Longrightarrow> m' a = m a) \<Longrightarrow>
     segment (rx_view m') p zs e = segment (rx_view m) p zs e"
  and buf_agree: "(\<And>a. a \<in> set (addrs bs) \<Longrightarrow> m' a = m a) \<Longrightarrow>
     segment (buf_view m') p bs e = segment (buf_view m) p bs e"
  by (auto intro!: segment_cong simp: view_defs)

text \<open>The views and the typed accesses say the same.\<close>

lemma tx_view_get:
  "tx_view (arena al) a = Some (q, f) \<longleftrightarrow> get_tx al a = Some \<lparr>tx_next = q, tx_frame = f\<rparr>"
  by (auto simp: tx_view_def get_tx_def split: option.splits CanardPoolAllocatorBlock.splits)

lemma buf_view_get:
  "buf_view (arena al) a = Some (q, d) \<longleftrightarrow> get_buf al a = Some \<lparr>bb_next = q, bb_data = d\<rparr>"
  by (auto simp: buf_view_def get_buf_def split: option.splits CanardPoolAllocatorBlock.splits)

lemma rx_view_get:
  "rx_view (arena al) a = Some (q, r) \<longleftrightarrow> get_rx al a = Some r \<and> rx_next r = q"
  by (auto simp: rx_view_def get_rx_def split: option.splits CanardPoolAllocatorBlock.splits)

lemma canard_inv_pool:
  "canard_inv ins L h \<Longrightarrow> pool_inv (allocator ins) (lay_free L) (set (used_blocks L))"
  by (simp add: canard_inv_def Let_def)

lemma canard_inv_count:
  assumes "canard_inv ins L h"
  shows "length (lay_free L) + length (used_blocks L) =
    unat (capacity_blocks (statistics (allocator ins)))"
proof -
  have "card (set (used_blocks L)) = length (used_blocks L)"
    using assms by (intro distinct_card) (simp add: canard_inv_def Let_def)
  with canard_inv_pool [OF assms] show ?thesis
    by (simp add: pool_inv_def)
qed

abbreviation same_node :: "CanardInstance \<Rightarrow> CanardInstance \<Rightarrow> bool" where
  "same_node ins ins' \<equiv> node_id ins' = node_id ins \<and> rx_states ins' = rx_states ins \<and>
     user_reference ins' = user_reference ins"

end
