(* ===== verification/Canard_Id.thy ===== *)
theory Canard_Id
  imports Canard_Types
begin

text \<open>
  Identifiers of the transport (\<open>canard.c\<close>): the fields of the CAN identifier and of the tail byte,
  the transfer descriptor, the arithmetic on transfer identifiers, and the comparison of frame
  priorities that orders the transmission queue.
\<close>

section \<open>Fields of the identifier and of the tail byte\<close>

definition SOURCE_ID_FROM_ID :: "u32 \<Rightarrow> u8" where
  "SOURCE_ID_FROM_ID x = ucast (drop_bit 0 x AND 0x7F)"

definition SERVICE_NOT_MSG_FROM_ID :: "u32 \<Rightarrow> bool" where
  "SERVICE_NOT_MSG_FROM_ID x \<longleftrightarrow> drop_bit 7 x AND 0x1 \<noteq> 0"

definition REQUEST_NOT_RESPONSE_FROM_ID :: "u32 \<Rightarrow> bool" where
  "REQUEST_NOT_RESPONSE_FROM_ID x \<longleftrightarrow> drop_bit 15 x AND 0x1 \<noteq> 0"

definition DEST_ID_FROM_ID :: "u32 \<Rightarrow> u8" where
  "DEST_ID_FROM_ID x = ucast (drop_bit 8 x AND 0x7F)"

definition PRIORITY_FROM_ID :: "u32 \<Rightarrow> u8" where
  "PRIORITY_FROM_ID x = ucast (drop_bit 24 x AND 0x1F)"

definition MSG_TYPE_FROM_ID :: "u32 \<Rightarrow> u16" where
  "MSG_TYPE_FROM_ID x = ucast (drop_bit 8 x AND 0xFFFF)"

definition SRV_TYPE_FROM_ID :: "u32 \<Rightarrow> u8" where
  "SRV_TYPE_FROM_ID x = ucast (drop_bit 16 x AND 0xFF)"

definition MAKE_TRANSFER_DESCRIPTOR :: "u16 \<Rightarrow> CanardTransferType \<Rightarrow> u8 \<Rightarrow> u8 \<Rightarrow> u32" where
  "MAKE_TRANSFER_DESCRIPTOR data_type_id transfer_type src_node_id dst_node_id =
     ucast data_type_id OR push_bit 16 (transfer_type_value transfer_type) OR
     push_bit 18 (ucast src_node_id) OR push_bit 25 (ucast dst_node_id)"

definition TRANSFER_ID_FROM_TAIL_BYTE :: "u8 \<Rightarrow> u8" where
  "TRANSFER_ID_FROM_TAIL_BYTE x = x AND 0x1F"

definition IS_START_OF_TRANSFER :: "u8 \<Rightarrow> bool" where
  "IS_START_OF_TRANSFER x \<longleftrightarrow> drop_bit 7 x AND 0x1 \<noteq> 0"

definition IS_END_OF_TRANSFER :: "u8 \<Rightarrow> bool" where
  "IS_END_OF_TRANSFER x \<longleftrightarrow> drop_bit 6 x AND 0x1 \<noteq> 0"

definition TOGGLE_BIT :: "u8 \<Rightarrow> bool" where
  "TOGGLE_BIT x \<longleftrightarrow> drop_bit 5 x AND 0x1 \<noteq> 0"

definition extractTransferType :: "u32 \<Rightarrow> CanardTransferType" where
  "extractTransferType i =
     (let is_service = SERVICE_NOT_MSG_FROM_ID i in
      if \<not> is_service then CanardTransferTypeBroadcast
      else if REQUEST_NOT_RESPONSE_FROM_ID i then CanardTransferTypeRequest
      else CanardTransferTypeResponse)"

definition extractDataType :: "u32 \<Rightarrow> u16" where
  "extractDataType i =
     (if extractTransferType i = CanardTransferTypeBroadcast then
        let dtid = MSG_TYPE_FROM_ID i in
        if SOURCE_ID_FROM_ID i = CANARD_BROADCAST_NODE_ID
        then dtid AND (push_bit ANON_MSG_DATA_TYPE_ID_BIT_LEN 1 - 1)
        else dtid
      else ucast (SRV_TYPE_FROM_ID i))"

section \<open>Transfer identifiers\<close>

definition computeTransferIDForwardDistance :: "u8 \<Rightarrow> u8 \<Rightarrow> int" where
  "computeTransferIDForwardDistance a b =
     (let d = uint b - uint a in if d < 0 then d + push_bit TRANSFER_ID_BIT_LEN 1 else d)"

text \<open>The argument is the value behind the pointer \<open>transfer_id\<close>; \<open>None\<close> is the null pointer.\<close>

definition incrementTransferID :: "u8 option \<Rightarrow> u8 option" where
  "incrementTransferID transfer_id = do {
     canard_assert (transfer_id \<noteq> None);
     v \<leftarrow> transfer_id;
     let v = v + 1;
     Some (if v \<ge> 32 then 0 else v)
   }"

section \<open>Priority of frames\<close>

definition isPriorityHigher :: "u32 \<Rightarrow> u32 \<Rightarrow> bool" where
  "isPriorityHigher rhs i =
     (let clean_id = i AND CANARD_CAN_EXT_ID_MASK;
          rhs_clean_id = rhs AND CANARD_CAN_EXT_ID_MASK;
          ext = (i AND CANARD_CAN_FRAME_EFF \<noteq> 0);
          rhs_ext = (rhs AND CANARD_CAN_FRAME_EFF \<noteq> 0)
      in if ext \<noteq> rhs_ext then
           let arb11 = (if ext then drop_bit 18 clean_id else clean_id);
               rhs_arb11 = (if rhs_ext then drop_bit 18 rhs_clean_id else rhs_clean_id)
           in if arb11 \<noteq> rhs_arb11 then arb11 < rhs_arb11 else rhs_ext
         else
           let rtr = (i AND CANARD_CAN_FRAME_RTR \<noteq> 0);
               rhs_rtr = (rhs AND CANARD_CAN_FRAME_RTR \<noteq> 0)
           in if clean_id = rhs_clean_id \<and> rtr \<noteq> rhs_rtr then rhs_rtr
              else clean_id < rhs_clean_id)"

section \<open>The reference: bitwise arbitration on the bus\<close>

text \<open>
  On the bus the identifier is sent most significant bit first; a dominant bit (\<open>False\<close>, logical 0)
  overrides a recessive one, so the frame whose arbitration field has the first dominant bit where
  the other has a recessive one keeps the bus. A standard frame sends 11 identifier bits, RTR and a
  dominant IDE bit; an extended frame sends 11 identifier bits, a recessive SRR bit, a recessive
  IDE bit, 18 identifier bits and RTR.
\<close>

primrec top_bits :: "nat \<Rightarrow> u32 \<Rightarrow> bool list" where
  "top_bits 0 w = []"
| "top_bits (Suc n) w = bit w n # top_bits n w"

definition arbitration_field :: "u32 \<Rightarrow> bool list" where
  "arbitration_field i =
     (if bit i 31 then top_bits 11 (drop_bit 18 i) @ [True, True] @ top_bits 18 i @ [bit i 30]
      else top_bits 11 i @ [bit i 30, False])"

fun arbitration_wins :: "bool list \<Rightarrow> bool list \<Rightarrow> bool" where
  "arbitration_wins (x # xs) (y # ys) = (if x = y then arbitration_wins xs ys else \<not> x)"
| "arbitration_wins _ _ = False"

lemma length_top_bits [simp]: "length (top_bits n w) = n"
  by (induction n) simp_all

lemma arbitration_wins_append:
  "length p = length q \<Longrightarrow>
     arbitration_wins (p @ s) (q @ t) = (if p = q then arbitration_wins s t else arbitration_wins p q)"
  by (induction p q rule: list_induct2) auto

lemma take_bit_uint_Suc:
  "take_bit (Suc n) (uint w) = (if bit w n then 2 ^ n else 0) + take_bit n (uint (w :: u32))"
  by (simp add: take_bit_Suc_from_most bit_uint_iff) (auto dest: bit_imp_le_length)

lemma bit_cons:
  assumes "0 \<le> l" "l < (2::int) ^ n" "0 \<le> l'" "l' < 2 ^ n"
  shows "(if b then 2 ^ n else 0) + l < (if b' then 2 ^ n else 0) + l' \<longleftrightarrow>
      (if b = b' then l < l' else \<not> b)"
    and "(if b then 2 ^ n else 0) + l = (if b' then 2 ^ n else 0) + l' \<longleftrightarrow> b = b' \<and> l = l'"
  using assms by auto

lemma top_bits_wins:
  "arbitration_wins (top_bits n w) (top_bits n v) \<longleftrightarrow> take_bit n (uint w) < take_bit n (uint v)"
proof (induction n)
  case 0
  then show ?case by simp
next
  case (Suc n)
  then show ?case
    by (simp add: take_bit_uint_Suc bit_cons)
qed

lemma top_bits_eq:
  "top_bits n w = top_bits n v \<longleftrightarrow> take_bit n (uint w) = take_bit n (uint v)"
proof (induction n)
  case 0
  then show ?case by simp
next
  case (Suc n)
  then show ?case
    by (simp add: take_bit_uint_Suc bit_cons)
qed

lemma take_bit_split:
  "take_bit (m + n) (x :: int) = take_bit m (drop_bit n x) * 2 ^ n + take_bit n x"
proof -
  have "take_bit (n + m) x = x mod (2 ^ n * 2 ^ m)"
    by (simp add: take_bit_eq_mod power_add)
  also have "\<dots> = 2 ^ n * (x div 2 ^ n mod 2 ^ m) + x mod 2 ^ n"
    by (rule zmod_zmult2_eq) simp
  finally show ?thesis
    by (simp add: take_bit_eq_mod drop_bit_eq_div ac_simps)
qed

lemma less_split:
  assumes "0 \<le> l" "l < (2::int) ^ n" "0 \<le> l'" "l' < 2 ^ n"
  shows "h * 2 ^ n + l < h' * 2 ^ n + l' \<longleftrightarrow> h < h' \<or> h = h' \<and> l < l'"
proof -
  have "h < h' \<Longrightarrow> h * 2 ^ n + l < h' * 2 ^ n + l'"
  proof -
    assume "h < h'"
    then have "(h + 1) * 2 ^ n \<le> h' * 2 ^ n" by (intro mult_right_mono) auto
    with assms show ?thesis by (simp add: algebra_simps)
  qed
  moreover have "h' < h \<Longrightarrow> h' * 2 ^ n + l' < h * 2 ^ n + l"
  proof -
    assume "h' < h"
    then have "(h' + 1) * 2 ^ n \<le> h * 2 ^ n" by (intro mult_right_mono) auto
    with assms show ?thesis by (simp add: algebra_simps)
  qed
  ultimately show ?thesis by (cases h h' rule: linorder_cases) auto
qed

lemma and_ext_mask: "uint (i AND CANARD_CAN_EXT_ID_MASK) = take_bit 29 (uint i)"
proof -
  have "(i AND CANARD_CAN_EXT_ID_MASK) = take_bit 29 i"
    by (simp add: take_bit_eq_mask mask_eq_exp_minus_1)
  then show ?thesis by (simp add: unsigned_take_bit_eq)
qed

text \<open>The identifiers frames can carry: a standard identifier fits 11 bits.\<close>

definition valid_can_id :: "u32 \<Rightarrow> bool" where
  "valid_can_id i \<longleftrightarrow> (\<not> bit i 31 \<longrightarrow> i AND CANARD_CAN_EXT_ID_MASK \<le> CANARD_CAN_STD_ID_MASK)"

lemma valid_std:
  assumes "valid_can_id i" and "\<not> bit i 31"
  shows "take_bit 29 (uint i) = take_bit 11 (uint i)"
proof -
  have "take_bit 29 (uint i) < 2 ^ 11"
    using assms by (simp add: valid_can_id_def word_le_def and_ext_mask)
  then show ?thesis
    using take_bit_int_eq_self [of "take_bit 29 (uint i)" 11] by simp
qed

lemma flags: "(i AND CANARD_CAN_FRAME_EFF \<noteq> 0) = bit i 31" "(i AND CANARD_CAN_FRAME_RTR \<noteq> 0) = bit i 30"
  by (rule and_flag_iff; simp)+

lemma uint_drop_bit: "uint (drop_bit n (w :: 'a::len word)) = drop_bit n (uint w)"
  by (rule bit_eqI) (auto simp: bit_simps dest: bit_imp_le_length)

lemma ext_split:
  "take_bit 29 (uint (i :: u32)) = take_bit 11 (uint (drop_bit 18 i)) * 2 ^ 18 + take_bit 18 (uint i)"
  using take_bit_split [of 11 18 "uint i"] by (simp add: uint_drop_bit)

lemma arb11:
  "uint (drop_bit 18 ((i :: u32) AND CANARD_CAN_EXT_ID_MASK)) = take_bit 11 (uint (drop_bit 18 i))"
  by (simp only: uint_drop_bit and_ext_mask drop_bit_take_bit) simp

lemma higher_ext:
  assumes "bit i 31" and "bit rhs 31"
  defines "h \<equiv> take_bit 11 (uint (drop_bit 18 i))" and "l \<equiv> take_bit 18 (uint i)"
    and "h' \<equiv> take_bit 11 (uint (drop_bit 18 rhs))" and "l' \<equiv> take_bit 18 (uint rhs)"
  shows "isPriorityHigher rhs i \<longleftrightarrow>
      h < h' \<or> h = h' \<and> (l < l' \<or> l = l' \<and> \<not> bit i 30 \<and> bit rhs 30)"
proof -
  have bounds: "0 \<le> l" "l < 2 ^ 18" "0 \<le> l'" "l' < 2 ^ 18"
    using take_bit_int_less_exp [of 18] by (simp_all add: l_def l'_def del: take_bit_int_less_exp)
  have "isPriorityHigher rhs i \<longleftrightarrow>
     (if h * 2 ^ 18 + l = h' * 2 ^ 18 + l' \<and> bit i 30 \<noteq> bit rhs 30 then bit rhs 30
      else h * 2 ^ 18 + l < h' * 2 ^ 18 + l')"
    using assms(1,2) unfolding isPriorityHigher_def flags
    by (simp only: Let_def word_uint_eq_iff word_less_def and_ext_mask ext_split h_def l_def h'_def l'_def)
       simp
  moreover have "h * 2 ^ 18 + l = h' * 2 ^ 18 + l' \<longleftrightarrow> h = h' \<and> l = l'"
    using less_split [OF bounds, of h h'] less_split [OF bounds(3,4,1,2), of h' h] by auto
  ultimately show ?thesis
    unfolding less_split [OF bounds] by auto
qed

lemma and_2047: "uint ((w :: u32) AND 2047) = take_bit 11 (uint w)"
proof -
  have "w AND 2047 = take_bit 11 w"
    by (simp add: take_bit_eq_mask mask_eq_exp_minus_1)
  then show ?thesis by (simp add: unsigned_take_bit_eq)
qed

lemmas higher_words = word_less_def word_uint_eq_iff arb11 and_ext_mask

lemma higher_ext_std:
  "bit i 31 \<Longrightarrow> \<not> bit rhs 31 \<Longrightarrow> isPriorityHigher rhs i \<longleftrightarrow>
     take_bit 11 (uint (drop_bit 18 i)) < take_bit 29 (uint rhs)"
  unfolding isPriorityHigher_def flags Let_def unfolding higher_words by (simp add: less_le and_2047 and_ext_mask)

lemma higher_std_ext:
  "\<not> bit i 31 \<Longrightarrow> bit rhs 31 \<Longrightarrow> isPriorityHigher rhs i \<longleftrightarrow>
     take_bit 29 (uint i) \<le> take_bit 11 (uint (drop_bit 18 rhs))"
  unfolding isPriorityHigher_def flags Let_def unfolding higher_words by (simp add: less_le and_2047 and_ext_mask)

lemma higher_std_std:
  "\<not> bit i 31 \<Longrightarrow> \<not> bit rhs 31 \<Longrightarrow> isPriorityHigher rhs i \<longleftrightarrow>
     take_bit 29 (uint i) < take_bit 29 (uint rhs) \<or>
     take_bit 29 (uint i) = take_bit 29 (uint rhs) \<and> \<not> bit i 30 \<and> bit rhs 30"
  unfolding isPriorityHigher_def flags Let_def unfolding higher_words by auto

lemmas higher_cases = higher_ext higher_ext_std higher_std_ext higher_std_std

text \<open>
  C4. For all identifiers frames can carry, standard and extended, data and remote,
  \<open>isPriorityHigher rhs i\<close> holds exactly when the frame with identifier \<open>i\<close> wins the bitwise
  arbitration of the bus against the one with identifier \<open>rhs\<close>. (The comment above the function
  reads the arguments the other way round.)
\<close>

theorem isPriorityHigher_is_arbitration:
  assumes "valid_can_id rhs" and "valid_can_id i"
  shows "isPriorityHigher rhs i \<longleftrightarrow> arbitration_wins (arbitration_field i) (arbitration_field rhs)"
  using assms
  by (cases "bit i 31"; cases "bit rhs 31")
     (auto simp: higher_cases arbitration_field_def arbitration_wins_append top_bits_wins top_bits_eq
       valid_std)

theorem isPriorityHigher_is_arbitration_witness:
  "isPriorityHigher (CANARD_CAN_FRAME_EFF OR 0x18015501) 0x600 \<longleftrightarrow>
    arbitration_wins (arbitration_field 0x600)
      (arbitration_field (CANARD_CAN_FRAME_EFF OR 0x18015501))"
  by (rule isPriorityHigher_is_arbitration) (simp_all add: valid_can_id_def)

text \<open>Frames of the library are extended data frames: the comparison is that of the identifiers.\<close>

lemma isPriorityHigher_ext:
  assumes "bit i 31" "bit rhs 31" "\<not> bit i 30" "\<not> bit rhs 30"
  shows "isPriorityHigher rhs i \<longleftrightarrow> i AND CANARD_CAN_EXT_ID_MASK < rhs AND CANARD_CAN_EXT_ID_MASK"
  using assms unfolding isPriorityHigher_def flags Let_def by simp

section \<open>Building identifiers\<close>

definition message_can_id :: "u8 \<Rightarrow> u16 \<Rightarrow> u8 \<Rightarrow> u32" where
  "message_can_id priority data_type_id node =
     push_bit 24 (ucast priority) OR push_bit 8 (ucast data_type_id) OR ucast node"

definition anonymous_can_id :: "u8 \<Rightarrow> u16 \<Rightarrow> u16 \<Rightarrow> u8 \<Rightarrow> u32" where
  "anonymous_can_id priority discriminator data_type_id node =
     push_bit 24 (ucast priority) OR push_bit 9 (ucast discriminator) OR
     push_bit 8 (ucast (data_type_id AND 3)) OR ucast node"

definition service_can_id :: "u8 \<Rightarrow> u8 \<Rightarrow> CanardRequestResponse \<Rightarrow> u8 \<Rightarrow> u8 \<Rightarrow> u32" where
  "service_can_id priority data_type_id kind destination_node_id node =
     push_bit 24 (ucast priority) OR push_bit 16 (ucast data_type_id) OR
     push_bit 15 (request_response_value kind) OR push_bit 8 (ucast destination_node_id) OR
     push_bit 7 1 OR ucast node"

lemmas id_field_defs = SOURCE_ID_FROM_ID_def SERVICE_NOT_MSG_FROM_ID_def
  REQUEST_NOT_RESPONSE_FROM_ID_def DEST_ID_FROM_ID_def PRIORITY_FROM_ID_def MSG_TYPE_FROM_ID_def
  SRV_TYPE_FROM_ID_def

lemma bit_mask_num_iff:
  "m = mask k \<Longrightarrow> k \<le> LENGTH('a) \<Longrightarrow> bit (m :: 'a::len word) n \<longleftrightarrow> n < k"
  by (auto simp: bit_mask_iff)

lemma bit_mask_num [simp]:
  "bit (0x7F :: u32) n \<longleftrightarrow> n < 7" "bit (0x1F :: u32) n \<longleftrightarrow> n < 5"
  "bit (0xFFFF :: u32) n \<longleftrightarrow> n < 16" "bit (0xFF :: u32) n \<longleftrightarrow> n < 8"
  "bit (0x1FFFFFFF :: u32) n \<longleftrightarrow> n < 29" "bit (0x1F :: u8) n \<longleftrightarrow> n < 5" "bit (3 :: u16) n \<longleftrightarrow> n < 2"
  by (rule bit_mask_num_iff; simp add: mask_eq_exp_minus_1)+

lemma bit_drop_1: "(drop_bit k w AND 1 \<noteq> 0) = bit (w :: 'a::len word) k"
  using and_flag_iff [of 1 0 "drop_bit k w"] by (simp add: bit_drop_bit_eq)

lemma flag_bits:
  "SERVICE_NOT_MSG_FROM_ID x = bit x 7" "REQUEST_NOT_RESPONSE_FROM_ID x = bit x 15"
  "IS_START_OF_TRANSFER b = bit b 7" "IS_END_OF_TRANSFER b = bit b 6" "TOGGLE_BIT b = bit b 5"
  unfolding SERVICE_NOT_MSG_FROM_ID_def REQUEST_NOT_RESPONSE_FROM_ID_def IS_START_OF_TRANSFER_def
    IS_END_OF_TRANSFER_def TOGGLE_BIT_def bit_drop_1 by (rule refl)+

lemma field_bits:
  "bit (SOURCE_ID_FROM_ID x) n \<longleftrightarrow> n < 7 \<and> bit x n"
  "bit (DEST_ID_FROM_ID x) n \<longleftrightarrow> n < 7 \<and> bit x (8 + n)"
  "bit (PRIORITY_FROM_ID x) n \<longleftrightarrow> n < 5 \<and> bit x (24 + n)"
  "bit (MSG_TYPE_FROM_ID x) n \<longleftrightarrow> n < 16 \<and> bit x (8 + n)"
  "bit (SRV_TYPE_FROM_ID x) n \<longleftrightarrow> n < 8 \<and> bit x (16 + n)"
  unfolding id_field_defs bit_unsigned_iff bit_and_iff bit_drop_bit_eq bit_mask_num comp_apply
  by (auto dest: bit_imp_le_length)

lemma u8_high_bits: "unat (x :: u8) < 2 ^ k \<Longrightarrow> bit x n \<Longrightarrow> n < k"
proof -
  assume "unat x < 2 ^ k" and b: "bit x n"
  then have "take_bit k (unat x) = unat x"
    by (simp add: take_bit_nat_eq_self)
  moreover have "bit (unat x) n"
    using b by (simp add: bit_unsigned_iff bit_imp_le_length)
  ultimately show "n < k"
    by (metis bit_take_bit_iff)
qed

section \<open>Reading back what was built\<close>

lemma bit_request_response: "bit (request_response_value k) n \<longleftrightarrow> n = 0 \<and> k = CanardRequest"
  by (cases k) (auto simp: bit_1_iff)

lemma bit_eff [simp]: "bit (CANARD_CAN_FRAME_EFF) n \<longleftrightarrow> n = 31"
proof -
  have "CANARD_CAN_FRAME_EFF = 2 ^ 31" by simp
  then show ?thesis by (simp only: bit_exp_iff) auto
qed

lemma bit_128 [simp]: "bit (128 :: u32) n \<longleftrightarrow> n = 7"
  using bit_exp_iff [where 'a = "32 word", of 7 n] by auto

lemmas bit_words = bit_and_iff bit_or_iff bit_push_bit_iff bit_drop_bit_eq bit_unsigned_iff
  bit_request_response bit_1_iff

lemma service_can_id_fields:
  assumes "unat priority < 32" and "unat dest < 128" and "unat node < 128"
    and i_def: "i = service_can_id priority dtid kind dest node OR CANARD_CAN_FRAME_EFF"
  shows "extractTransferType i =
      (if kind = CanardRequest then CanardTransferTypeRequest else CanardTransferTypeResponse)"
    and "extractDataType i = ucast dtid" and "PRIORITY_FROM_ID i = priority"
    and "DEST_ID_FROM_ID i = dest" and "SOURCE_ID_FROM_ID i = node"
proof -
  note hb = u8_high_bits [of priority 5] u8_high_bits [of dest 7] u8_high_bits [of node 7]
  have len: "bit (x :: u8) n \<Longrightarrow> n < 8" for x n
    by (auto dest: bit_imp_le_length)
  have svc: "SERVICE_NOT_MSG_FROM_ID i"
    by (simp add: flag_bits i_def service_can_id_def bit_words)
  have req: "REQUEST_NOT_RESPONSE_FROM_ID i \<longleftrightarrow> kind = CanardRequest"
    using hb assms(1-3)
    by (auto simp: flag_bits i_def service_can_id_def bit_words dest: len
        simp del: bit_numeral_word_iff)
  show "extractTransferType i =
      (if kind = CanardRequest then CanardTransferTypeRequest else CanardTransferTypeResponse)"
    by (simp add: extractTransferType_def svc req)
  have "SRV_TYPE_FROM_ID i = dtid"
    using hb assms(1-3)
    by (intro bit_word_eqI)
       (auto simp: field_bits i_def service_can_id_def bit_words dest: len
         simp del: bit_numeral_word_iff)
  then show "extractDataType i = ucast dtid"
    by (simp add: extractDataType_def extractTransferType_def svc)
  show "PRIORITY_FROM_ID i = priority"
    using hb assms(1-3)
    by (intro bit_word_eqI)
       (auto simp: field_bits i_def service_can_id_def bit_words dest: len
         simp del: bit_numeral_word_iff)
  show "DEST_ID_FROM_ID i = dest"
    using hb assms(1-3)
    by (intro bit_word_eqI)
       (auto simp: field_bits i_def service_can_id_def bit_words dest: len
         simp del: bit_numeral_word_iff)
  show "SOURCE_ID_FROM_ID i = node"
    using hb assms(1-3)
    by (intro bit_word_eqI)
       (auto simp: field_bits i_def service_can_id_def bit_words dest: len
         simp del: bit_numeral_word_iff)
qed

lemma message_can_id_fields:
  assumes "unat priority < 32" and "unat node < 128"
    and i_def: "i = message_can_id priority dtid node OR CANARD_CAN_FRAME_EFF"
  shows "extractTransferType i = CanardTransferTypeBroadcast"
    and "node \<noteq> 0 \<Longrightarrow> extractDataType i = dtid" and "PRIORITY_FROM_ID i = priority"
    and "SOURCE_ID_FROM_ID i = node"
proof -
  note hb = u8_high_bits [of priority 5] u8_high_bits [of node 7]
  have len: "bit (x :: u8) n \<Longrightarrow> n < 8" "bit (y :: u16) n \<Longrightarrow> n < 16" for x y n
    by (auto dest: bit_imp_le_length)
  have svc: "\<not> SERVICE_NOT_MSG_FROM_ID i"
    using hb assms(1,2)
    by (auto simp: flag_bits i_def message_can_id_def bit_words simp del: bit_numeral_word_iff)
  then show ty: "extractTransferType i = CanardTransferTypeBroadcast"
    by (simp add: extractTransferType_def)
  show "PRIORITY_FROM_ID i = priority"
    using hb assms(1,2)
    by (intro bit_word_eqI)
       (auto simp: field_bits i_def message_can_id_def bit_words dest: len
         simp del: bit_numeral_word_iff)
  show src: "SOURCE_ID_FROM_ID i = node"
    using hb assms(1,2)
    by (intro bit_word_eqI)
       (auto simp: field_bits i_def message_can_id_def bit_words dest: len
         simp del: bit_numeral_word_iff)
  have "MSG_TYPE_FROM_ID i = dtid"
    using hb assms(1,2)
    by (intro bit_word_eqI)
       (auto simp: field_bits i_def message_can_id_def bit_words dest: len
         simp del: bit_numeral_word_iff)
  then show "node \<noteq> 0 \<Longrightarrow> extractDataType i = dtid"
    by (simp add: extractDataType_def ty src)
qed

text \<open>
  C6. For every priority up to 31 and every pair of 7-bit node identifiers, the fields libcanard
  reads from the identifier of a service frame are those it was built from.
\<close>

theorem service_can_id_roundtrip:
  assumes "unat priority < 32" and "unat dest < 128" and "unat node < 128"
  shows "let i = service_can_id priority dtid kind dest node OR CANARD_CAN_FRAME_EFF in
      extractTransferType i =
        (if kind = CanardRequest then CanardTransferTypeRequest else CanardTransferTypeResponse) \<and>
      extractDataType i = ucast dtid \<and> PRIORITY_FROM_ID i = priority \<and>
      DEST_ID_FROM_ID i = dest \<and> SOURCE_ID_FROM_ID i = node"
  using service_can_id_fields [OF assms refl] by (simp add: Let_def)

theorem service_can_id_roundtrip_witness:
  "let i = service_can_id 24 48 CanardRequest 127 42 OR CANARD_CAN_FRAME_EFF in
      extractTransferType i =
        (if CanardRequest = CanardRequest then CanardTransferTypeRequest
         else CanardTransferTypeResponse) \<and>
      extractDataType i = ucast (48 :: u8) \<and> PRIORITY_FROM_ID i = 24 \<and>
      DEST_ID_FROM_ID i = 127 \<and> SOURCE_ID_FROM_ID i = 42"
  by (rule service_can_id_roundtrip) simp_all

lemma bit_transfer_type:
  "bit (transfer_type_value t) n \<longleftrightarrow>
     n = 0 \<and> t = CanardTransferTypeRequest \<or> n = 1 \<and> t = CanardTransferTypeBroadcast"
  using bit_exp_iff [where 'a = "32 word", of 1 n]
  by (cases t) (auto simp: bit_1_iff simp del: bit_numeral_word_iff)

lemma bit_descriptor:
  assumes "unat src < 128" and "unat dst < 128" and "n < 32"
  shows "bit (MAKE_TRANSFER_DESCRIPTOR dtid tt src dst) n \<longleftrightarrow>
    (if n < 16 then bit dtid n else if n < 18 then bit (transfer_type_value tt) (n - 16)
     else if n < 25 then bit src (n - 18) else bit dst (n - 25))"
proof -
  have "bit src k \<Longrightarrow> k < 7" "bit dst k \<Longrightarrow> k < 7" "bit dtid k \<Longrightarrow> k < 16"
    "bit (transfer_type_value tt) k \<Longrightarrow> k < 2" for k
    using u8_high_bits [of src 7] u8_high_bits [of dst 7] assms
    by (auto simp: bit_transfer_type dest: bit_imp_le_length)
  from this [of n] this [of "n - 16"] this [of "n - 18"] this [of "n - 25"] assms(3)
  show ?thesis
    unfolding MAKE_TRANSFER_DESCRIPTOR_def bit_or_iff bit_push_bit_iff bit_unsigned_iff
    by auto
qed

text \<open>
  The transfer descriptor identifies a transfer: two descriptors are equal only for the same
  data type, transfer type, source and destination.
\<close>

theorem transfer_descriptor_injective:
  assumes "unat src < 128" and "unat dst < 128" and "unat src' < 128" and "unat dst' < 128"
  shows "MAKE_TRANSFER_DESCRIPTOR dtid tt src dst = MAKE_TRANSFER_DESCRIPTOR dtid' tt' src' dst' \<longleftrightarrow>
    dtid = dtid' \<and> tt = tt' \<and> src = src' \<and> dst = dst'"
proof
  assume eq: "MAKE_TRANSFER_DESCRIPTOR dtid tt src dst = MAKE_TRANSFER_DESCRIPTOR dtid' tt' src' dst'"
  note b = bit_descriptor [OF assms(1,2)] bit_descriptor [OF assms(3,4)]
  have same: "bit (MAKE_TRANSFER_DESCRIPTOR dtid tt src dst) n =
      bit (MAKE_TRANSFER_DESCRIPTOR dtid' tt' src' dst') n" for n
    by (simp add: eq)
  have "bit dtid n = bit dtid' n" if "n < 16" for n
    using same [of n] that by (simp add: b)
  then have 1: "dtid = dtid'" by (intro bit_word_eqI) simp
  have "bit (transfer_type_value tt) n = bit (transfer_type_value tt') n" if "n < 2" for n
    using same [of "16 + n"] that by (simp add: b)
  from this [of 0] this [of 1] have 2: "tt = tt'"
    by (cases tt; cases tt') (simp_all add: bit_transfer_type)
  have "bit src n = bit src' n" if "n < 7" for n
    using same [of "18 + n"] that by (simp add: b)
  then have 3: "src = src'"
    using u8_high_bits [of src 7] u8_high_bits [of src' 7] assms
    by (intro bit_word_eqI) auto
  have "bit dst n = bit dst' n" if "n < 7" for n
    using same [of "25 + n"] that by (simp add: b)
  then have 4: "dst = dst'"
    using u8_high_bits [of dst 7] u8_high_bits [of dst' 7] assms
    by (intro bit_word_eqI) auto
  from 1 2 3 4 show "dtid = dtid' \<and> tt = tt' \<and> src = src' \<and> dst = dst'" by simp
qed simp

theorem transfer_descriptor_injective_witness:
  "MAKE_TRANSFER_DESCRIPTOR 341 CanardTransferTypeBroadcast 10 0 =
     MAKE_TRANSFER_DESCRIPTOR 341 CanardTransferTypeBroadcast 11 0 \<longleftrightarrow>
    (341 :: u16) = 341 \<and> CanardTransferTypeBroadcast = CanardTransferTypeBroadcast \<and>
    (10 :: u8) = 11 \<and> (0 :: u8) = 0"
  by (rule transfer_descriptor_injective) simp_all

section \<open>Transfer identifiers count modulo 32\<close>

lemma incrementTransferID_Some:
  "unat t < 32 \<Longrightarrow> incrementTransferID (Some t) = Some (of_nat ((unat t + 1) mod 32))"
  by (cases "unat t = 31")
     (auto simp: incrementTransferID_def word_le_nat_alt unat_word_ariths Let_def)

lemma incrementTransferID_iter:
  "unat t < 32 \<Longrightarrow> (incrementTransferID ^^ n) (Some t) = Some (of_nat ((unat t + n) mod 32))"
proof (induction n)
  case 0
  then show ?case by simp
next
  case (Suc n)
  have u: "unat (of_nat ((unat t + n) mod 32) :: u8) = (unat t + n) mod 32"
    by (simp add: unat_of_nat)
  have "(incrementTransferID ^^ Suc n) (Some t) =
      incrementTransferID (Some (of_nat ((unat t + n) mod 32)))"
    using Suc by simp
  also have "\<dots> = Some (of_nat (((unat t + n) mod 32 + 1) mod 32))"
    using incrementTransferID_Some [of "of_nat ((unat t + n) mod 32)"] u by simp
  also have "((unat t + n) mod 32 + 1) mod 32 = (unat t + Suc n) mod 32"
    by presburger
  finally show ?case .
qed

text \<open>
  The forward distance between two transfer identifiers is the one number below 32 of
  increments that lead from the first to the second.
\<close>

theorem transfer_id_distance_counts_increments:
  assumes "unat a < 32" and "unat b < 32" and "n < 32"
  shows "(incrementTransferID ^^ n) (Some a) = Some b \<longleftrightarrow>
    computeTransferIDForwardDistance a b = int n"
proof -
  have "(of_nat ((unat a + n) mod 32) :: u8) = b \<longleftrightarrow> (unat a + n) mod 32 = unat b"
  proof -
    have "unat (of_nat ((unat a + n) mod 32) :: u8) = (unat a + n) mod 32"
      by (simp add: unat_of_nat)
    then show ?thesis by (simp only: word_unat_eq_iff)
  qed
  also have "\<dots> \<longleftrightarrow> computeTransferIDForwardDistance a b = int n"
  proof -
    have arith: "(x + n) mod 32 = y \<longleftrightarrow> (if int y - int x < 0 then int y - int x + 32 else int y - int x) = int n"
      if "x < 32" "y < 32" for x y :: nat
      using that assms(3) by (cases "x + n < 32") (auto simp: mod_if)
    show ?thesis
      using arith [OF assms(1,2)] by (simp add: computeTransferIDForwardDistance_def Let_def)
  qed
  finally show ?thesis
    by (simp add: incrementTransferID_iter [OF assms(1)])
qed

theorem transfer_id_distance_counts_increments_witness:
  "(incrementTransferID ^^ 3) (Some 30) = Some 1 \<longleftrightarrow>
    computeTransferIDForwardDistance 30 1 = int 3"
  by (rule transfer_id_distance_counts_increments) simp_all

end
