(* ===== verification/Crc_Register.thy ===== *)
theory Crc_Register
  imports Canard_Prelude
begin

text \<open>
  The contract of a cyclic redundancy check computed by a shift register that is fed one byte at a
  time at its uppermost end. The contract fixes one shift (\<open>step\<close>) and the step for a byte
  (\<open>add\<close>); what follows from it is linearity, injectivity, and the detection of every error
  burst that fits the register. \<open>Canard_Crc\<close> gives the instance of libcanard's transfer CRC.
\<close>

section \<open>The interface: a shift register fed from the most significant bit\<close>

locale msb_crc =
  fixes poly :: "'a::len word"
    and step :: "'a word \<Rightarrow> 'a word"
    and add :: "'a word \<Rightarrow> u8 \<Rightarrow> 'a word"
  assumes step: "step c = push_bit 1 c XOR (if bit c (LENGTH('a) - 1) then poly else 0)"
    and add: "add c b = (step ^^ 8) (c XOR push_bit (LENGTH('a) - 8) (ucast b))"
    and poly_odd: "bit poly 0"
    and wide: "8 \<le> LENGTH('a)"
begin

lemma bit_step:
  "bit (step c) n \<longleftrightarrow>
     n < LENGTH('a) \<and> ((0 < n \<and> bit c (n - 1)) \<noteq> (bit c (LENGTH('a) - 1) \<and> bit poly n))"
  by (cases n) (auto simp: step bit_simps simp del: push_bit_Suc dest: bit_imp_le_length)

lemma step_xor: "step (a XOR b) = step a XOR step b"
  by (rule bit_word_eqI) (auto simp: bit_step bit_xor_iff)

lemma step_0 [simp]: "step 0 = 0"
  by (simp add: step)

lemma step_eq_0: "step c = 0 \<longleftrightarrow> c = 0"
proof
  assume z: "step c = 0"
  then have bits: "\<not> bit (step c) n" for n by simp
  from bits [of 0] have top: "\<not> bit c (LENGTH('a) - 1)"
    using poly_odd by (simp add: bit_step)
  show "c = 0"
  proof (rule bit_word_eqI)
    fix n assume n: "n < LENGTH('a)"
    show "bit c n = bit (0 :: 'a word) n"
    proof (cases "n = LENGTH('a) - 1")
      case True
      with top show ?thesis by simp
    next
      case False
      with n top bits [of "Suc n"] show ?thesis
        by (simp add: bit_step)
    qed
  qed
qed simp

lemma steps_xor: "(step ^^ n) (a XOR b) = (step ^^ n) a XOR (step ^^ n) b"
  by (induction n) (simp_all add: step_xor)

lemma steps_0 [simp]: "(step ^^ n) 0 = 0"
  by (induction n) simp_all

lemma steps_eq_0: "(step ^^ n) c = 0 \<longleftrightarrow> c = 0"
  by (induction n) (simp_all add: step_eq_0)

lemma steps_inj: "(step ^^ n) a = (step ^^ n) b \<longleftrightarrow> a = b"
  by (metis steps_xor steps_eq_0 xor_eq_0_iff)

text \<open>Bits that never reach the top are only shifted.\<close>

lemma steps_low:
  "(\<forall>i. bit c i \<longrightarrow> i + n < LENGTH('a)) \<Longrightarrow> (step ^^ n) c = push_bit n c"
proof (induction n)
  case 0
  then show ?case by simp
next
  case (Suc n)
  then have IH: "(step ^^ n) c = push_bit n c" by force
  have top: "\<not> bit (push_bit n c) (LENGTH('a) - 1)"
    using Suc.prems by (force simp: bit_push_bit_iff)
  show ?case
    by (rule bit_word_eqI) (use top in \<open>auto simp: IH bit_step bit_simps Suc_le_eq simp del: push_bit_Suc\<close>)
qed

text \<open>The bytes of a list aligned at the top of the register, first byte uppermost.\<close>

definition packed :: "u8 list \<Rightarrow> 'a word" where
  "packed bs = foldr (\<lambda>b p. push_bit (LENGTH('a) - 8) (ucast b) XOR drop_bit 8 p) bs 0"

lemma packed_simps [simp]:
  "packed [] = 0"
  "packed (b # bs) = push_bit (LENGTH('a) - 8) (ucast b) XOR drop_bit 8 (packed bs)"
  by (simp_all add: packed_def)

lemma packed_low: "bit (packed bs) i \<Longrightarrow> LENGTH('a) \<le> i + 8 * length bs"
proof (induction bs arbitrary: i)
  case Nil
  then show ?case by simp
next
  case (Cons b bs)
  show ?case
  proof (rule ccontr)
    assume far: "\<not> ?thesis"
    then have "\<not> bit (packed bs) (8 + i)"
      using Cons.IH [of "8 + i"] by auto
    with Cons.prems wide far show False
      by (auto simp: bit_simps)
  qed
qed

lemma push_drop_packed:
  assumes "8 * Suc (length bs) \<le> LENGTH('a)"
  shows "push_bit 8 (drop_bit 8 (packed bs)) = packed bs"
proof (rule bit_word_eqI)
  fix i assume "i < LENGTH('a)"
  have "i < 8 \<Longrightarrow> \<not> bit (packed bs) i"
    using packed_low [of bs i] assms by auto
  then show "bit (push_bit 8 (drop_bit 8 (packed bs))) i = bit (packed bs) i"
    using \<open>i < LENGTH('a)\<close> by (cases "i < 8") (auto simp: bit_simps)
qed

lemma add_packed:
  "8 * length bs \<le> LENGTH('a) \<Longrightarrow>
     foldl add c bs = (step ^^ (8 * length bs)) (c XOR packed bs)"
proof (induction bs arbitrary: c)
  case Nil
  then show ?case by simp
next
  case (Cons b bs)
  let ?B = "push_bit (LENGTH('a) - 8) (ucast b) :: 'a word"
  have len: "8 * Suc (length bs) \<le> LENGTH('a)"
    using Cons.prems by simp
  have "\<forall>i. bit (drop_bit 8 (packed bs)) i \<longrightarrow> i + 8 < LENGTH('a)"
    by (auto simp: bit_simps dest: bit_imp_le_length)
  then have low: "(step ^^ 8) (drop_bit 8 (packed bs)) = packed bs"
    using push_drop_packed [OF len] steps_low by simp
  have "foldl add c (b # bs) = (step ^^ (8 * length bs)) (add c b XOR packed bs)"
    using Cons.IH [of "add c b"] len by simp
  also have "add c b XOR packed bs = (step ^^ 8) (c XOR ?B XOR drop_bit 8 (packed bs))"
    by (simp only: add steps_xor low xor.assoc)
  also have "(step ^^ (8 * length bs)) \<dots> =
      (step ^^ (8 * length bs + 8)) (c XOR ?B XOR drop_bit 8 (packed bs))"
    by (simp only: funpow_add comp_apply)
  finally show ?case by (simp only: packed_simps length_Cons xor.assoc mult_Suc_right add.commute [of 8])
qed

lemma packed_inj:
  "length xs = length ys \<Longrightarrow> 8 * length xs \<le> LENGTH('a) \<Longrightarrow> packed xs = packed ys \<Longrightarrow> xs = ys"
proof (induction xs ys rule: list_induct2)
  case Nil
  then show ?case by simp
next
  case (Cons x xs y ys)
  have "bit x i = bit y i" if "i < 8" for i
  proof -
    from that wide have
      "bit (packed (x # xs)) (LENGTH('a) - 8 + i) = bit x i"
      "bit (packed (y # ys)) (LENGTH('a) - 8 + i) = bit y i"
      by (auto simp: bit_simps dest: bit_imp_le_length)
    with Cons.prems(2) show ?thesis by simp
  qed
  then have xy: "x = y" by (intro bit_word_eqI) simp
  have "drop_bit 8 (packed xs) = drop_bit 8 (packed ys)"
    using Cons.prems(2) by (simp add: xy)
  moreover have "8 * Suc (length xs) \<le> LENGTH('a)" "8 * Suc (length ys) \<le> LENGTH('a)"
    using Cons.prems(1) Cons.hyps by simp_all
  ultimately have "packed xs = packed ys"
    using push_drop_packed by metis
  with Cons.IH Cons.prems(1) xy show ?case by simp
qed

lemma add_inj_crc: "foldl add c xs = foldl add d xs \<longleftrightarrow> c = d"
proof (induction xs arbitrary: c d)
  case Nil
  then show ?case by simp
next
  case (Cons x xs)
  then show ?case
    by (simp add: add steps_inj)
qed

text \<open>A register of \<open>w\<close> bits detects every change inside a window of \<open>w\<close> consecutive message bits
  aligned at a byte.\<close>

lemma burst_detected:
  assumes "length xs = length ys" and "8 * length xs \<le> LENGTH('a)" and "xs \<noteq> ys"
  shows "foldl add c (pre @ xs @ post) \<noteq> foldl add c (pre @ ys @ post)"
proof
  assume "foldl add c (pre @ xs @ post) = foldl add c (pre @ ys @ post)"
  then have "foldl add (foldl add c pre) xs = foldl add (foldl add c pre) ys"
    by (simp add: add_inj_crc)
  then have "packed xs = packed ys"
    using assms(1,2) by (simp add: add_packed steps_inj)
  with packed_inj assms show False by blast
qed

text \<open>Feeding the register its own content, uppermost byte first, clears it.\<close>

lemma self_clears:
  assumes "8 * length bs = LENGTH('a)" and "packed bs = c"
  shows "foldl add c bs = 0"
  using assms by (simp add: add_packed)

text \<open>The register is additive in the pair of its content and the message.\<close>

lemma add_xor:
  "length xs = length ys \<Longrightarrow>
     foldl add (c XOR d) (map2 (XOR) xs ys) = foldl add c xs XOR foldl add d ys"
proof (induction xs ys arbitrary: c d rule: list_induct2)
  case Nil
  then show ?case by simp
next
  case (Cons x xs y ys)
  have "add (c XOR d) (x XOR y) = add c x XOR add d y"
    by (simp add: add steps_xor [symmetric] unsigned_xor_eq push_bit_xor ac_simps)
  with Cons.IH show ?case by simp
qed

end
end
