(* ===== verification/Canard_Crc.thy ===== *)
theory Canard_Crc
  imports Crc_Register
begin

text \<open>
  The transfer CRC of libcanard (\<open>canard.c\<close>, section \<open>CRC functions\<close>): CRC-16-CCITT with the
  polynomial \<open>0x1021\<close>, computed bit by bit from the most significant bit.
\<close>

section \<open>Operations\<close>

text \<open>One iteration of the loop of \<open>crcAddByte\<close>.\<close>

definition crc_step :: "u16 \<Rightarrow> u16" where
  "crc_step crc_val =
     (if crc_val AND 0x8000 \<noteq> 0 then push_bit 1 crc_val XOR 0x1021 else push_bit 1 crc_val)"

fun crc_loop :: "nat \<Rightarrow> u16 \<Rightarrow> u16" where
  "crc_loop 0 crc_val = crc_val"
| "crc_loop (Suc j) crc_val = crc_loop j (crc_step crc_val)"

definition crcAddByte :: "u16 \<Rightarrow> u8 \<Rightarrow> u16" where
  "crcAddByte crc_val byte = crc_loop 8 (crc_val XOR push_bit 8 (ucast byte))"

text \<open>\<open>for (shift_val = 0; shift_val < 64; shift_val += 8)\<close>: the eight bytes, lowest first.\<close>

fun crcAddSignature_loop :: "nat \<Rightarrow> nat \<Rightarrow> u16 \<Rightarrow> u64 \<Rightarrow> u16" where
  "crcAddSignature_loop 0 shift_val crc_val sig = crc_val"
| "crcAddSignature_loop (Suc n) shift_val crc_val sig =
     crcAddSignature_loop n (shift_val + 8) (crcAddByte crc_val (ucast (drop_bit shift_val sig))) sig"

definition crcAddSignature :: "u16 \<Rightarrow> u64 \<Rightarrow> u16" where
  "crcAddSignature crc_val data_type_signature =
     crcAddSignature_loop 8 0 crc_val data_type_signature"

fun crcAdd :: "u16 \<Rightarrow> u8 list \<Rightarrow> u16" where
  "crcAdd crc_val [] = crc_val"
| "crcAdd crc_val (b # bs) = crcAdd (crcAddByte crc_val b) bs"

text \<open>\<open>crcAdd(crc, payload, payload_len)\<close> on the bytes behind a pointer.\<close>

definition crcAdd_ptr :: "u16 \<Rightarrow> u8 list option \<Rightarrow> nat \<Rightarrow> u16 option" where
  "crcAdd_ptr crc payload n =
     (if n = 0 then Some crc
      else do { bs \<leftarrow> payload; canard_assert (n \<le> length bs); Some (crcAdd crc (take n bs)) })"

section \<open>The contract of a shift register\<close>

lemma crc_loop_funpow: "crc_loop n c = (crc_step ^^ n) c"
  by (induction n arbitrary: c) (simp_all add: funpow_swap1)

lemma crc_loop_numeral [simp]:
  "crc_loop (numeral k) c = crc_loop (pred_numeral k) (crc_step c)"
  by (simp add: numeral_eq_Suc)

lemma and_8000_iff: "(c AND 0x8000 \<noteq> 0) = bit (c :: u16) 15"
  by (rule and_flag_iff) simp

interpretation crc16: msb_crc "0x1021 :: u16" crc_step crcAddByte
proof unfold_locales
  fix c :: u16 and b :: u8
  show "crc_step c = push_bit 1 c XOR (if bit c (LENGTH(16) - 1) then 0x1021 else 0)"
    by (simp add: crc_step_def and_8000_iff)
  show "crcAddByte c b = (crc_step ^^ 8) (c XOR push_bit (LENGTH(16) - 8) (ucast b))"
    by (simp only: crcAddByte_def crc_loop_funpow) simp
qed simp_all

lemma crcAdd_foldl: "crcAdd c bs = foldl crcAddByte c bs"
  by (induction bs arbitrary: c) simp_all

lemma crcAdd_append [simp]: "crcAdd c (xs @ ys) = crcAdd (crcAdd c xs) ys"
  by (simp add: crcAdd_foldl)

section \<open>The signature is eight bytes of message\<close>

lemma crcAddSignature_loop_bytes:
  "crcAddSignature_loop n (8 * k) c sig =
     crcAdd c (map (\<lambda>j. ucast (drop_bit (8 * j) sig)) [k..<k + n])"
proof (induction n arbitrary: k c)
  case 0
  then show ?case by simp
next
  case (Suc n)
  then show ?case
    using Suc [of "Suc k"] by (simp add: upt_conv_Cons add.commute del: upt_Suc)
qed

lemma crcAddSignature_bytes: "crcAddSignature c sig = crcAdd c (le_bytes 8 sig)"
  using crcAddSignature_loop_bytes [of 8 0 c sig]
  by (simp add: crcAddSignature_def le_bytes_def)

section \<open>The bit-serial reference\<close>

text \<open>
  The textbook definition: a bit enters at the top of the register, and the polynomial is
  subtracted when the bit shifted out differs from the incoming one.
\<close>

definition serial_step :: "u16 \<Rightarrow> bool \<Rightarrow> u16" where
  "serial_step c b = push_bit 1 c XOR (if bit c 15 \<noteq> b then 0x1021 else 0)"

definition msb_bits :: "u8 \<Rightarrow> bool list" where
  "msb_bits x = map (\<lambda>k. bit x (7 - k)) [0..<8]"

lemma serial_prefix:
  "n \<le> 8 \<Longrightarrow> (crc_step ^^ n) (c XOR push_bit 8 (ucast x)) =
     foldl serial_step c (map (\<lambda>k. bit x (7 - k)) [0..<n]) XOR push_bit (8 + n) (ucast x)"
proof (induction n)
  case 0
  then show ?case by simp
next
  case (Suc n)
  let ?r = "foldl serial_step c (map (\<lambda>k. bit x (7 - k)) [0..<n])"
  let ?x = "push_bit (8 + n) (ucast x) :: u16"
  have top: "bit ?x 15 = bit x (7 - n)"
    using Suc.prems by (auto simp: bit_simps)
  have shift: "push_bit 1 ?x = push_bit (8 + Suc n) (ucast x)"
    by (simp only: push_bit_push_bit) (simp only: add_Suc_right plus_1_eq_Suc)
  have step: "crc_step a = push_bit 1 a XOR (if bit a 15 then 0x1021 else 0)" for a
    using crc16.step [of a] by simp
  have "(crc_step ^^ Suc n) (c XOR push_bit 8 (ucast x)) = crc_step (?r XOR ?x)"
    using Suc by (simp del: push_bit_Suc)
  also have "\<dots> = push_bit 1 ?r XOR push_bit 1 ?x XOR
      (if bit ?r 15 \<noteq> bit x (7 - n) then 0x1021 else 0)"
    by (simp only: step push_bit_xor bit_xor_iff top xor.assoc)
  also have "\<dots> = serial_step ?r (bit x (7 - n)) XOR push_bit 1 ?x"
    by (simp only: serial_step_def xor.assoc xor.commute [of "push_bit 1 ?x"])
  finally show ?case
    by (simp only: shift) simp
qed

lemma crcAddByte_serial: "crcAddByte c x = foldl serial_step c (msb_bits x)"
proof -
  have "push_bit (8 + 8) (ucast x) = (0 :: u16)"
    by (rule bit_word_eqI) (simp add: bit_simps)
  with serial_prefix [of 8 c x] show ?thesis
    by (simp add: crcAddByte_def crc_loop_funpow msb_bits_def)
qed

section \<open>Properties\<close>

lemma crcAdd_serial_bits: "crcAdd c bs = foldl serial_step c (concat (map msb_bits bs))"
  by (induction bs arbitrary: c) (simp_all add: crcAddByte_serial)

text \<open>
  C7. The transfer CRC of a data type signature and a payload is the bit-serial CRC-16-CCITT of the
  signature's eight bytes, lowest first, followed by the payload, each byte most significant bit
  first.
\<close>

theorem transfer_crc_is_serial_crc:
  "crcAdd (crcAddSignature c sig) payload =
     foldl serial_step c (concat (map msb_bits (le_bytes 8 sig @ payload)))"
  by (simp add: crcAddSignature_bytes crcAdd_serial_bits)

text \<open>
  Whatever the start value and the bytes around it, replacing one or two consecutive bytes of
  a payload by different ones changes the transfer CRC: every error burst of up to 16 bits aligned
  at a byte is detected.
\<close>

theorem crcAdd_detects_burst:
  assumes "length xs = length ys" and "length xs \<le> 2" and "xs \<noteq> ys"
  shows "crcAdd c (pre @ xs @ post) \<noteq> crcAdd c (pre @ ys @ post)"
  using crc16.burst_detected [of xs ys c pre post] assms by (simp add: crcAdd_foldl)

theorem crcAdd_detects_burst_witness:
  "crcAdd 0xFFFF ([1, 2] @ [3, 4] @ [5]) \<noteq> crcAdd 0xFFFF ([1, 2] @ [3, 0] @ [5])"
  by (rule crcAdd_detects_burst) simp_all

lemma packed16: "crc16.packed [x, y] = (push_bit 8 (ucast x) XOR ucast y :: u16)"
  by (rule bit_word_eqI) (auto simp: crc16.packed_simps bit_simps dest: bit_imp_le_length)

text \<open>
  Appending the CRC itself, high byte first, to the bytes it covers gives the residue zero.
\<close>

theorem crcAdd_residue_zero:
  "crcAdd c (bs @ [ucast (drop_bit 8 (crcAdd c bs)), ucast (crcAdd c bs)]) = 0"
proof -
  let ?r = "crcAdd c bs"
  have "crc16.packed [ucast (drop_bit 8 ?r), ucast ?r] = ?r"
    unfolding packed16 by (rule bit_word_eqI) (auto simp: bit_simps dest: bit_imp_le_length)
  then show ?thesis
    using crc16.self_clears [of "[ucast (drop_bit 8 ?r), ucast ?r]" ?r] by (simp add: crcAdd_foldl)
qed

text \<open>The check value of CRC-16-CCITT-FALSE for the digits \<open>123456789\<close>.\<close>

lemma crcAdd_check_value:
  "crcAdd 0xFFFF [0x31, 0x32, 0x33, 0x34, 0x35, 0x36, 0x37, 0x38, 0x39] = 0x29B1"
  by (simp add: crcAddByte_def crc_step_def)

end
