(* ===== verification/Canard_Tx.thy ===== *)
theory Canard_Tx
  imports Canard_Layout Canard_Id Canard_Crc
begin

text \<open>
  The transmission side of libcanard (\<open>canard.c\<close>): splitting a transfer into frames, the prioritised
  queue of frames in pool blocks, and the calls that publish and take frames.
\<close>

section \<open>Queue items\<close>

definition zero_frame :: CanardCANFrame where
  "zero_frame = \<lparr>frame_id = 0, frame_data = replicate CANARD_CAN_FRAME_MAX_DATA_LEN 0, frame_data_len = 0\<rparr>"

definition createTxItem :: "CanardPoolAllocator \<Rightarrow> (ptr \<times> CanardPoolAllocator) option" where
  "createTxItem al = do {
     (item, al) \<leftarrow> allocateBlock al;
     case item of
       None \<Rightarrow> Some (None, al)
     | Some a \<Rightarrow> Some (Some a, put_block al a (TxBlock \<lparr>tx_next = None, tx_frame = zero_frame\<rparr>))
   }"

text \<open>Assignments through a pointer to a queue item: \<open>p->next = q\<close> and \<open>p->frame = f\<close>.\<close>

definition set_tx_next :: "CanardInstance \<Rightarrow> addr \<Rightarrow> ptr \<Rightarrow> CanardInstance option" where
  "set_tx_next ins a q = do {
     x \<leftarrow> get_tx (allocator ins) a;
     Some (ins\<lparr>allocator := put_block (allocator ins) a (TxBlock (x\<lparr>tx_next := q\<rparr>))\<rparr>)
   }"

definition set_tx_frame :: "CanardInstance \<Rightarrow> addr \<Rightarrow> CanardCANFrame \<Rightarrow> CanardInstance option" where
  "set_tx_frame ins a f = do {
     x \<leftarrow> get_tx (allocator ins) a;
     Some (ins\<lparr>allocator := put_block (allocator ins) a (TxBlock (x\<lparr>tx_frame := f\<rparr>))\<rparr>)
   }"

section \<open>The prioritised queue\<close>

partial_function (option) pushTx_loop ::
  "addr \<Rightarrow> ptr \<Rightarrow> ptr \<Rightarrow> CanardInstance \<Rightarrow> CanardInstance option" where
  "pushTx_loop item queue previous ins =
     (case queue of
        None \<Rightarrow> Some ins
      | Some q \<Rightarrow> do {
          qi \<leftarrow> get_tx (allocator ins) q;
          it \<leftarrow> get_tx (allocator ins) item;
          if isPriorityHigher (frame_id (tx_frame qi)) (frame_id (tx_frame it)) then
            (if queue = tx_queue ins then do {
               ins \<leftarrow> set_tx_next ins item queue;
               Some (ins\<lparr>tx_queue := Some item\<rparr>)
             } else do {
               p \<leftarrow> previous;
               ins \<leftarrow> set_tx_next ins p (Some item);
               set_tx_next ins item queue
             })
          else if tx_next qi = None then set_tx_next ins q (Some item)
          else pushTx_loop item (tx_next qi) queue ins
        })"

definition pushTxQueue :: "CanardInstance \<Rightarrow> addr \<Rightarrow> CanardInstance option" where
  "pushTxQueue ins item = do {
     it \<leftarrow> get_tx (allocator ins) item;
     canard_assert (frame_data_len (tx_frame it) > 0);
     if tx_queue ins = None then Some (ins\<lparr>tx_queue := Some item\<rparr>)
     else pushTx_loop item (tx_queue ins) (tx_queue ins) ins
   }"

text \<open>\<open>const CanardCANFrame*\<close>: the frame found at the head, or \<open>NULL\<close>.\<close>

definition canardPeekTxQueue :: "CanardInstance \<Rightarrow> CanardCANFrame option option" where
  "canardPeekTxQueue ins =
     (case tx_queue ins of
        None \<Rightarrow> Some None
      | Some a \<Rightarrow> do { x \<leftarrow> get_tx (allocator ins) a; Some (Some (tx_frame x)) })"

definition canardPopTxQueue :: "CanardInstance \<Rightarrow> CanardInstance option" where
  "canardPopTxQueue ins = do {
     item \<leftarrow> tx_queue ins;
     x \<leftarrow> get_tx (allocator ins) item;
     al \<leftarrow> freeBlock (allocator ins) (Some item);
     Some (ins\<lparr>tx_queue := tx_next x, allocator := al\<rparr>)
   }"

section \<open>Splitting a transfer into frames\<close>

text \<open>\<open>memcpy(dst, src, n)\<close> on byte arrays.\<close>

definition memcpy :: "u8 list \<Rightarrow> u8 list \<Rightarrow> nat \<Rightarrow> u8 list option" where
  "memcpy dst src n =
     (if n \<le> length dst \<and> n \<le> length src then Some (take n src @ drop n dst) else None)"

text \<open>
  The copying loop of a multi-frame transfer: \<open>i\<close> is the index into the frame, \<open>data_index\<close> the
  index into the payload.
\<close>

function copy_to_frame ::
  "u8 list \<Rightarrow> nat \<Rightarrow> nat \<Rightarrow> nat \<Rightarrow> u8 list \<Rightarrow> (nat \<times> nat \<times> u8 list) option" where
  "copy_to_frame payload payload_len i data_index data =
     (if i < CANARD_CAN_FRAME_MAX_DATA_LEN - 1 \<and> data_index < payload_len then do {
        b \<leftarrow> nth_opt payload data_index;
        data \<leftarrow> upd_opt data i b;
        copy_to_frame payload payload_len (Suc i) (Suc data_index) data
      } else Some (i, data_index, data))"
  by pat_completeness auto
termination
  by (relation "measure (\<lambda>(p, n, i, d, f). CANARD_CAN_FRAME_MAX_DATA_LEN - 1 - i)") auto

declare copy_to_frame.simps [simp del]

text \<open>The loop over the frames of a multi-frame transfer.\<close>

partial_function (option) enqueue_multi ::
  "CanardInstance \<Rightarrow> u32 \<Rightarrow> u8 \<Rightarrow> u16 \<Rightarrow> u8 list \<Rightarrow> nat \<Rightarrow> nat \<Rightarrow> u8 \<Rightarrow> u8 \<Rightarrow> int \<Rightarrow>
     (int \<times> CanardInstance) option" where
  "enqueue_multi ins can_id tid crc payload payload_len data_index toggle sot_eot result =
     (if int payload_len - int data_index \<noteq> 0 then do {
        (item, al) \<leftarrow> createTxItem (allocator ins);
        (case item of
           None \<Rightarrow> Some (- CANARD_ERROR_OUT_OF_MEMORY, ins\<lparr>allocator := al\<rparr>)
         | Some a \<Rightarrow> do {
             x \<leftarrow> get_tx al a;
             (i, data) \<leftarrow>
               (if data_index = 0 then do {
                  d \<leftarrow> upd_opt (frame_data (tx_frame x)) 0 (ucast crc);
                  d \<leftarrow> upd_opt d 1 (ucast (drop_bit 8 crc));
                  Some (2, d)
                } else Some (0, frame_data (tx_frame x)));
             (i, data_index, data) \<leftarrow> copy_to_frame payload payload_len i data_index data;
             let sot_eot = (if data_index = payload_len then 0x40 else sot_eot);
             data \<leftarrow> upd_opt data i (sot_eot OR push_bit 5 toggle OR (tid AND 31));
             ins \<leftarrow> set_tx_frame (ins\<lparr>allocator := al\<rparr>) a
               \<lparr>frame_id = can_id OR CANARD_CAN_FRAME_EFF, frame_data = data,
                frame_data_len = of_nat (i + 1)\<rparr>;
             ins \<leftarrow> pushTxQueue ins a;
             enqueue_multi ins can_id tid crc payload payload_len data_index (toggle XOR 1) 0 (result + 1)
           })
      } else Some (result, ins))"

text \<open>
  \<open>transfer_id\<close> and \<open>payload\<close> are pointers: \<open>None\<close> is \<open>NULL\<close>, otherwise the value or the bytes they
  point to.
\<close>

definition enqueueTxFrames ::
  "CanardInstance \<Rightarrow> u32 \<Rightarrow> u8 option \<Rightarrow> u16 \<Rightarrow> u8 list option \<Rightarrow> u16 \<Rightarrow>
     (int \<times> CanardInstance) option" where
  "enqueueTxFrames ins can_id transfer_id crc payload payload_len = do {
     canard_assert (can_id AND CANARD_CAN_EXT_ID_MASK = can_id);
     (case transfer_id of
        None \<Rightarrow> Some (- CANARD_ERROR_INVALID_ARGUMENT, ins)
      | Some tid \<Rightarrow>
          if payload_len > 0 \<and> payload = None then Some (- CANARD_ERROR_INVALID_ARGUMENT, ins)
          else
            let bytes = (case payload of None \<Rightarrow> [] | Some bs \<Rightarrow> bs); n = unat payload_len in
            if n < CANARD_CAN_FRAME_MAX_DATA_LEN then do {
              (item, al) \<leftarrow> createTxItem (allocator ins);
              (case item of
                 None \<Rightarrow> Some (- CANARD_ERROR_OUT_OF_MEMORY, ins\<lparr>allocator := al\<rparr>)
               | Some a \<Rightarrow> do {
                   x \<leftarrow> get_tx al a;
                   data \<leftarrow> memcpy (frame_data (tx_frame x)) bytes n;
                   data \<leftarrow> upd_opt data n (0xC0 OR (tid AND 31));
                   ins \<leftarrow> set_tx_frame (ins\<lparr>allocator := al\<rparr>) a
                     \<lparr>frame_id = can_id OR CANARD_CAN_FRAME_EFF, frame_data = data,
                      frame_data_len = of_nat (n + 1)\<rparr>;
                   ins \<leftarrow> pushTxQueue ins a;
                   Some (1, ins)
                 })
            }
            else enqueue_multi ins can_id tid crc bytes n 0 0 0x80 0)
   }"

section \<open>Publishing a transfer\<close>

text \<open>The result carries the value written back to \<open>*inout_transfer_id\<close>.\<close>

definition canardBroadcast ::
  "CanardInstance \<Rightarrow> u64 \<Rightarrow> u16 \<Rightarrow> u8 option \<Rightarrow> u8 \<Rightarrow> u8 list option \<Rightarrow> u16 \<Rightarrow>
     (int \<times> u8 option \<times> CanardInstance) option" where
  "canardBroadcast ins data_type_signature data_type_id inout_transfer_id priority payload payload_len =
     (if payload = None \<and> payload_len > 0 then
        Some (- CANARD_ERROR_INVALID_ARGUMENT, inout_transfer_id, ins)
      else if priority > CANARD_TRANSFER_PRIORITY_LOWEST then
        Some (- CANARD_ERROR_INVALID_ARGUMENT, inout_transfer_id, ins)
      else if canardGetLocalNodeID ins = 0 \<and> payload_len > 7 then
        Some (- CANARD_ERROR_NODE_ID_NOT_SET, inout_transfer_id, ins)
      else if canardGetLocalNodeID ins = 0 \<and>
          data_type_id AND (push_bit ANON_MSG_DATA_TYPE_ID_BIT_LEN 1 - 1) \<noteq> data_type_id then
        Some (- CANARD_ERROR_INVALID_ARGUMENT, inout_transfer_id, ins)
      else do {
        (can_id, crc) \<leftarrow>
          (if canardGetLocalNodeID ins = 0 then do {
             c \<leftarrow> crcAdd_ptr 0xFFFF payload (unat payload_len);
             Some (anonymous_can_id priority (c AND 0x7FFE) data_type_id (canardGetLocalNodeID ins), 0xFFFF)
           } else do {
             crc \<leftarrow> (if payload_len > 7
                    then crcAdd_ptr (crcAddSignature 0xFFFF data_type_signature) payload (unat payload_len)
                    else Some 0xFFFF);
             Some (message_can_id priority data_type_id (canardGetLocalNodeID ins), crc)
           });
        (result, ins) \<leftarrow> enqueueTxFrames ins can_id inout_transfer_id crc payload payload_len;
        tid \<leftarrow> incrementTransferID inout_transfer_id;
        Some (result, Some tid, ins)
      })"

definition canardRequestOrRespond ::
  "CanardInstance \<Rightarrow> u8 \<Rightarrow> u64 \<Rightarrow> u8 \<Rightarrow> u8 option \<Rightarrow> u8 \<Rightarrow> CanardRequestResponse \<Rightarrow> u8 list option \<Rightarrow>
     u16 \<Rightarrow> (int \<times> u8 option \<times> CanardInstance) option" where
  "canardRequestOrRespond ins destination_node_id data_type_signature data_type_id inout_transfer_id
       priority kind payload payload_len =
     (if payload = None \<and> payload_len > 0 then
        Some (- CANARD_ERROR_INVALID_ARGUMENT, inout_transfer_id, ins)
      else if priority > CANARD_TRANSFER_PRIORITY_LOWEST then
        Some (- CANARD_ERROR_INVALID_ARGUMENT, inout_transfer_id, ins)
      else if canardGetLocalNodeID ins = 0 then
        Some (- CANARD_ERROR_NODE_ID_NOT_SET, inout_transfer_id, ins)
      else do {
        let can_id = service_can_id priority data_type_id kind destination_node_id
                       (canardGetLocalNodeID ins);
        crc \<leftarrow> (if payload_len > 7
               then crcAdd_ptr (crcAddSignature 0xFFFF data_type_signature) payload (unat payload_len)
               else Some 0xFFFF);
        (result, ins) \<leftarrow> enqueueTxFrames ins can_id inout_transfer_id crc payload payload_len;
        tid \<leftarrow> (if kind = CanardRequest then map_option Some (incrementTransferID inout_transfer_id)
               else Some inout_transfer_id);
        Some (result, tid, ins)
      })"

section \<open>The queue as a list of frames\<close>

text \<open>The abstract queue: a new item goes before the first one of lower priority.\<close>

fun tx_insert :: "addr \<times> CanardCANFrame \<Rightarrow> (addr \<times> CanardCANFrame) list \<Rightarrow>
    (addr \<times> CanardCANFrame) list" where
  "tx_insert x [] = [x]"
| "tx_insert x (y # ys) =
     (if isPriorityHigher (frame_id (snd y)) (frame_id (snd x)) then x # y # ys
      else y # tx_insert x ys)"

lemma set_tx_insert [simp]: "set (tx_insert x ys) = insert x (set ys)"
  by (induction ys) auto

lemma set_addrs_tx_insert [simp]: "set (addrs (tx_insert x ys)) = insert (fst x) (set (addrs ys))"
  by (auto simp: addrs_def)

lemma length_tx_insert [simp]: "length (tx_insert x ys) = Suc (length ys)"
  by (induction ys) auto

lemma distinct_tx_insert [simp]:
  "distinct (addrs (tx_insert x ys)) \<longleftrightarrow> distinct (addrs ys) \<and> fst x \<notin> set (addrs ys)"
  by (induction ys) (auto simp: addrs_def)

lemma tx_insert_skip:
  "(\<And>y. y \<in> set ys \<Longrightarrow> \<not> isPriorityHigher (frame_id (snd y)) (frame_id (snd x))) \<Longrightarrow>
     tx_insert x (ys @ zs) = ys @ tx_insert x zs"
  by (induction ys) auto

text \<open>What an operation on queue items may change: the head pointer and the given blocks.\<close>

definition tx_frame_rule :: "CanardInstance \<Rightarrow> addr set \<Rightarrow> CanardInstance \<Rightarrow> bool" where
  "tx_frame_rule ins A ins' \<longleftrightarrow>
     ins' = ins\<lparr>tx_queue := tx_queue ins',
                allocator := (allocator ins)\<lparr>arena := arena (allocator ins')\<rparr>\<rparr> \<and>
     (\<forall>c. c \<notin> A \<longrightarrow> arena (allocator ins') c = arena (allocator ins) c) \<and>
     dom (arena (allocator ins')) = dom (arena (allocator ins))"

lemma tx_frame_rule_refl [simp]: "tx_frame_rule ins A (ins\<lparr>tx_queue := q\<rparr>)"
  by (simp add: tx_frame_rule_def)

lemma tx_frame_rule_trans:
  "tx_frame_rule a A b \<Longrightarrow> tx_frame_rule b A c \<Longrightarrow> tx_frame_rule a A c"
  unfolding tx_frame_rule_def
  by (metis (no_types, lifting) CanardInstance.surjective CanardInstance.update_convs(2,4)
      CanardPoolAllocator.surjective CanardPoolAllocator.update_convs(3))

lemma set_tx_next_Some:
  assumes "tx_view (arena (allocator ins)) a = Some (q0, f)" and "a \<in> A"
  shows "\<exists>ins'. set_tx_next ins a q = Some ins' \<and>
    arena (allocator ins') = (arena (allocator ins))(a \<mapsto> TxBlock \<lparr>tx_next = q, tx_frame = f\<rparr>) \<and>
    tx_queue ins' = tx_queue ins \<and> tx_frame_rule ins A ins'"
proof -
  have g: "get_tx (allocator ins) a = Some \<lparr>tx_next = q0, tx_frame = f\<rparr>"
    using assms by (simp add: tx_view_get)
  then have d: "a \<in> dom (arena (allocator ins))"
    by (auto simp: get_Some_arena)
  show ?thesis
    using g d assms(2) by (auto simp: set_tx_next_def tx_frame_rule_def put_block_def)
qed

lemma tx_view_upd_eq:
  "tx_view (m(a \<mapsto> TxBlock x)) c = (if c = a then Some (tx_next x, tx_frame x) else tx_view m c)"
  by simp

lemma pushTx_loop_correct:
  assumes "segment (tx_view (arena (allocator ins))) (tx_queue ins) ys queue"
    and "chain (tx_view (arena (allocator ins))) queue zs" and "zs \<noteq> []"
    and "arena (allocator ins) item = Some (TxBlock \<lparr>tx_next = None, tx_frame = f\<rparr>)"
    and "item \<notin> set (addrs (ys @ zs))"
    and "ys \<noteq> [] \<Longrightarrow> previous = Some (fst (last ys))"
    and "\<And>y. y \<in> set ys \<Longrightarrow> \<not> isPriorityHigher (frame_id (snd y)) (frame_id f)"
  shows "\<exists>ins'. pushTx_loop item queue previous ins = Some ins' \<and>
    chain (tx_view (arena (allocator ins'))) (tx_queue ins') (tx_insert (item, f) (ys @ zs)) \<and>
    tx_frame_rule ins (insert item (set (addrs (ys @ zs)))) ins'"
  using assms
proof (induction zs arbitrary: ys queue previous)
  case Nil
  then show ?case by simp
next
  case (Cons z zs)
  let ?m = "arena (allocator ins)"
  obtain q fz where z: "z = (q, fz)" by (cases z)
  from Cons.prems(2) z obtain nz where queue: "queue = Some q" and vz: "tx_view ?m q = Some (nz, fz)"
    and tail: "chain (tx_view ?m) nz zs"
    by auto
  have vitem: "tx_view ?m item = Some (None, f)"
    using Cons.prems(4) by (simp add: tx_view_def)
  have all: "chain (tx_view ?m) (tx_queue ins) (ys @ z # zs)"
    using Cons.prems(1,2) by (auto simp: segment_append)
  then have dist: "distinct (addrs (ys @ z # zs))" by (rule chain_distinct)
  have gets: "get_tx (allocator ins) q = Some \<lparr>tx_next = nz, tx_frame = fz\<rparr>"
    "get_tx (allocator ins) item = Some \<lparr>tx_next = None, tx_frame = f\<rparr>"
    using vz vitem by (simp_all add: tx_view_get)
  have item: "item \<noteq> q" "item \<notin> set (addrs ys)" "item \<notin> set (addrs zs)"
    using Cons.prems(5) z by auto
  have q: "q \<notin> set (addrs ys)" "q \<notin> set (addrs zs)"
    using dist z by auto
  have skip: "tx_insert (item, f) (ys @ ws) = ys @ tx_insert (item, f) ws" for ws
    using Cons.prems(7) by (intro tx_insert_skip) auto
  let ?A = "insert item (set (addrs (ys @ z # zs)))"
  show ?case
  proof (cases "isPriorityHigher (frame_id fz) (frame_id f)")
    case True
    show ?thesis
    proof (cases "ys = []")
      case ys: True
      then have head: "tx_queue ins = Some q" using Cons.prems(1) queue by simp
      obtain i1 where i1: "set_tx_next ins item queue = Some i1"
          "arena (allocator i1) = ?m(item \<mapsto> TxBlock \<lparr>tx_next = queue, tx_frame = f\<rparr>)"
          "tx_queue i1 = tx_queue ins" "tx_frame_rule ins ?A i1"
        using set_tx_next_Some [OF vitem, of ?A queue] by auto
      have "pushTx_loop item queue previous ins = Some (i1\<lparr>tx_queue := Some item\<rparr>)"
        using True gets head i1(1) by (simp add: pushTx_loop.simps [of item "Some q"] queue)
      moreover have "chain (tx_view (arena (allocator i1))) (Some item) ((item, f) # z # zs)"
        using vz tail item z queue by (simp add: i1(2))
      moreover have "tx_frame_rule ins ?A (i1\<lparr>tx_queue := Some item\<rparr>)"
        using i1(4) tx_frame_rule_refl by (rule tx_frame_rule_trans)
      ultimately show ?thesis using True z ys by simp
    next
      case ys: False
      then obtain ys0 p fp where yss: "ys = ys0 @ [(p, fp)]"
        by (metis append_butlast_last_id surj_pair)
      then have prev: "previous = Some p" using Cons.prems(6) by simp
      from Cons.prems(1) yss queue have segp: "segment (tx_view ?m) (tx_queue ins) ys0 (Some p)"
        "tx_view ?m p = Some (Some q, fp)"
        by (auto simp: segment_append)
      have p: "p \<noteq> item" "p \<noteq> q" "p \<notin> set (addrs ys0)" "p \<notin> set (addrs zs)"
        using dist item(2) yss z by auto
      have head: "tx_queue ins \<noteq> queue"
        using Cons.prems(1) ys q(1) queue by (cases ys) auto
      obtain i1 where i1: "set_tx_next ins p (Some item) = Some i1"
          "arena (allocator i1) = ?m(p \<mapsto> TxBlock \<lparr>tx_next = Some item, tx_frame = fp\<rparr>)"
          "tx_queue i1 = tx_queue ins" "tx_frame_rule ins ?A i1"
        using set_tx_next_Some [OF segp(2), of ?A "Some item"] yss by auto
      have vitem1: "tx_view (arena (allocator i1)) item = Some (None, f)"
        using vitem p by (simp add: i1(2))
      obtain i2 where i2: "set_tx_next i1 item queue = Some i2"
          "arena (allocator i2) = (arena (allocator i1))(item \<mapsto> TxBlock \<lparr>tx_next = queue, tx_frame = f\<rparr>)"
          "tx_queue i2 = tx_queue i1" "tx_frame_rule i1 ?A i2"
        using set_tx_next_Some [OF vitem1, of ?A queue] by auto
      have "pushTx_loop item queue previous ins = Some i2"
        using True gets head prev i1(1) i2(1)
        by (simp add: pushTx_loop.simps [of item "Some q"] queue)
      moreover have "chain (tx_view (arena (allocator i2))) (tx_queue i2) (ys @ (item, f) # z # zs)"
        using segp vz tail item p q z queue yss
        by (simp add: i2(2,3) i1(2,3) segment_append)
      moreover have "tx_frame_rule ins ?A i2"
        using i1(4) i2(4) by (rule tx_frame_rule_trans)
      ultimately show ?thesis using True z skip [of "z # zs"] by simp
    qed
  next
    case False
    show ?thesis
    proof (cases "nz = None")
      case True
      with tail have zs: "zs = []" by simp
      obtain i1 where i1: "set_tx_next ins q (Some item) = Some i1"
          "arena (allocator i1) = ?m(q \<mapsto> TxBlock \<lparr>tx_next = Some item, tx_frame = fz\<rparr>)"
          "tx_queue i1 = tx_queue ins" "tx_frame_rule ins ?A i1"
        using set_tx_next_Some [OF vz, of ?A "Some item"] z by auto
      have "pushTx_loop item queue previous ins = Some i1"
        using False gets True i1(1) by (simp add: pushTx_loop.simps [of item "Some q"] queue)
      moreover have "chain (tx_view (arena (allocator i1))) (tx_queue i1) (ys @ [z, (item, f)])"
        using Cons.prems(1) vitem item q z queue by (simp add: i1(2,3) segment_append)
      ultimately show ?thesis using False z zs i1(4) skip [of "z # zs"] by simp
    next
      case nz: False
      then have "zs \<noteq> []" using tail by auto
      moreover have "segment (tx_view ?m) (tx_queue ins) (ys @ [z]) nz"
        using Cons.prems(1) vz z queue by (auto simp: segment_append)
      moreover have "\<not> isPriorityHigher (frame_id (snd y)) (frame_id f)" if "y \<in> set (ys @ [z])" for y
        using that Cons.prems(7) [of y] False z by auto
      ultimately obtain i1 where "pushTx_loop item nz queue ins = Some i1"
          "chain (tx_view (arena (allocator i1))) (tx_queue i1) (tx_insert (item, f) ((ys @ [z]) @ zs))"
          "tx_frame_rule ins (insert item (set (addrs ((ys @ [z]) @ zs)))) i1"
        using Cons.IH [of "ys @ [z]" nz queue] tail Cons.prems(4,5) queue z by auto
      moreover have "pushTx_loop item queue previous ins = pushTx_loop item nz queue ins"
        using False gets nz by (cases nz) (simp_all add: pushTx_loop.simps [of item "Some q"] queue)
      ultimately show ?thesis by simp
    qed
  qed
qed

lemma pushTxQueue_correct:
  assumes "chain (tx_view (arena (allocator ins))) (tx_queue ins) xs"
    and "arena (allocator ins) item = Some (TxBlock \<lparr>tx_next = None, tx_frame = f\<rparr>)"
    and "item \<notin> set (addrs xs)" and "frame_data_len f > 0"
  shows "\<exists>ins'. pushTxQueue ins item = Some ins' \<and>
    chain (tx_view (arena (allocator ins'))) (tx_queue ins') (tx_insert (item, f) xs) \<and>
    tx_frame_rule ins (insert item (set (addrs xs))) ins'"
proof -
  have g: "get_tx (allocator ins) item = Some \<lparr>tx_next = None, tx_frame = f\<rparr>"
    using assms(2) by (simp add: get_Some_arena)
  show ?thesis
  proof (cases "xs = []")
    case True
    then have "tx_queue ins = None" using assms(1) by simp
    with True g assms(2,4) show ?thesis
      by (simp add: pushTxQueue_def tx_view_def)
  next
    case False
    with assms(1) obtain q where "tx_queue ins = Some q" by (cases xs) auto
    with False g assms pushTx_loop_correct [of ins "[]" "tx_queue ins" xs item f "tx_queue ins"]
    show ?thesis by (simp add: pushTxQueue_def)
  qed
qed

section \<open>Pushing on an instance\<close>

text \<open>
  A block that is in use but in no list yet: the state between \<open>createTxItem\<close> and \<open>pushTxQueue\<close>.
\<close>

lemma createTxItem_inv:
  assumes "canard_inv ins L h" and "lay_free L = a # fs"
  shows "\<exists>al. createTxItem (allocator ins) = Some (Some a, al) \<and>
    arena al = (arena (allocator ins))(a \<mapsto> TxBlock \<lparr>tx_next = None, tx_frame = zero_frame\<rparr>) \<and>
    a \<notin> set (used_blocks L) \<and> pool_inv al fs (insert a (set (used_blocks L)))"
proof -
  have "pool_inv (allocator ins) (a # fs) (set (used_blocks L))"
    using canard_inv_pool [OF assms(1)] assms(2) by simp
  from pool.new_object [OF this] show ?thesis
    by (auto simp: createTxItem_def)
qed

lemma createTxItem_none:
  assumes "canard_inv ins L h" and "lay_free L = []"
  shows "createTxItem (allocator ins) = Some (None, allocator ins)"
  using pool.alloc_empty [of "allocator ins"] canard_inv_pool [OF assms(1)] assms(2)
  by (simp add: createTxItem_def)

lemma pool_inv_arena:
  "pool_inv al fs U \<Longrightarrow> dom m = dom (arena al) \<Longrightarrow> (\<And>a. a \<in> set fs \<Longrightarrow> m a = arena al a) \<Longrightarrow>
     pool_inv (al\<lparr>arena := m\<rparr>) fs U"
  using free_agree [of "unit_list fs" m "arena al"] by (simp add: pool_inv_def)

lemma canard_inv_others:
  assumes "canard_inv ins L h"
    and "\<And>c. c \<in> set (concat (map rx_addrs (lay_rx L))) \<union> set (addrs (lay_held L)) \<Longrightarrow>
      m c = arena (allocator ins) c"
  shows "chain (rx_view m) (rx_states ins) (map rx_head (lay_rx L)) \<and>
    (\<forall>e \<in> set (lay_rx L). chain (buf_view m) (rx_buffer_blocks (fst (snd e))) (snd (snd e))) \<and>
    chain (buf_view m) h (lay_held L)"
proof -
  let ?m = "arena (allocator ins)"
  have "chain (rx_view m) (rx_states ins) (map rx_head (lay_rx L)) =
      chain (rx_view ?m) (rx_states ins) (map rx_head (lay_rx L))"
    using assms(2) by (intro rx_agree) (force simp: rx_addrs_def)
  moreover have "chain (buf_view m) (rx_buffer_blocks (fst (snd e))) (snd (snd e)) =
      chain (buf_view ?m) (rx_buffer_blocks (fst (snd e))) (snd (snd e))" if "e \<in> set (lay_rx L)" for e
    using assms(2) that by (intro buf_agree) (force simp: rx_addrs_def)
  moreover have "chain (buf_view m) h (lay_held L) = chain (buf_view ?m) h (lay_held L)"
    using assms(2) by (intro buf_agree) auto
  ultimately show ?thesis
    using assms(1) by (simp add: canard_inv_def Let_def)
qed

lemma tx_frame_rule_fields:
  "tx_frame_rule ins A ins' \<Longrightarrow> node_id ins' = node_id ins \<and> rx_states ins' = rx_states ins \<and>
     user_reference ins' = user_reference ins \<and>
     allocator ins' = (allocator ins)\<lparr>arena := arena (allocator ins')\<rparr>"
  by (cases ins; cases ins') (auto simp: tx_frame_rule_def)

lemma enqueue_one:
  assumes inv: "canard_inv ins L h" and fs: "lay_free L = a # fs"
    and al: "createTxItem (allocator ins) = Some (Some a, al)"
    and f: "frame_data_len f > 0"
  shows "\<exists>i1 ins'. set_tx_frame (ins\<lparr>allocator := al\<rparr>) a f = Some i1 \<and>
    pushTxQueue i1 a = Some ins' \<and>
    canard_inv ins' (L\<lparr>lay_free := fs, lay_tx := tx_insert (a, f) (lay_tx L)\<rparr>) h \<and>
    node_id ins' = node_id ins \<and> rx_states ins' = rx_states ins \<and>
    user_reference ins' = user_reference ins"
proof -
  let ?m = "arena (allocator ins)" and ?U = "set (used_blocks L)"
  let ?al = "put_block al a (TxBlock \<lparr>tx_next = None, tx_frame = f\<rparr>)"
  obtain al': "arena al = ?m(a \<mapsto> TxBlock \<lparr>tx_next = None, tx_frame = zero_frame\<rparr>)"
    and a: "a \<notin> ?U" and p: "pool_inv al fs (insert a ?U)"
    using createTxItem_inv [OF inv fs] al by auto
  define i1 where "i1 = ins\<lparr>allocator := ?al\<rparr>"
  have set1: "set_tx_frame (ins\<lparr>allocator := al\<rparr>) a f = Some i1"
    using al' by (simp add: set_tx_frame_def i1_def get_tx_def)
  have m1: "arena (allocator i1) = ?m(a \<mapsto> TxBlock \<lparr>tx_next = None, tx_frame = f\<rparr>)"
    by (simp add: i1_def al')
  have p1: "pool_inv (allocator i1) fs (insert a ?U)"
    using p by (simp add: i1_def pool_inv_put)
  have txU: "set (addrs (lay_tx L)) \<subseteq> ?U"
    by (auto simp: used_blocks_def)
  have atx: "a \<notin> set (addrs (lay_tx L))" using a txU by auto
  have "tx_queue i1 = tx_queue ins" by (simp add: i1_def)
  with atx have "chain (tx_view (arena (allocator i1))) (tx_queue i1) (lay_tx L)"
    using inv by (simp add: m1 canard_inv_def Let_def)
  moreover note atx
  ultimately obtain ins' where push: "pushTxQueue i1 a = Some ins'"
      "chain (tx_view (arena (allocator ins'))) (tx_queue ins') (tx_insert (a, f) (lay_tx L))"
      "tx_frame_rule i1 (insert a (set (addrs (lay_tx L)))) ins'"
    using pushTxQueue_correct [of i1 "lay_tx L" a f] f m1 by auto
  let ?m' = "arena (allocator ins')"
  let ?L' = "L\<lparr>lay_free := fs, lay_tx := tx_insert (a, f) (lay_tx L)\<rparr>"
  have same: "?m' c = ?m c" if "c \<noteq> a" "c \<notin> set (addrs (lay_tx L))" for c
    using push(3) that by (simp add: tx_frame_rule_def m1)
  have dist: "distinct (used_blocks L)"
    using inv by (simp add: canard_inv_def Let_def)
  have used': "set (used_blocks ?L') = insert a ?U" "distinct (used_blocks ?L')"
    using dist a by (auto simp: used_blocks_def)
  have fs': "set fs \<inter> insert a ?U = {}"
    using pool.separated [OF p1] by simp
  have rest: "?m' c = ?m c"
    if "c \<in> set (concat (map rx_addrs (lay_rx L))) \<union> set (addrs (lay_held L))" for c
    using that dist a by (intro same) (auto simp: used_blocks_def)
  have pool': "pool_inv (allocator ins') fs (insert a ?U)"
  proof -
    have "allocator ins' = (allocator i1)\<lparr>arena := ?m'\<rparr>"
      using tx_frame_rule_fields [OF push(3)] by simp
    moreover have "dom ?m' = dom (arena (allocator i1))"
      using push(3) by (simp add: tx_frame_rule_def)
    moreover have "?m' c = arena (allocator i1) c" if "c \<in> set fs" for c
      using that fs' txU push(3) by (auto simp: tx_frame_rule_def)
    ultimately show ?thesis
      using pool_inv_arena [OF p1, of ?m'] by simp
  qed
  have "canard_inv ins' ?L' h"
    using push(2) pool' used' tx_frame_rule_fields [OF push(3)] canard_inv_others [OF inv rest]
    by (simp add: canard_inv_def Let_def i1_def)
  moreover have "node_id ins' = node_id ins \<and> rx_states ins' = rx_states ins \<and>
      user_reference ins' = user_reference ins"
    using tx_frame_rule_fields [OF push(3)] by (simp add: i1_def)
  ultimately show ?thesis
    using set1 push(1) by blast
qed

section \<open>The frames of a transfer\<close>

text \<open>
  The reference: the transfer CRC, low byte first, and the payload are cut into pieces of seven
  bytes, and each piece is followed by its tail byte; unused bytes of a frame are zero.
\<close>

fun chunks7 :: "'a list \<Rightarrow> 'a list list" where
  "chunks7 [] = []"
| "chunks7 (x # xs) = take 7 (x # xs) # chunks7 (drop 7 (x # xs))"

definition tail_byte :: "bool \<Rightarrow> bool \<Rightarrow> bool \<Rightarrow> u8 \<Rightarrow> u8" where
  "tail_byte first final toggle tid =
     (if final then 0x40 else if first then 0x80 else 0) OR push_bit 5 (of_bool toggle) OR (tid AND 31)"

definition mk_frame :: "u32 \<Rightarrow> u8 list \<Rightarrow> u8 \<Rightarrow> CanardCANFrame" where
  "mk_frame can_id c t =
     \<lparr>frame_id = can_id OR CANARD_CAN_FRAME_EFF,
      frame_data = c @ [t] @ replicate (7 - length c) 0, frame_data_len = of_nat (length c + 1)\<rparr>"

fun mk_frames :: "u32 \<Rightarrow> u8 \<Rightarrow> bool \<Rightarrow> bool \<Rightarrow> u8 list list \<Rightarrow> CanardCANFrame list" where
  "mk_frames can_id tid first toggle [] = []"
| "mk_frames can_id tid first toggle (c # cs) =
     mk_frame can_id c (tail_byte first (cs = []) toggle tid) #
     mk_frames can_id tid False (\<not> toggle) cs"

definition transfer_frames :: "u32 \<Rightarrow> u8 \<Rightarrow> u16 \<Rightarrow> u8 list \<Rightarrow> CanardCANFrame list" where
  "transfer_frames can_id tid crc payload =
     (if length payload < CANARD_CAN_FRAME_MAX_DATA_LEN
      then [mk_frame can_id payload (0xC0 OR (tid AND 31))]
      else mk_frames can_id tid True False
             (chunks7 (ucast crc # ucast (drop_bit 8 crc) # payload)))"

definition tx_insert_all ::
  "(addr \<times> CanardCANFrame) list \<Rightarrow> (addr \<times> CanardCANFrame) list \<Rightarrow> (addr \<times> CanardCANFrame) list" where
  "tx_insert_all xs q = foldl (\<lambda>q x. tx_insert x q) q xs"

lemma tx_insert_all_simps [simp]:
  "tx_insert_all [] q = q" "tx_insert_all (x # xs) q = tx_insert_all xs (tx_insert x q)"
  by (simp_all add: tx_insert_all_def)

lemma chunks7_conv: "chunks7 xs = (if xs = [] then [] else take 7 xs # chunks7 (drop 7 xs))"
  by (cases xs) simp_all

lemma chunks7_eq_Nil [simp]: "chunks7 xs = [] \<longleftrightarrow> xs = []"
  by (subst chunks7_conv) simp

abbreviation padded :: "u8 list \<Rightarrow> u8 list" where
  "padded c \<equiv> c @ replicate (CANARD_CAN_FRAME_MAX_DATA_LEN - length c) 0"

lemma upd_padded: "length c \<le> 7 \<Longrightarrow> upd_opt (padded c) (length c) t = Some (c @ [t] @ replicate (7 - length c) 0)"
  by (cases "8 - length c") (auto simp: upd_opt_def list_update_append replicate_app_Cons_same)

lemma copy_to_frame_padded:
  assumes "length c \<le> 7" and "di \<le> n" and "n \<le> length bytes"
  shows "copy_to_frame bytes n (length c) di (padded c) =
    (let k = min (7 - length c) (n - di); c' = c @ take k (drop di bytes)
     in Some (length c', di + k, padded c'))"
  using assms
proof (induction "7 - length c" arbitrary: c di)
  case 0
  then show ?case by (subst copy_to_frame.simps) simp
next
  case (Suc j)
  show ?case
  proof (cases "di < n")
    case False
    with Suc.prems show ?thesis by (subst copy_to_frame.simps) simp
  next
    case True
    let ?c = "c @ [bytes ! di]"
    have c7: "length c < 7" using Suc.hyps(2) by simp
    have "8 - length c = Suc (7 - length c)" using Suc.hyps(2) by simp
    then have upd: "upd_opt (padded c) (length c) (bytes ! di) = Some (padded ?c)"
      using Suc.prems(1) upd_padded [of c "bytes ! di"] by simp
    have drop: "drop di bytes = bytes ! di # drop (Suc di) bytes"
      using True Suc.prems(3) by (intro Cons_nth_drop_Suc [symmetric]) simp
    have k: "min (7 - length c) (n - di) = Suc (min (7 - length ?c) (n - Suc di))"
      using True Suc.hyps(2) by simp
    have "copy_to_frame bytes n (length c) di (padded c) =
        copy_to_frame bytes n (length ?c) (Suc di) (padded ?c)"
      using True c7 Suc.prems upd by (subst copy_to_frame.simps) simp
    also have "\<dots> = (let k = min (7 - length ?c) (n - Suc di); c' = ?c @ take k (drop (Suc di) bytes)
        in Some (length c', Suc di + k, padded c'))"
      using True Suc.hyps(2) Suc.prems by (intro Suc.hyps(1)) auto
    finally show ?thesis
      unfolding k by (simp add: drop Let_def)
  qed
qed

lemma mk_frame_len: "length c \<le> 7 \<Longrightarrow> frame_data_len (mk_frame can_id c t) > 0"
  by (simp add: mk_frame_def word_less_nat_alt unat_of_nat flip: of_nat_Suc del: of_nat_Suc)

text \<open>What enqueueing a list of frames does to a layout: each takes the next free block.\<close>

definition lay_enqueue :: "CanardCANFrame list \<Rightarrow> layout \<Rightarrow> layout" where
  "lay_enqueue fs L = L\<lparr>lay_free := drop (length fs) (lay_free L),
     lay_tx := tx_insert_all (zip (lay_free L) fs) (lay_tx L)\<rparr>"

lemma lay_enqueue_Nil [simp]: "lay_enqueue [] L = L"
  by (simp add: lay_enqueue_def)

lemma lay_enqueue_no_room [simp]: "lay_free L = [] \<Longrightarrow> lay_enqueue fs L = L"
  by (simp add: lay_enqueue_def)

lemma lay_enqueue_Cons:
  "lay_free L = a # as \<Longrightarrow> lay_enqueue (f # fs) L =
     lay_enqueue fs (L\<lparr>lay_free := as, lay_tx := tx_insert (a, f) (lay_tx L)\<rparr>)"
  by (simp add: lay_enqueue_def)

text \<open>What is still to be sent when \<open>di\<close> bytes of the payload are in frames.\<close>

definition pending :: "u16 \<Rightarrow> u8 list \<Rightarrow> nat \<Rightarrow> u8 list" where
  "pending crc payload di =
     (if di = 0 then [ucast crc, ucast (drop_bit 8 crc)] else []) @ drop di payload"

lemma pending_step:
  assumes "di < n" and "n \<le> length bytes"
    and "k = (if di = 0 then min 5 n else min 7 (n - di))"
  shows "take 7 (pending crc (take n bytes) di) =
      (if di = 0 then [ucast crc, ucast (drop_bit 8 crc)] else []) @ take k (drop di bytes)"
    and "drop 7 (pending crc (take n bytes) di) =
      (if di + k < n then pending crc (take n bytes) (di + k) else [])"
    and "0 < k" and "di + k \<le> n"
  using assms by (auto simp: pending_def min_def take_drop numeral_eq_Suc)

definition rest_frames :: "u32 \<Rightarrow> u8 \<Rightarrow> u16 \<Rightarrow> u8 list \<Rightarrow> nat \<Rightarrow> bool \<Rightarrow> CanardCANFrame list" where
  "rest_frames can_id tid crc payload di toggle =
     mk_frames can_id tid (di = 0) toggle
       (if di < length payload then chunks7 (pending crc payload di) else [])"

lemma rest_frames_step:
  assumes "di < n" and "n \<le> length bytes"
    and k: "k = (if di = 0 then min 5 n else min 7 (n - di))"
  shows "rest_frames can_id tid crc (take n bytes) di toggle =
    mk_frame can_id
      ((if di = 0 then [ucast crc, ucast (drop_bit 8 crc)] else []) @ take k (drop di bytes))
      (tail_byte (di = 0) (di + k = n) toggle tid) #
    rest_frames can_id tid crc (take n bytes) (di + k) (\<not> toggle)"
proof -
  note step = pending_step(1,2) [OF assms, of crc] pending_step(3,4) [OF assms]
  have ne: "pending crc (take n bytes) di \<noteq> []"
    using assms(1,2) by (simp add: pending_def)
  have len: "length (take n bytes) = n" using assms(2) by simp
  have "chunks7 (pending crc (take n bytes) di) =
      take 7 (pending crc (take n bytes) di) # chunks7 (drop 7 (pending crc (take n bytes) di))"
    using ne by (subst chunks7_conv) simp
  moreover have "pending crc (take n bytes) (di + k) \<noteq> []" if "di + k < n"
    using that assms(2) by (simp add: pending_def)
  ultimately show ?thesis
    unfolding rest_frames_def len using assms(1) step by auto
qed

lemma enqueue_multi_iter:
  assumes "di < n" and "createTxItem (allocator ins) = Some (Some a, al)" and "get_tx al a = Some x"
    and "(if di = 0 then do {
            d \<leftarrow> upd_opt (frame_data (tx_frame x)) 0 (ucast crc);
            d \<leftarrow> upd_opt d 1 (ucast (drop_bit 8 crc));
            Some (2, d)
          } else Some (0, frame_data (tx_frame x))) = Some (i0, d0)"
    and "copy_to_frame bytes n i0 di d0 = Some (i, di', d1)"
    and "upd_opt d1 i ((if di' = n then 0x40 else sot_eot) OR push_bit 5 toggle OR (tid AND 31)) = Some d2"
    and "set_tx_frame (ins\<lparr>allocator := al\<rparr>) a \<lparr>frame_id = can_id OR CANARD_CAN_FRAME_EFF,
           frame_data = d2, frame_data_len = of_nat (i + 1)\<rparr> = Some i1"
    and "pushTxQueue i1 a = Some ins1"
  shows "enqueue_multi ins can_id tid crc bytes n di toggle sot_eot r =
    enqueue_multi ins1 can_id tid crc bytes n di' (toggle XOR 1) 0 (r + 1)"
  using assms by (subst enqueue_multi.simps) (simp split del: if_split)

lemma enqueue_multi_correct:
  assumes "canard_inv ins L h" and "n \<le> length bytes" and "di \<le> n" and "0 < n"
  shows "\<exists>ins'. enqueue_multi ins can_id tid crc bytes n di (of_bool toggle)
      (if di = 0 then 0x80 else 0) r =
      Some (if length (rest_frames can_id tid crc (take n bytes) di toggle) \<le> length (lay_free L)
            then r + int (length (rest_frames can_id tid crc (take n bytes) di toggle))
            else - CANARD_ERROR_OUT_OF_MEMORY, ins') \<and>
    canard_inv ins' (lay_enqueue (rest_frames can_id tid crc (take n bytes) di toggle) L) h \<and>
    same_node ins ins'"
  using assms(1,3)
proof (induction "n - di" arbitrary: ins L di toggle r rule: less_induct)
  case less
  show ?case
  proof (cases "di < n")
    case False
    with less.prems assms(2,4) show ?thesis
      by (subst enqueue_multi.simps) (simp add: rest_frames_def)
  next
    case lt: True
    define k where "k = (if di = 0 then min 5 n else min 7 (n - di))"
    define pre where "pre = (if di = 0 then [ucast crc, ucast (drop_bit 8 crc)] else [] :: u8 list)"
    define c where "c = pre @ take k (drop di bytes)"
    define t where "t = tail_byte (di = 0) (di + k = n) toggle tid"
    note step = pending_step(3,4) [OF lt assms(2) k_def]
    note rest = rest_frames_step [OF lt assms(2) k_def, of can_id tid crc toggle, folded pre_def,
        folded c_def, folded t_def]
    show ?thesis
    proof (cases "lay_free L")
      case Nil
      with createTxItem_none [OF less.prems(1)] less.prems lt show ?thesis
        by (subst enqueue_multi.simps) (simp add: rest)
    next
      case (Cons a as)
      obtain al where al: "createTxItem (allocator ins) = Some (Some a, al)"
          "arena al = (arena (allocator ins))(a \<mapsto> TxBlock \<lparr>tx_next = None, tx_frame = zero_frame\<rparr>)"
        using createTxItem_inv [OF less.prems(1) Cons] by auto
      let ?x = "\<lparr>tx_next = None :: ptr, tx_frame = zero_frame\<rparr>"
      have gx: "get_tx al a = Some \<lparr>tx_next = None, tx_frame = zero_frame\<rparr>"
        using al(2) by (simp add: get_tx_def)
      have lc: "length pre \<le> 7" "length c \<le> 7"
        using assms(2) lt by (auto simp: pre_def c_def k_def)
      have kmin: "min (7 - length pre) (n - di) = k"
        by (simp add: pre_def k_def)
      have start: "(if di = 0 then do {
                  d \<leftarrow> upd_opt (frame_data (tx_frame ?x)) 0 (ucast crc);
                  d \<leftarrow> upd_opt d 1 (ucast (drop_bit 8 crc));
                  Some (2, d)
                } else Some (0, frame_data (tx_frame ?x))) = Some (length pre, padded pre)"
        by (simp add: pre_def zero_frame_def numeral_eq_Suc)
      have copy: "copy_to_frame bytes n (length pre) di (padded pre) = Some (length c, di + k, padded c)"
        using copy_to_frame_padded [OF lc(1) _ assms(2), of di] lt assms(2) kmin
        by (simp add: Let_def c_def)
      have tail: "(if di + k = n then 0x40 else (if di = 0 then 0x80 else 0)) OR
          push_bit 5 (of_bool toggle) OR (tid AND 31) = t"
        by (simp add: t_def tail_byte_def)
      let ?f = "mk_frame can_id c t"
      obtain i1 ins1 where one: "set_tx_frame (ins\<lparr>allocator := al\<rparr>) a ?f = Some i1"
          "pushTxQueue i1 a = Some ins1"
          "canard_inv ins1 (L\<lparr>lay_free := as, lay_tx := tx_insert (a, ?f) (lay_tx L)\<rparr>) h"
          "same_node ins ins1"
        using enqueue_one [OF less.prems(1) Cons al(1) mk_frame_len [OF lc(2)]] by blast
      have tog: "of_bool toggle XOR 1 = (of_bool (\<not> toggle) :: u8)"
        by simp
      have sot: "(if di + k = 0 then 0x80 else 0) = (0 :: u8)"
        using step(1) by simp
      have "enqueue_multi ins can_id tid crc bytes n di (of_bool toggle)
          (if di = 0 then 0x80 else 0) r =
          enqueue_multi ins1 can_id tid crc bytes n (di + k) (of_bool toggle XOR 1) 0 (r + 1)"
        by (rule enqueue_multi_iter [OF lt al(1) gx, where ?i1.0 = i1,
              OF start copy upd_padded [OF lc(2), of t, folded tail]])
           (use one(1,2) in \<open>simp_all add: mk_frame_def tail\<close>)
      then have unfold: "enqueue_multi ins can_id tid crc bytes n di (of_bool toggle)
          (if di = 0 then 0x80 else 0) r =
          enqueue_multi ins1 can_id tid crc bytes n (di + k) (of_bool (\<not> toggle))
          (if di + k = 0 then 0x80 else 0) (r + 1)"
        unfolding sot tog .
      have less': "n - (di + k) < n - di" using lt step(1) by simp
      show ?thesis
        using less.hyps [OF less' one(3) step(2), of "\<not> toggle" "r + 1"] one(4) Cons
        unfolding unfold rest by (auto simp: lay_enqueue_Cons)
    qed
  qed
qed

section \<open>Enqueueing a transfer\<close>

abbreviation payload_bytes :: "u8 list option \<Rightarrow> u8 list" where
  "payload_bytes payload \<equiv> (case payload of None \<Rightarrow> [] | Some bs \<Rightarrow> bs)"

text \<open>The return value when \<open>fs\<close> has to be enqueued and \<open>room\<close> blocks are free.\<close>

abbreviation enqueue_result :: "CanardCANFrame list \<Rightarrow> nat \<Rightarrow> int" where
  "enqueue_result fs room \<equiv>
     (if length fs \<le> room then int (length fs) else - CANARD_ERROR_OUT_OF_MEMORY)"

lemma rest_frames_start:
  "8 \<le> length payload \<Longrightarrow> rest_frames can_id tid crc payload 0 False =
     transfer_frames can_id tid crc payload"
  by (auto simp: rest_frames_def transfer_frames_def pending_def)

lemma enqueue_single:
  assumes "canard_inv ins L h" and "unat n < 8" and "unat n \<le> length bytes"
    and "can_id AND CANARD_CAN_EXT_ID_MASK = can_id"
    and "payload = Some bytes \<or> payload = None \<and> bytes = []"
    and fs: "fs = [mk_frame can_id (take (unat n) bytes) (0xC0 OR (tid AND 31))]"
  shows "\<exists>ins'. enqueueTxFrames ins can_id (Some tid) crc payload n =
      Some (enqueue_result fs (length (lay_free L)), ins') \<and>
    canard_inv ins' (lay_enqueue fs L) h \<and> same_node ins ins'"
proof -
  let ?c = "take (unat n) bytes" and ?t = "0xC0 OR (tid AND 31)"
  have pb: "payload_bytes payload = bytes" and no_err: "\<not> (n > 0 \<and> payload = None)"
    using assms(3,5) by (auto simp: word_less_nat_alt)
  have lc: "length ?c = unat n" using assms(3) by simp
  have n8: "n < 8" using assms(2) by (simp add: word_less_nat_alt)
  show ?thesis
  proof (cases "lay_free L")
    case Nil
    with createTxItem_none [OF assms(1)] assms(1,2,4) pb no_err show ?thesis
      by (simp add: enqueueTxFrames_def fs Let_def)
  next
    case (Cons a as)
    obtain al where al: "createTxItem (allocator ins) = Some (Some a, al)"
        "arena al = (arena (allocator ins))(a \<mapsto> TxBlock \<lparr>tx_next = None, tx_frame = zero_frame\<rparr>)"
      using createTxItem_inv [OF assms(1) Cons] by auto
    have gx: "get_tx al a = Some \<lparr>tx_next = None, tx_frame = zero_frame\<rparr>"
      using al(2) by (simp add: get_tx_def)
    have cp: "memcpy (frame_data zero_frame) bytes (unat n) = Some (padded ?c)"
      using assms(2,3) lc by (simp add: memcpy_def zero_frame_def)
    have up: "upd_opt (padded ?c) (unat n) ?t = Some (?c @ [?t] @ replicate (7 - unat n) 0)"
      using upd_padded [of ?c ?t] lc assms(2) by simp
    have f: "mk_frame can_id ?c ?t = \<lparr>frame_id = can_id OR CANARD_CAN_FRAME_EFF,
        frame_data = ?c @ [?t] @ replicate (7 - unat n) 0, frame_data_len = of_nat (unat n + 1)\<rparr>"
      by (simp only: mk_frame_def lc)
    have l7: "length ?c \<le> 7" using lc assms(2) by simp
    obtain i1 ins1 where one: "set_tx_frame (ins\<lparr>allocator := al\<rparr>) a (mk_frame can_id ?c ?t) = Some i1"
        "pushTxQueue i1 a = Some ins1"
        "canard_inv ins1 (L\<lparr>lay_free := as, lay_tx := tx_insert (a, mk_frame can_id ?c ?t) (lay_tx L)\<rparr>) h"
        "same_node ins ins1"
      using enqueue_one [OF assms(1) Cons al(1) mk_frame_len [OF l7]] by blast
    have "enqueueTxFrames ins can_id (Some tid) crc payload n = Some (1, ins1)"
      using al(1) gx cp up one(1,2) assms(2,4) no_err pb
      unfolding enqueueTxFrames_def f by (simp add: Let_def)
    with one(3,4) Cons show ?thesis
      by (simp add: fs lay_enqueue_Cons)
  qed
qed

lemma enqueueTxFrames_correct:
  assumes "canard_inv ins L h" and "unat n \<le> length (payload_bytes payload)"
    and "can_id AND CANARD_CAN_EXT_ID_MASK = can_id"
    and fs: "fs = transfer_frames can_id tid crc (take (unat n) (payload_bytes payload))"
  shows "\<exists>ins'. enqueueTxFrames ins can_id (Some tid) crc payload n =
      Some (enqueue_result fs (length (lay_free L)), ins') \<and>
    canard_inv ins' (lay_enqueue fs L) h \<and> same_node ins ins'"
proof (cases "unat n < 8")
  case True
  show ?thesis
    using True assms
    by (intro enqueue_single [where bytes = "payload_bytes payload"])
       (auto simp: transfer_frames_def split: option.splits)
next
  case False
  then obtain bytes where bytes: "payload = Some bytes" "unat n \<le> length bytes"
    using assms(2) by (cases payload) auto
  have fs': "fs = rest_frames can_id tid crc (take (unat n) bytes) 0 False"
    using rest_frames_start [of "take (unat n) bytes" can_id tid crc] False bytes fs by simp
  have "enqueueTxFrames ins can_id (Some tid) crc payload n =
      enqueue_multi ins can_id tid crc bytes (unat n) 0 0 0x80 0"
    using False bytes assms(3) by (simp add: enqueueTxFrames_def Let_def)
  with enqueue_multi_correct [OF assms(1) bytes(2), of 0 can_id tid crc False 0] False
  show ?thesis by (auto simp: fs' split: if_splits)
qed

end
