(* ===== verification/Canard_Publish.thy ===== *)
theory Canard_Publish
  imports Canard_Tx "HOL-Library.Multiset"
begin

text \<open>
  What publishing, peeking and popping do (\<open>canard.c\<close>: \<open>canardBroadcast\<close>,
  \<open>canardRequestOrRespond\<close>, \<open>canardPeekTxQueue\<close>, \<open>canardPopTxQueue\<close>), stated on layouts: the queue
  is a list of frames, and a transfer is the list \<open>transfer_frames\<close>.
\<close>

section \<open>Identifiers fit 29 bits\<close>

lemma ext_mask_id: "(\<And>n. bit x n \<Longrightarrow> n < 29) \<Longrightarrow> x AND CANARD_CAN_EXT_ID_MASK = (x :: u32)"
  by (intro bit_word_eqI) (auto simp: bit_and_iff simp del: bit_numeral_word_iff)

lemma can_ids_fit:
  assumes "unat priority < 32"
  shows "message_can_id priority dtid node AND CANARD_CAN_EXT_ID_MASK = message_can_id priority dtid node"
    and "service_can_id priority sid kind dest node AND CANARD_CAN_EXT_ID_MASK =
      service_can_id priority sid kind dest node"
    and "anonymous_can_id priority (d AND 0x7FFE) dtid node AND CANARD_CAN_EXT_ID_MASK =
      anonymous_can_id priority (d AND 0x7FFE) dtid node"
proof -
  have p: "bit priority n \<Longrightarrow> n < 5" and l8: "bit (x :: u8) n \<Longrightarrow> n < 8"
    and l16: "bit (y :: u16) n \<Longrightarrow> n < 16" for n x y
    using u8_high_bits [of priority 5] assms by (auto dest: bit_imp_le_length)
  have d: "bit (d AND 0x7FFE) n \<Longrightarrow> n < 15" for n
  proof -
    have "d AND 0x7FFE AND 0x7FFF = d AND 0x7FFE" by (simp add: and.assoc)
    moreover have "bit (0x7FFF :: u16) n \<longleftrightarrow> n < 15"
      by (rule bit_mask_num_iff) (simp_all add: mask_eq_exp_minus_1)
    ultimately show "bit (d AND 0x7FFE) n \<Longrightarrow> n < 15"
      by (metis bit_and_iff)
  qed
  show "message_can_id priority dtid node AND CANARD_CAN_EXT_ID_MASK = message_can_id priority dtid node"
    by (rule ext_mask_id)
       (auto simp: message_can_id_def bit_words simp del: bit_numeral_word_iff dest: p l8 l16)
  show "service_can_id priority sid kind dest node AND CANARD_CAN_EXT_ID_MASK =
      service_can_id priority sid kind dest node"
    by (rule ext_mask_id)
       (auto simp: service_can_id_def bit_words simp del: bit_numeral_word_iff dest: p l8)
  show "anonymous_can_id priority (d AND 0x7FFE) dtid node AND CANARD_CAN_EXT_ID_MASK =
      anonymous_can_id priority (d AND 0x7FFE) dtid node"
    using d l8 p l16
    by (intro ext_mask_id)
       (fastforce simp: anonymous_can_id_def bit_or_iff bit_push_bit_iff bit_unsigned_iff
         simp del: bit_numeral_word_iff)
qed

section \<open>Publishing\<close>

text \<open>The transfer CRC covers the signature and the payload; single-frame transfers do not carry it.\<close>

definition transfer_crc :: "u64 \<Rightarrow> u8 list \<Rightarrow> u16" where
  "transfer_crc signature payload =
     (if length payload > 7 then crcAdd (crcAddSignature 0xFFFF signature) payload else 0xFFFF)"

text \<open>The identifier of a broadcast, anonymous when the node has no identifier of its own.\<close>

definition broadcast_id :: "u8 \<Rightarrow> u8 \<Rightarrow> u16 \<Rightarrow> u8 list \<Rightarrow> u32" where
  "broadcast_id node priority dtid payload =
     (if node = 0 then anonymous_can_id priority (crcAdd 0xFFFF payload AND 0x7FFE) dtid 0
      else message_can_id priority dtid node)"

abbreviation next_tid :: "u8 \<Rightarrow> u8" where
  "next_tid tid \<equiv> (if tid + 1 \<ge> 32 then 0 else tid + 1)"

abbreviation call_payload :: "u8 list option \<Rightarrow> u16 \<Rightarrow> u8 list" where
  "call_payload payload n \<equiv> take (unat n) (payload_bytes payload)"

text \<open>The arguments \<open>canardBroadcast\<close> turns down, with its answer.\<close>

definition broadcast_error :: "u8 \<Rightarrow> u16 \<Rightarrow> u8 \<Rightarrow> u8 list option \<Rightarrow> u16 \<Rightarrow> int option" where
  "broadcast_error node dtid priority payload n =
     (if payload = None \<and> n > 0 \<or> priority > CANARD_TRANSFER_PRIORITY_LOWEST
      then Some (- CANARD_ERROR_INVALID_ARGUMENT)
      else if node = 0 \<and> n > 7 then Some (- CANARD_ERROR_NODE_ID_NOT_SET)
      else if node = 0 \<and> dtid > 3 then Some (- CANARD_ERROR_INVALID_ARGUMENT)
      else None)"

lemma crcAdd_ptr_Some:
  "unat n \<le> length (payload_bytes payload) \<Longrightarrow>
     crcAdd_ptr c payload (unat n) = Some (crcAdd c (call_payload payload n))"
  by (cases payload) (auto simp: crcAdd_ptr_def)

lemma incrementTransferID_next: "incrementTransferID (Some tid) = Some (next_tid tid)"
  by (simp add: incrementTransferID_def Let_def)

lemma dtid_mask: "(dtid :: u16) AND (push_bit 2 1 - 1) \<noteq> dtid \<longleftrightarrow> dtid > 3"
proof -
  have "dtid AND 3 = take_bit 2 dtid"
    by (simp add: take_bit_eq_mask mask_eq_exp_minus_1)
  moreover have "unat (take_bit 2 dtid) = unat dtid mod 4"
    by (simp add: take_bit_eq_mod unat_mod)
  ultimately show ?thesis
    by (simp add: word_less_nat_alt word_unat_eq_iff) presburger
qed

lemma canardBroadcast_correct:
  assumes inv: "canard_inv ins L h" and len: "unat n \<le> length (payload_bytes payload)"
    and ok: "broadcast_error (node_id ins) dtid priority payload n = None"
    and fs: "fs = transfer_frames (broadcast_id (node_id ins) priority dtid (call_payload payload n)) tid
      (transfer_crc signature (call_payload payload n)) (call_payload payload n)"
  shows "\<exists>ins'. canardBroadcast ins signature dtid (Some tid) priority payload n =
      Some (enqueue_result fs (length (lay_free L)), Some (next_tid tid), ins') \<and>
    canard_inv ins' (lay_enqueue fs L) h \<and> same_node ins ins'"
proof -
  let ?p = "call_payload payload n"
  have lp: "length ?p = unat n" using len by simp
  have n7: "n > 7 \<longleftrightarrow> length ?p > 7" unfolding lp by (simp add: word_less_nat_alt)
  note err = ok [unfolded broadcast_error_def]
  have pr: "unat priority < 32"
    using err by (simp add: word_less_nat_alt split: if_splits)
  let ?id = "broadcast_id (node_id ins) priority dtid ?p" and ?crc = "transfer_crc signature ?p"
  have id: "?id AND CANARD_CAN_EXT_ID_MASK = ?id"
    unfolding broadcast_id_def using can_ids_fit [OF pr] by (simp del: and_numerals)
  obtain ins' where ins': "enqueueTxFrames ins ?id (Some tid) ?crc payload n =
        Some (enqueue_result fs (length (lay_free L)), ins')"
      "canard_inv ins' (lay_enqueue fs L) h" "same_node ins ins'"
    using enqueueTxFrames_correct [OF inv len id fs] by blast
  have "canardBroadcast ins signature dtid (Some tid) priority payload n =
      Some (enqueue_result fs (length (lay_free L)), Some (next_tid tid), ins')"
  proof (cases "node_id ins = 0")
    case True
    then have "\<not> n > 7" "\<not> dtid > 3" using err by (auto split: if_splits)
    then have "?crc = 0xFFFF" by (simp add: transfer_crc_def n7 del: length_take)
    with True ins'(1) err \<open>\<not> n > 7\<close> \<open>\<not> dtid > 3\<close> show ?thesis
      unfolding canardBroadcast_def dtid_mask
      by (simp add: canard_simps broadcast_id_def crcAdd_ptr_Some [OF len]
          incrementTransferID_next del: length_take split: if_split_asm)
  next
    case False
    have "(if n > 7 then crcAdd_ptr (crcAddSignature 0xFFFF signature) payload (unat n)
        else Some 0xFFFF) = Some ?crc"
      by (simp add: transfer_crc_def n7 crcAdd_ptr_Some [OF len] del: length_take)
    with False ins'(1) err show ?thesis
      unfolding canardBroadcast_def
      by (simp add: canard_simps broadcast_id_def
          incrementTransferID_next del: length_take split: if_split_asm)
  qed
  with ins' show ?thesis by blast
qed


lemma canardRequestOrRespond_correct:
  assumes inv: "canard_inv ins L h" and len: "unat n \<le> length (payload_bytes payload)"
    and ok: "\<not> (payload = None \<and> n > 0)" "priority \<le> 31" "node_id ins \<noteq> 0"
    and fs: "fs = transfer_frames (service_can_id priority sid kind dest (node_id ins)) tid
      (transfer_crc signature (call_payload payload n)) (call_payload payload n)"
  shows "\<exists>ins'. canardRequestOrRespond ins dest signature sid (Some tid) priority kind payload n =
      Some (enqueue_result fs (length (lay_free L)),
            Some (if kind = CanardRequest then next_tid tid else tid), ins') \<and>
    canard_inv ins' (lay_enqueue fs L) h \<and> same_node ins ins'"
proof -
  let ?p = "call_payload payload n"
  have lp: "length ?p = unat n" using len by simp
  have n7: "n > 7 \<longleftrightarrow> length ?p > 7" unfolding lp by (simp add: word_less_nat_alt)
  have pr: "unat priority < 32"
    using ok by (simp add: word_le_nat_alt)
  let ?id = "service_can_id priority sid kind dest (node_id ins)" and ?crc = "transfer_crc signature ?p"
  have id: "?id AND CANARD_CAN_EXT_ID_MASK = ?id"
    by (rule can_ids_fit [OF pr])
  obtain ins' where ins': "enqueueTxFrames ins ?id (Some tid) ?crc payload n =
        Some (enqueue_result fs (length (lay_free L)), ins')"
      "canard_inv ins' (lay_enqueue fs L) h" "same_node ins ins'"
    using enqueueTxFrames_correct [OF inv len id fs] by blast
  have "(if n > 7 then crcAdd_ptr (crcAddSignature 0xFFFF signature) payload (unat n)
      else Some 0xFFFF) = Some ?crc"
    by (simp add: transfer_crc_def n7 crcAdd_ptr_Some [OF len] del: length_take)
  moreover have "\<not> priority > CANARD_TRANSFER_PRIORITY_LOWEST"
    using ok(2) by simp
  ultimately have "canardRequestOrRespond ins dest signature sid (Some tid) priority kind payload n =
      Some (enqueue_result fs (length (lay_free L)),
            Some (if kind = CanardRequest then next_tid tid else tid), ins')"
    using ins'(1) ok
    unfolding canardRequestOrRespond_def
    by (simp add: canard_simps incrementTransferID_next Let_def del: length_take
        split: if_split_asm)
  with ins' show ?thesis by blast
qed

section \<open>The queue is a stable priority queue\<close>

text \<open>Frames the library makes are extended data frames; the identifier is the sort key.\<close>

definition ext_frame :: "CanardCANFrame \<Rightarrow> bool" where
  "ext_frame f \<longleftrightarrow> bit (frame_id f) 31 \<and> \<not> bit (frame_id f) 30"

definition frame_key :: "CanardCANFrame \<Rightarrow> u32" where
  "frame_key f = frame_id f AND CANARD_CAN_EXT_ID_MASK"

definition queue_wf :: "CanardCANFrame list \<Rightarrow> bool" where
  "queue_wf q \<longleftrightarrow> sorted (map frame_key q) \<and> (\<forall>f \<in> set q. ext_frame f)"

lemma higher_key: "ext_frame f \<Longrightarrow> ext_frame g \<Longrightarrow>
    isPriorityHigher (frame_id g) (frame_id f) \<longleftrightarrow> frame_key f < frame_key g"
  by (simp add: ext_frame_def frame_key_def isPriorityHigher_ext)

lemma tx_insert_sort:
  assumes "queue_wf (map snd q)" and "ext_frame (snd x)"
  shows "map snd (tx_insert x q) = sort_key frame_key (map snd q @ [snd x])"
proof (rule sym, rule properties_for_sort_key)
  show "mset (map snd (tx_insert x q)) = mset (map snd q @ [snd x])"
    by (induction q) auto
  have "filter (\<lambda>y. frame_key k = frame_key y) (map snd (tx_insert x q)) =
      filter (\<lambda>y. frame_key k = frame_key y) (map snd q @ [snd x])" for k
    using assms
  proof (induction q)
    case (Cons y q)
    then have IH: "filter (\<lambda>y. frame_key k = frame_key y) (map snd (tx_insert x q)) =
        filter (\<lambda>y. frame_key k = frame_key y) (map snd q @ [snd x])"
      by (simp add: queue_wf_def)
    have "frame_key k \<noteq> frame_key (snd z)"
      if "frame_key (snd x) < frame_key (snd y)" "frame_key k = frame_key (snd x)" "z \<in> set (y # q)" for z
      using that Cons.prems(1) by (auto simp: queue_wf_def)
    moreover have "isPriorityHigher (frame_id (snd y)) (frame_id (snd x)) \<longleftrightarrow>
        frame_key (snd x) < frame_key (snd y)"
      using Cons.prems by (intro higher_key) (auto simp: queue_wf_def)
    ultimately show ?case
      using IH by (auto simp: filter_map comp_def filter_empty_conv)
  qed simp
  then show "filter (\<lambda>y. frame_key k = frame_key y) (map snd (tx_insert x q)) =
      filter (\<lambda>y. frame_key k = frame_key y) (map snd q @ [snd x])" for k .
  show "sorted (map frame_key (map snd (tx_insert x q)))"
    using assms
  proof (induction q)
    case (Cons y q)
    have "isPriorityHigher (frame_id (snd y)) (frame_id (snd x)) \<longleftrightarrow>
        frame_key (snd x) < frame_key (snd y)"
      using Cons.prems by (intro higher_key) (auto simp: queue_wf_def)
    with Cons show ?case
      by (fastforce simp: queue_wf_def)
  qed simp
qed

lemma sort_key_append_sorted: "sort_key f (sort_key f xs @ ys) = sort_key f (xs @ ys)"
proof -
  have st: "filter (\<lambda>x. f k = f x) (sort_key f zs) = filter (\<lambda>x. f k = f x) zs" for k zs
    using sort_key_stable [of f "f k" zs] by (simp add: eq_commute)
  show ?thesis
    by (rule properties_for_sort_key) (simp_all add: st)
qed

lemma queue_wf_sort: "(\<forall>f \<in> set q. ext_frame f) \<Longrightarrow> queue_wf (sort_key frame_key q)"
  by (simp add: queue_wf_def)

lemma tx_insert_all_sort:
  assumes "queue_wf (map snd q)" and "\<forall>f \<in> set fs. ext_frame f"
  shows "map snd (tx_insert_all (zip as fs) q) = sort_key frame_key (map snd q @ take (length as) fs)"
  using assms
proof (induction fs arbitrary: as q)
  case Nil
  then show ?case by (simp add: queue_wf_def sorted_sort_id sort_key_id_if_sorted)
next
  case (Cons f fs)
  show ?case
  proof (cases as)
    case Nil
    with Cons.prems show ?thesis by (simp add: queue_wf_def sort_key_id_if_sorted)
  next
    case (Cons a as')
    have one: "map snd (tx_insert (a, f) q) = sort_key frame_key (map snd q @ [f])"
      using tx_insert_sort [of q "(a, f)"] Cons.prems by simp
    have "queue_wf (map snd (tx_insert (a, f) q))"
      unfolding one using Cons.prems by (intro queue_wf_sort) (auto simp: queue_wf_def)
    then have "map snd (tx_insert_all (zip as' fs) (tx_insert (a, f) q)) =
        sort_key frame_key (sort_key frame_key (map snd q @ [f]) @ take (length as') fs)"
      using Cons.IH [of "tx_insert (a, f) q" as'] Cons.prems by (simp add: one)
    then show ?thesis
      by (simp add: Cons sort_key_append_sorted)
  qed
qed


section \<open>The frames of a transfer are extended data frames\<close>

lemma bit_mk_frame:
  assumes "can_id AND CANARD_CAN_EXT_ID_MASK = can_id"
  shows "ext_frame (mk_frame can_id c t)" and "frame_key (mk_frame can_id c t) = can_id"
proof -
  have b: "bit can_id n \<Longrightarrow> n < 29" for n
    using assms by (metis bit_and_iff bit_mask_num(5))
  show "ext_frame (mk_frame can_id c t)"
    using b [of 30] by (auto simp: ext_frame_def mk_frame_def bit_or_iff simp del: bit_numeral_word_iff)
  show "frame_key (mk_frame can_id c t) = can_id"
    using b by (intro bit_word_eqI)
      (auto simp: frame_key_def mk_frame_def bit_or_iff bit_and_iff simp del: bit_numeral_word_iff)
qed

lemma mk_frames_all: "(\<And>c t. P (mk_frame can_id c t)) \<Longrightarrow> f \<in> set (mk_frames can_id tid s g cs) \<Longrightarrow> P f"
  by (induction cs arbitrary: s g) auto

lemma transfer_frames_all:
  "(\<And>c t. P (mk_frame can_id c t)) \<Longrightarrow> f \<in> set (transfer_frames can_id tid crc payload) \<Longrightarrow> P f"
  using mk_frames_all [of P can_id f tid True False]
  by (auto simp: transfer_frames_def simp del: mk_frames.simps chunks7.simps split: if_splits)

lemma broadcast_id_fits:
  "unat priority < 32 \<Longrightarrow> broadcast_id node priority dtid payload AND CANARD_CAN_EXT_ID_MASK =
     broadcast_id node priority dtid payload"
  unfolding broadcast_id_def using can_ids_fit by (simp del: and_numerals)

lemma lay_enqueue_sel:
  "lay_free (lay_enqueue fs L) = drop (length fs) (lay_free L)" "lay_rx (lay_enqueue fs L) = lay_rx L"
  "lay_held (lay_enqueue fs L) = lay_held L"
  "lay_tx (lay_enqueue fs L) = tx_insert_all (zip (lay_free L) fs) (lay_tx L)"
  by (simp_all add: lay_enqueue_def)

section \<open>Layouts of a fresh instance\<close>

abbreviation fresh_layout :: "nat \<Rightarrow> layout" where
  "fresh_layout n \<equiv> \<lparr>lay_free = [0..<n], lay_tx = [], lay_rx = [], lay_held = []\<rparr>"

lemma canard_inv_node_id [simp]: "canard_inv (ins\<lparr>node_id := x\<rparr>) L h = canard_inv ins L h"
  by (simp add: canard_inv_def)

lemma canardInit_layout:
  "canard_inv (canardInit mem_size ref) (fresh_layout (min (unat mem_size div 32) 0xFFFF)) None"
proof -
  define k where "k = min (unat mem_size div 32) 0xFFFF"
  have cap: "unat (of_nat k :: u16) = k"
    by (simp add: unat_of_nat mod_less k_def min_def)
  have al: "allocator (canardInit mem_size ref) = initPoolAllocator
      \<lparr>free_list = None,
       statistics = \<lparr>capacity_blocks = 0, current_usage_blocks = 0, peak_usage_blocks = 0\<rparr>,
       arena = Map.empty\<rparr> (of_nat k)"
    unfolding canardInit_def Let_def k_def by (simp add: min_def del: of_nat_numeral)
  have "pool_inv (allocator (canardInit mem_size ref)) [0..<k] {}"
    unfolding al using initPoolAllocator_inv [of _ "of_nat k"] by (simp add: cap)
  then show ?thesis
    unfolding k_def [symmetric]
    by (simp add: canard_inv_def used_blocks_def) (simp add: canardInit_def Let_def)
qed

text \<open>An instance with four blocks and the node identifier 42, for the examples.\<close>

definition demo_node :: CanardInstance where
  "demo_node = (canardInit 128 0)\<lparr>node_id := 42\<rparr>"

lemma demo_node_layout: "canard_inv demo_node (fresh_layout 4) None"
  using canardInit_layout [of 128 0] by (simp add: demo_node_def min_def)

lemma demo_node_id [simp]: "node_id demo_node = 42"
  by (simp add: demo_node_def)

section \<open>The calls of the application\<close>

text \<open>
  C5. A fresh instance: every whole block of the arena is free, at most 65535 of them, in the order
  of their addresses; nothing is queued and no transfer is being received.
\<close>

theorem canardInit_all_free:
  "canard_inv (canardInit mem_size ref) (fresh_layout (min (unat mem_size div 32) 0xFFFF)) None"
  by (rule canardInit_layout)

text \<open>
  C1. Publishing: with acceptable arguments \<open>canardBroadcast\<close> is memory safe and returns; the queue
  becomes the stable sort by identifier of what it was followed by the frames of the transfer, or
  by as many of them as there were free blocks, in which case the result is the out-of-memory code;
  the transfer identifier moves on in both cases, and no block is lost.
\<close>

theorem broadcast_publishes:
  assumes "canard_inv ins L h" and "queue_wf (map snd (lay_tx L))"
    and "unat n \<le> length (payload_bytes payload)"
    and "broadcast_error (node_id ins) dtid priority payload n = None"
    and "fs = transfer_frames (broadcast_id (node_id ins) priority dtid (call_payload payload n)) tid
      (transfer_crc signature (call_payload payload n)) (call_payload payload n)"
  shows "\<exists>ins' L'. canardBroadcast ins signature dtid (Some tid) priority payload n =
      Some (if length fs \<le> length (lay_free L) then int (length fs) else - CANARD_ERROR_OUT_OF_MEMORY,
            incrementTransferID (Some tid), ins') \<and>
    canard_inv ins' L' h \<and> lay_rx L' = lay_rx L \<and> lay_free L' = drop (length fs) (lay_free L) \<and>
    map snd (lay_tx L') = sort_key frame_key (map snd (lay_tx L) @ take (length (lay_free L)) fs)"
proof -
  let ?id = "broadcast_id (node_id ins) priority dtid (call_payload payload n)"
  have "unat priority < 32"
    using assms(4) by (simp add: broadcast_error_def word_less_nat_alt split: if_splits)
  then have id: "?id AND CANARD_CAN_EXT_ID_MASK = ?id"
    by (rule broadcast_id_fits)
  have "\<forall>f \<in> set fs. ext_frame f"
    unfolding assms(5) using transfer_frames_all bit_mk_frame(1) [OF id] by blast
  with canardBroadcast_correct [OF assms(1,3-5)] assms(2) show ?thesis
    unfolding incrementTransferID_next
    by (metis lay_enqueue_sel tx_insert_all_sort)
qed

theorem broadcast_publishes_witness:
  "\<exists>ins' L'. canardBroadcast demo_node 5 341 (Some 31) 16 (Some [1, 2, 3, 4, 5, 6, 7, 8]) 8 =
      Some (2, Some 0, ins') \<and>
    canard_inv ins' L' None \<and> lay_free L' = [2, 3]"
proof -
  let ?p = "[1, 2, 3, 4, 5, 6, 7, 8] :: u8 list"
  let ?fs = "transfer_frames (broadcast_id (node_id demo_node) 16 341 ?p) 31 (transfer_crc 5 ?p) ?p"
  have fs: "length ?fs = 2" by (simp add: transfer_frames_def)
  have "\<exists>ins' L'. canardBroadcast demo_node 5 341 (Some 31) 16 (Some ?p) 8 =
      Some (if length ?fs \<le> length (lay_free (fresh_layout 4)) then int (length ?fs)
            else - CANARD_ERROR_OUT_OF_MEMORY, incrementTransferID (Some 31), ins') \<and>
    canard_inv ins' L' None \<and> lay_rx L' = lay_rx (fresh_layout 4) \<and>
    lay_free L' = drop (length ?fs) (lay_free (fresh_layout 4)) \<and>
    map snd (lay_tx L') = sort_key frame_key
      (map snd (lay_tx (fresh_layout 4)) @ take (length (lay_free (fresh_layout 4))) ?fs)"
    by (rule broadcast_publishes [OF demo_node_layout])
       (simp_all add: queue_wf_def broadcast_error_def)
  then show ?thesis
    unfolding fs
    by (elim exE conjE, intro exI conjI) (auto simp: incrementTransferID_next upt_rec)
qed

text \<open>
  C2. The same for a service call: \<open>canardRequestOrRespond\<close> queues the frames of the request or of
  the response, and moves the transfer identifier on for a request only.
\<close>

theorem request_or_respond_publishes:
  assumes "canard_inv ins L h" and "queue_wf (map snd (lay_tx L))"
    and "unat n \<le> length (payload_bytes payload)"
    and "\<not> (payload = None \<and> n > 0)" and "priority \<le> 31" and "node_id ins \<noteq> 0"
    and "fs = transfer_frames (service_can_id priority sid kind dest (node_id ins)) tid
      (transfer_crc signature (call_payload payload n)) (call_payload payload n)"
  shows "\<exists>ins' L'. canardRequestOrRespond ins dest signature sid (Some tid) priority kind payload n =
      Some (if length fs \<le> length (lay_free L) then int (length fs) else - CANARD_ERROR_OUT_OF_MEMORY,
            if kind = CanardRequest then incrementTransferID (Some tid) else Some tid, ins') \<and>
    canard_inv ins' L' h \<and> lay_rx L' = lay_rx L \<and> lay_free L' = drop (length fs) (lay_free L) \<and>
    map snd (lay_tx L') = sort_key frame_key (map snd (lay_tx L) @ take (length (lay_free L)) fs)"
proof -
  let ?id = "service_can_id priority sid kind dest (node_id ins)"
  have "unat priority < 32" using assms(5) by (simp add: word_le_nat_alt)
  then have id: "?id AND CANARD_CAN_EXT_ID_MASK = ?id"
    by (rule can_ids_fit)
  have "\<forall>f \<in> set fs. ext_frame f"
    unfolding assms(7) using transfer_frames_all bit_mk_frame(1) [OF id] by blast
  with canardRequestOrRespond_correct [OF assms(1,3-7)] assms(2) show ?thesis
    unfolding incrementTransferID_next if_distrib [of Some, symmetric]
    by (metis lay_enqueue_sel tx_insert_all_sort)
qed

theorem request_or_respond_publishes_witness:
  "\<exists>ins' L'. canardRequestOrRespond demo_node 7 5 1 (Some 30) 24 CanardRequest (Some [1, 2, 3]) 3 =
      Some (1, Some 31, ins') \<and> canard_inv ins' L' None \<and> lay_free L' = [1, 2, 3]"
proof -
  let ?p = "[1, 2, 3] :: u8 list"
  let ?fs = "transfer_frames (service_can_id 24 1 CanardRequest 7 (node_id demo_node)) 30
    (transfer_crc 5 ?p) ?p"
  have fs: "length ?fs = 1" by (simp add: transfer_frames_def)
  have "\<exists>ins' L'. canardRequestOrRespond demo_node 7 5 1 (Some 30) 24 CanardRequest (Some ?p) 3 =
      Some (if length ?fs \<le> length (lay_free (fresh_layout 4)) then int (length ?fs)
            else - CANARD_ERROR_OUT_OF_MEMORY,
            if CanardRequest = CanardRequest then incrementTransferID (Some 30) else Some 30, ins') \<and>
    canard_inv ins' L' None \<and> lay_rx L' = lay_rx (fresh_layout 4) \<and>
    lay_free L' = drop (length ?fs) (lay_free (fresh_layout 4)) \<and>
    map snd (lay_tx L') = sort_key frame_key
      (map snd (lay_tx (fresh_layout 4)) @ take (length (lay_free (fresh_layout 4))) ?fs)"
    by (rule request_or_respond_publishes [OF demo_node_layout])
       (simp_all add: queue_wf_def)
  then show ?thesis
    unfolding fs
    by (elim exE conjE, intro exI conjI) (auto simp: incrementTransferID_next upt_rec)
qed

section \<open>Taking frames from the queue\<close>

lemma canardPeekTxQueue_layout:
  "canard_inv ins L h \<Longrightarrow> canardPeekTxQueue ins = Some (case lay_tx L of [] \<Rightarrow> None | x # _ \<Rightarrow> Some (snd x))"
  by (cases "lay_tx L") (auto simp: canard_inv_def Let_def canardPeekTxQueue_def tx_view_get)

lemma canardPopTxQueue_layout:
  assumes "canard_inv ins L h" and tx: "lay_tx L = (a, f) # q"
  shows "\<exists>ins'. canardPopTxQueue ins = Some ins' \<and>
    canard_inv ins' (L\<lparr>lay_free := a # lay_free L, lay_tx := q\<rparr>) h \<and> same_node ins ins'"
proof -
  let ?m = "arena (allocator ins)" and ?L' = "L\<lparr>lay_free := a # lay_free L, lay_tx := q\<rparr>"
  have dist: "distinct (used_blocks L)" and ch: "chain (tx_view ?m) (tx_queue ins) (lay_tx L)"
    using assms(1) by (simp_all add: canard_inv_def Let_def)
  from ch tx obtain nx where hd: "tx_queue ins = Some a" "get_tx (allocator ins) a = Some \<lparr>tx_next = nx, tx_frame = f\<rparr>"
      "chain (tx_view ?m) nx q"
    by (auto simp: tx_view_get)
  have aU: "a \<in> set (used_blocks L)" using tx by (simp add: used_blocks_def)
  obtain al where al: "freeBlock (allocator ins) (Some a) = Some al"
      "pool_inv al (a # lay_free L) (set (used_blocks L) - {a})"
      "\<forall>c. c \<noteq> a \<longrightarrow> arena al c = ?m c"
    using pool.release_block [OF canard_inv_pool [OF assms(1)] aU] by blast
  let ?ins' = "ins\<lparr>tx_queue := nx, allocator := al\<rparr>"
  have used': "set (used_blocks ?L') = set (used_blocks L) - {a}" "distinct (used_blocks ?L')"
    using dist tx by (auto simp: used_blocks_def)
  have txq: "chain (tx_view (arena al)) nx q = chain (tx_view ?m) nx q"
    using al(3) dist tx by (intro tx_agree) (auto simp: used_blocks_def)
  have "chain (rx_view (arena al)) (rx_states ins) (map rx_head (lay_rx L)) \<and>
      (\<forall>e \<in> set (lay_rx L). chain (buf_view (arena al)) (rx_buffer_blocks (fst (snd e))) (snd (snd e))) \<and>
      chain (buf_view (arena al)) h (lay_held L)"
    using al(3) dist tx by (intro canard_inv_others [OF assms(1)]) (auto simp: used_blocks_def)
  with al(2) used' txq hd(3) have "canard_inv ?ins' ?L' h"
    by (simp add: canard_inv_def)
  with hd(1,2) al(1) show ?thesis
    by (intro exI [of _ ?ins']) (simp add: canardPopTxQueue_def)
qed

text \<open>
  The transmission part of \<open>UAVCANBootloaderLoader::poll\<close> (\<open>l_uavcan.hpp\<close>): at most \<open>n\<close> times, the
  first frame is handed to the driver and removed, unless the driver answers 0. \<open>send\<close> is the driver.
\<close>

primrec poll_transmit ::
  "('d \<Rightarrow> CanardCANFrame \<Rightarrow> int \<times> 'd) \<Rightarrow> nat \<Rightarrow> 'd \<Rightarrow> CanardInstance \<Rightarrow> ('d \<times> CanardInstance) option" where
  "poll_transmit send 0 d ins = Some (d, ins)"
| "poll_transmit send (Suc n) d ins = do {
     txf \<leftarrow> canardPeekTxQueue ins;
     (case txf of
        None \<Rightarrow> Some (d, ins)
      | Some f \<Rightarrow>
          let (res, d) = send d f in
          if res = 0 then Some (d, ins)
          else do { ins \<leftarrow> canardPopTxQueue ins; poll_transmit send n d ins })
   }"

text \<open>The same on a list: the driver's state afterwards and what is left.\<close>

fun offer_frames ::
  "('d \<Rightarrow> CanardCANFrame \<Rightarrow> int \<times> 'd) \<Rightarrow> nat \<Rightarrow> 'd \<Rightarrow> CanardCANFrame list \<Rightarrow> 'd \<times> CanardCANFrame list" where
  "offer_frames send (Suc n) d (f # q) =
     (let (res, d') = send d f in if res = 0 then (d', f # q) else offer_frames send n d' q)"
| "offer_frames send n d q = (d, q)"

lemma poll_transmit_layout:
  "canard_inv ins L h \<Longrightarrow>
    \<exists>ins' L'. poll_transmit send n d ins = Some (fst (offer_frames send n d (map snd (lay_tx L))), ins') \<and>
      canard_inv ins' L' h \<and> map snd (lay_tx L') = snd (offer_frames send n d (map snd (lay_tx L))) \<and>
      lay_rx L' = lay_rx L \<and> length (lay_free L') + length (lay_tx L') = length (lay_free L) + length (lay_tx L)"
proof (induction n arbitrary: d ins L)
  case 0
  then show ?case by auto
next
  case (Suc n)
  note peek = canardPeekTxQueue_layout [OF Suc.prems]
  show ?case
  proof (cases "lay_tx L")
    case Nil
    then show ?thesis using peek Suc.prems by auto
  next
    case (Cons x q)
    obtain a f where x: "x = (a, f)" by (cases x)
    obtain res d' where s: "send d f = (res, d')" by (cases "send d f")
    show ?thesis
    proof (cases "res = 0")
      case True
      then show ?thesis using peek Suc.prems Cons x s by auto
    next
      case False
      obtain ins1 where pop: "canardPopTxQueue ins = Some ins1"
          "canard_inv ins1 (L\<lparr>lay_free := a # lay_free L, lay_tx := q\<rparr>) h"
        using canardPopTxQueue_layout [OF Suc.prems Cons [unfolded x]] by blast
      from Suc.IH [OF pop(2), of d'] show ?thesis
        using peek pop(1) Cons x s False by auto
    qed
  qed
qed

text \<open>
  C3. A turn of the transmission loop is memory safe and takes frames in queue order: what reaches
  the driver, and what stays queued, is as if the queue were the list of its frames; every frame
  that leaves gives its block back.
\<close>

theorem poll_transmits_in_order:
  assumes "canard_inv ins L h"
  shows "\<exists>ins' L'. poll_transmit send n d ins =
      Some (fst (offer_frames send n d (map snd (lay_tx L))), ins') \<and>
    canard_inv ins' L' h \<and> map snd (lay_tx L') = snd (offer_frames send n d (map snd (lay_tx L))) \<and>
    lay_rx L' = lay_rx L \<and>
    length (lay_free L') + length (lay_tx L') = length (lay_free L) + length (lay_tx L)"
  by (rule poll_transmit_layout [OF assms])

theorem poll_transmits_in_order_witness:
  "\<exists>ins' L'. poll_transmit (\<lambda>d f. (1, d @ [f])) 10 [] demo_node = Some ([], ins') \<and>
    canard_inv ins' L' None \<and> lay_tx L' = []"
  using poll_transmits_in_order [OF demo_node_layout, of "\<lambda>d f. (1, d @ [f])" 10 "[]"]
  by (auto simp: numeral_eq_Suc)

section \<open>Calls that are turned down\<close>

text \<open>
  C8. Arguments outside the contract are refused before anything is touched, with the code of the
  first check that fails; but a null transfer identifier, for which \<open>enqueueTxFrames\<close> has an error
  code, stops \<open>canardBroadcast\<close> at the assertion of \<open>incrementTransferID\<close> instead.
\<close>

theorem broadcast_refuses:
  "(case broadcast_error (node_id ins) dtid priority payload n of
      Some e \<Rightarrow> canardBroadcast ins signature dtid tidp priority payload n = Some (e, tidp, ins)
    | None \<Rightarrow> enqueueTxFrames ins (broadcast_id (node_id ins) priority dtid (call_payload payload n)) None
          crc payload n = Some (- CANARD_ERROR_INVALID_ARGUMENT, ins) \<and>
        canardBroadcast ins signature dtid None priority payload n = None)"
proof (cases "broadcast_error (node_id ins) dtid priority payload n")
  case (Some e)
  then show ?thesis
    unfolding canardBroadcast_def dtid_mask broadcast_error_def
    by (auto simp: canard_simps split: if_splits)
next
  case None
  then have "unat priority < 32"
    by (simp add: broadcast_error_def word_less_nat_alt split: if_splits)
  from broadcast_id_fits [OF this] have
    "enqueueTxFrames ins (broadcast_id (node_id ins) priority dtid (call_payload payload n)) None
       crc payload n = Some (- CANARD_ERROR_INVALID_ARGUMENT, ins)"
    by (simp add: enqueueTxFrames_def)
  moreover have "canardBroadcast ins signature dtid None priority payload n = None"
    using None unfolding canardBroadcast_def dtid_mask broadcast_error_def
    by (auto simp: canard_simps incrementTransferID_def Option.bind_eq_None_conv split: if_splits prod.splits)
  ultimately show ?thesis by (simp add: None)
qed

end
