(* ===== verification/Canard_Rx.thy ===== *)
theory Canard_Rx
  imports Canard_Layout Canard_Id Canard_Crc
begin

text \<open>
  The receiving side of libcanard (\<open>canard.c\<close>): the list of receive states, the buffer blocks of a
  multi-frame transfer, the frame handler and the removal of stale states. This theory holds the
  operations; what they do is stated in the theories that import it.

  The callbacks \<open>should_accept\<close> and \<open>on_reception\<close> of an instance are arguments. The application
  has a state of its own, threaded through \<open>on_reception\<close>, which may use the library on the instance
  it is given; \<open>should_accept\<close> returns its answer and the value of \<open>*out_data_type_signature\<close>.
\<close>

section \<open>Assignments through pointers\<close>

definition set_rx ::
  "CanardPoolAllocator \<Rightarrow> addr \<Rightarrow> (CanardRxState \<Rightarrow> CanardRxState) \<Rightarrow> CanardPoolAllocator option" where
  "set_rx al a f = do { r \<leftarrow> get_rx al a; Some (put_block al a (RxBlock (f r))) }"

definition set_buf ::
  "CanardPoolAllocator \<Rightarrow> addr \<Rightarrow> (CanardBufferBlock \<Rightarrow> CanardBufferBlock) \<Rightarrow> CanardPoolAllocator option" where
  "set_buf al a f = do { b \<leftarrow> get_buf al a; Some (put_block al a (BufBlock (f b))) }"

text \<open>
  The copying loops of the receiver:
  \<open>for (; i < limit && data_index < data_len; i++, data_index++) dst[i] = data[data_index];\<close>
  They return the final \<open>data_index\<close> and the array.
\<close>

function copy_bytes ::
  "nat \<Rightarrow> nat \<Rightarrow> u8 list \<Rightarrow> nat \<Rightarrow> nat \<Rightarrow> (nat \<rightharpoonup> u8) \<Rightarrow> (nat \<times> (nat \<rightharpoonup> u8)) option" where
  "copy_bytes limit i data data_len data_index dst =
     (if i < limit \<and> data_index < data_len then do {
        b \<leftarrow> nth_opt data data_index;
        copy_bytes limit (Suc i) data data_len (Suc data_index) (dst(i \<mapsto> b))
      } else Some (data_index, dst))"
  by pat_completeness auto
termination
  by (relation "measure (\<lambda>(l, i, d, n, k, m). l - i)") auto

declare copy_bytes.simps [simp del]

section \<open>Creating blocks\<close>

definition createBufferBlock :: "CanardPoolAllocator \<Rightarrow> (ptr \<times> CanardPoolAllocator) option" where
  "createBufferBlock al = do {
     (block, al) \<leftarrow> allocateBlock al;
     case block of
       None \<Rightarrow> Some (None, al)
     | Some b \<Rightarrow> Some (Some b, put_block al b (BufBlock \<lparr>bb_next = None, bb_data = Map.empty\<rparr>))
   }"

definition init_rx_state :: "u32 \<Rightarrow> CanardRxState" where
  "init_rx_state transfer_descriptor =
     \<lparr>rx_next = None, rx_buffer_blocks = None, rx_timestamp_usec = 0,
      rx_dtid_tt_snid_dnid = transfer_descriptor, rx_payload_crc = 0, rx_calculated_crc = 0,
      rx_payload_len = 0, rx_transfer_id = 0, rx_next_toggle = False, rx_buffer_head = Map.empty\<rparr>"

definition createRxState :: "CanardPoolAllocator \<Rightarrow> u32 \<Rightarrow> (ptr \<times> CanardPoolAllocator) option" where
  "createRxState al transfer_descriptor = do {
     (state, al) \<leftarrow> allocateBlock al;
     case state of
       None \<Rightarrow> Some (None, al)
     | Some a \<Rightarrow> Some (Some a, put_block al a (RxBlock (init_rx_state transfer_descriptor)))
   }"

section \<open>The list of receive states\<close>

partial_function (option) findRxState :: "CanardPoolAllocator \<Rightarrow> ptr \<Rightarrow> u32 \<Rightarrow> ptr option" where
  "findRxState al state transfer_descriptor =
     (case state of
        None \<Rightarrow> Some None
      | Some a \<Rightarrow> do {
          r \<leftarrow> get_rx al a;
          if rx_dtid_tt_snid_dnid r = transfer_descriptor then Some (Some a)
          else findRxState al (rx_next r) transfer_descriptor
        })"

definition prependRxState :: "CanardInstance \<Rightarrow> u32 \<Rightarrow> (ptr \<times> CanardInstance) option" where
  "prependRxState ins transfer_descriptor = do {
     (state, al) \<leftarrow> createRxState (allocator ins) transfer_descriptor;
     case state of
       None \<Rightarrow> Some (None, ins\<lparr>allocator := al\<rparr>)
     | Some a \<Rightarrow> do {
         al \<leftarrow> set_rx al a (rx_next_update (\<lambda>_. rx_states ins));
         Some (Some a, ins\<lparr>allocator := al, rx_states := Some a\<rparr>)
       }
   }"

definition traverseRxStates :: "CanardInstance \<Rightarrow> u32 \<Rightarrow> (ptr \<times> CanardInstance) option" where
  "traverseRxStates ins transfer_descriptor =
     (if rx_states ins = None then do {
        (states, al) \<leftarrow> createRxState (allocator ins) transfer_descriptor;
        case states of
          None \<Rightarrow> Some (None, ins\<lparr>allocator := al\<rparr>)
        | Some a \<Rightarrow> Some (Some a, ins\<lparr>allocator := al, rx_states := Some a\<rparr>)
      } else do {
        states \<leftarrow> findRxState (allocator ins) (rx_states ins) transfer_descriptor;
        case states of
          Some a \<Rightarrow> Some (Some a, ins)
        | None \<Rightarrow> prependRxState ins transfer_descriptor
      })"

section \<open>Releasing blocks\<close>

partial_function (option) releaseState_loop ::
  "CanardPoolAllocator \<Rightarrow> addr \<Rightarrow> CanardPoolAllocator option" where
  "releaseState_loop al rxstate = do {
     r \<leftarrow> get_rx al rxstate;
     case rx_buffer_blocks r of
       None \<Rightarrow> Some al
     | Some block \<Rightarrow> do {
         b \<leftarrow> get_buf al block;
         let temp = bb_next b;
         al \<leftarrow> freeBlock al (Some block);
         al \<leftarrow> set_rx al rxstate (rx_buffer_blocks_update (\<lambda>_. temp));
         releaseState_loop al rxstate
       }
   }"

definition releaseStatePayload :: "CanardPoolAllocator \<Rightarrow> addr \<Rightarrow> CanardPoolAllocator option" where
  "releaseStatePayload al rxstate = do {
     al \<leftarrow> releaseState_loop al rxstate;
     set_rx al rxstate (rx_payload_len_update (\<lambda>_. 0))
   }"

partial_function (option) releaseTransfer_loop ::
  "CanardPoolAllocator \<Rightarrow> CanardRxTransfer \<Rightarrow> (CanardPoolAllocator \<times> CanardRxTransfer) option" where
  "releaseTransfer_loop al transfer =
     (case xfer_payload_middle transfer of
        None \<Rightarrow> Some (al, transfer)
      | Some block \<Rightarrow> do {
          b \<leftarrow> get_buf al block;
          let temp = bb_next b;
          al \<leftarrow> freeBlock al (Some block);
          releaseTransfer_loop al (transfer\<lparr>xfer_payload_middle := temp\<rparr>)
        })"

definition canardReleaseRxTransferPayload ::
  "CanardInstance \<Rightarrow> CanardRxTransfer \<Rightarrow> (CanardInstance \<times> CanardRxTransfer) option" where
  "canardReleaseRxTransferPayload ins transfer = do {
     (al, transfer) \<leftarrow> releaseTransfer_loop (allocator ins) transfer;
     Some (ins\<lparr>allocator := al\<rparr>,
           transfer\<lparr>xfer_payload_middle := None, xfer_payload_head := None, xfer_payload_tail := None,
                    xfer_payload_len := 0\<rparr>)
   }"

definition prepareForNextTransfer :: "CanardPoolAllocator \<Rightarrow> addr \<Rightarrow> CanardPoolAllocator option" where
  "prepareForNextTransfer al state = do {
     r \<leftarrow> get_rx al state;
     canard_assert (rx_buffer_blocks r = None);
     set_rx al state (\<lambda>r. r\<lparr>rx_transfer_id := rx_transfer_id r + 1, rx_payload_len := 0,
                            rx_next_toggle := False\<rparr>)
   }"

section \<open>Storing payload\<close>

text \<open>The last block of a chain, and the value of the counter \<open>nth_block\<close> there.\<close>

partial_function (option) last_block ::
  "CanardPoolAllocator \<Rightarrow> addr \<Rightarrow> u8 \<Rightarrow> (addr \<times> u8) option" where
  "last_block al block nth_block = do {
     b \<leftarrow> get_buf al block;
     case bb_next b of
       None \<Rightarrow> Some (block, nth_block)
     | Some next \<Rightarrow> last_block al next (nth_block + 1)
   }"

text \<open>\<open>block->next = createBufferBlock(allocator)\<close>\<close>

definition append_block ::
  "CanardPoolAllocator \<Rightarrow> addr \<Rightarrow> (ptr \<times> CanardPoolAllocator) option" where
  "append_block al block = do {
     (next, al) \<leftarrow> createBufferBlock al;
     al \<leftarrow> set_buf al block (bb_next_update (\<lambda>_. next));
     Some (next, al)
   }"

text \<open>The loop that fills the current block and appends further ones; \<open>False\<close> is out of memory.\<close>

partial_function (option) pushBytes_loop ::
  "CanardPoolAllocator \<Rightarrow> addr \<Rightarrow> nat \<Rightarrow> u8 list \<Rightarrow> nat \<Rightarrow> nat \<Rightarrow> (bool \<times> CanardPoolAllocator) option"
where
  "pushBytes_loop al block index_at_nth_block data data_len data_index =
     (if data_index < data_len then do {
        b \<leftarrow> get_buf al block;
        (data_index, contents) \<leftarrow> copy_bytes CANARD_BUFFER_BLOCK_DATA_SIZE index_at_nth_block data
            data_len data_index (bb_data b);
        al \<leftarrow> set_buf al block (bb_data_update (\<lambda>_. contents));
        if data_index < data_len then do {
          (next, al) \<leftarrow> append_block al block;
          case next of
            None \<Rightarrow> Some (False, al)
          | Some next \<Rightarrow> pushBytes_loop al next 0 data data_len data_index
        } else pushBytes_loop al block index_at_nth_block data data_len data_index
      } else Some (True, al))"

text \<open>
  The current block and the index of the next byte in it, after making sure there is a block:
  \<open>None\<close> is out of memory.
\<close>

definition current_block ::
  "CanardPoolAllocator \<Rightarrow> addr \<Rightarrow> u8 \<Rightarrow> ((addr \<times> nat) option \<times> CanardPoolAllocator) option" where
  "current_block al state data_len = do {
     r \<leftarrow> get_rx al state;
     let index_at_nth_block =
       (ucast ((ucast (rx_payload_len r) - of_nat CANARD_MULTIFRAME_RX_PAYLOAD_HEAD_SIZE :: u32)
          mod of_nat CANARD_BUFFER_BLOCK_DATA_SIZE) :: u8);
     case rx_buffer_blocks r of
       None \<Rightarrow> do {
         (block, al) \<leftarrow> createBufferBlock al;
         al \<leftarrow> set_rx al state (rx_buffer_blocks_update (\<lambda>_. block));
         Some (map_option (\<lambda>b. (b, 0)) block, al)
       }
     | Some first \<Rightarrow> do {
         (block, nth_block) \<leftarrow> last_block al first 1;
         let num_buffer_blocks =
           (ucast ((ucast (rx_payload_len r) + ucast data_len
                     - of_nat CANARD_MULTIFRAME_RX_PAYLOAD_HEAD_SIZE :: u32)
              div of_nat CANARD_BUFFER_BLOCK_DATA_SIZE + 1) :: u8);
         if num_buffer_blocks > nth_block \<and> index_at_nth_block = 0 then do {
           (next, al) \<leftarrow> append_block al block;
           Some (map_option (\<lambda>b. (b, unat index_at_nth_block)) next, al)
         } else Some (Some (block, unat index_at_nth_block), al)
       }
   }"

definition bufferBlockPushBytes ::
  "CanardPoolAllocator \<Rightarrow> addr \<Rightarrow> u8 list \<Rightarrow> u8 \<Rightarrow> (int \<times> CanardPoolAllocator) option" where
  "bufferBlockPushBytes al state data data_len = do {
     r \<leftarrow> get_rx al state;
     (data_index, al) \<leftarrow>
       (if int CANARD_MULTIFRAME_RX_PAYLOAD_HEAD_SIZE - uint (rx_payload_len r) > 0 then do {
          (data_index, head) \<leftarrow> copy_bytes CANARD_MULTIFRAME_RX_PAYLOAD_HEAD_SIZE
             (unat (rx_payload_len r)) data (unat data_len) 0 (rx_buffer_head r);
          al \<leftarrow> set_rx al state (rx_buffer_head_update (\<lambda>_. head));
          Some (data_index, al)
        } else Some (0, al));
     if int CANARD_MULTIFRAME_RX_PAYLOAD_HEAD_SIZE - uint (rx_payload_len r) > 0 \<and>
        data_index \<ge> unat data_len
     then do {
       al \<leftarrow> set_rx al state (\<lambda>r. r\<lparr>rx_payload_len := rx_payload_len r + ucast data_len\<rparr>);
       Some (1, al)
     } else do {
       (position, al) \<leftarrow> current_block al state data_len;
       case position of
         None \<Rightarrow> Some (- CANARD_ERROR_OUT_OF_MEMORY, al)
       | Some (block, index_at_nth_block) \<Rightarrow> do {
           (ok, al) \<leftarrow> pushBytes_loop al block index_at_nth_block data (unat data_len) data_index;
           if \<not> ok then Some (- CANARD_ERROR_OUT_OF_MEMORY, al)
           else do {
             al \<leftarrow> set_rx al state (\<lambda>r. r\<lparr>rx_payload_len := rx_payload_len r + ucast data_len\<rparr>);
             Some (1, al)
           }
         }
     }
   }"

section \<open>Handling a frame\<close>

type_synonym should_accept =
  "CanardInstance \<Rightarrow> u16 \<Rightarrow> CanardTransferType \<Rightarrow> u8 \<Rightarrow> bool \<times> u64"

type_synonym 'a on_reception =
  "'a \<Rightarrow> CanardInstance \<Rightarrow> CanardRxTransfer \<Rightarrow> ('a \<times> CanardInstance \<times> CanardRxTransfer) option"

definition frame_descriptor :: "CanardCANFrame \<Rightarrow> u32" where
  "frame_descriptor frame =
     (let transfer_type = extractTransferType (frame_id frame);
          destination_node_id = (if transfer_type = CanardTransferTypeBroadcast
            then CANARD_BROADCAST_NODE_ID else DEST_ID_FROM_ID (frame_id frame));
          source_node_id = SOURCE_ID_FROM_ID (frame_id frame);
          data_type_id = extractDataType (frame_id frame)
      in MAKE_TRANSFER_DESCRIPTOR data_type_id transfer_type source_node_id destination_node_id)"

text \<open>The checks that need the frame and the node identifier only: is the frame for this node?\<close>

definition frame_for_node :: "CanardInstance \<Rightarrow> CanardCANFrame \<Rightarrow> bool" where
  "frame_for_node ins frame =
     (let transfer_type = extractTransferType (frame_id frame);
          destination_node_id = (if transfer_type = CanardTransferTypeBroadcast
            then CANARD_BROADCAST_NODE_ID else DEST_ID_FROM_ID (frame_id frame))
      in if frame_id frame AND CANARD_CAN_FRAME_EFF = 0 \<or> frame_id frame AND CANARD_CAN_FRAME_RTR \<noteq> 0 \<or>
            frame_id frame AND CANARD_CAN_FRAME_ERR \<noteq> 0 \<or> frame_data_len frame < 1
         then False
         else \<not> (transfer_type \<noteq> CanardTransferTypeBroadcast \<and>
                   destination_node_id \<noteq> canardGetLocalNodeID ins))"

text \<open>\<open>frame->data[frame->data_len - 1]\<close>\<close>

definition frame_tail_byte :: "CanardCANFrame \<Rightarrow> u8 option" where
  "frame_tail_byte frame =
     (if frame_data_len frame = 0 then None
      else nth_opt (frame_data frame) (unat (frame_data_len frame) - 1))"

text \<open>Finding or creating the receive state; \<open>None\<close> is one of the early returns.\<close>

definition rx_lookup ::
  "should_accept \<Rightarrow> CanardInstance \<Rightarrow> CanardCANFrame \<Rightarrow> u8 \<Rightarrow> (ptr \<times> CanardInstance) option" where
  "rx_lookup should_accept ins frame tail_byte =
     (if IS_START_OF_TRANSFER tail_byte then
        (let (accepted, data_type_signature) = should_accept ins (extractDataType (frame_id frame))
               (extractTransferType (frame_id frame)) (SOURCE_ID_FROM_ID (frame_id frame))
         in if accepted then do {
              (rx_state, ins) \<leftarrow> traverseRxStates ins (frame_descriptor frame);
              case rx_state of
                None \<Rightarrow> Some (None, ins)
              | Some a \<Rightarrow> do {
                  al \<leftarrow> set_rx (allocator ins) a
                    (rx_calculated_crc_update (\<lambda>_. crcAddSignature 0xFFFF data_type_signature));
                  Some (Some a, ins\<lparr>allocator := al\<rparr>)
                }
            } else Some (None, ins))
      else do {
        rx_state \<leftarrow> findRxState (allocator ins) (rx_states ins) (frame_descriptor frame);
        Some (rx_state, ins)
      })"

definition need_restart :: "CanardRxState \<Rightarrow> u8 \<Rightarrow> u64 \<Rightarrow> bool" where
  "need_restart r tail_byte timestamp_usec =
     (let not_initialized = (rx_timestamp_usec r = 0);
          tid_timed_out = (timestamp_usec - rx_timestamp_usec r > TRANSFER_TIMEOUT_USEC);
          first_frame = IS_START_OF_TRANSFER tail_byte;
          not_previous_tid = (computeTransferIDForwardDistance (ucast (rx_transfer_id r))
            (TRANSFER_ID_FROM_TAIL_BYTE tail_byte) > 1)
      in not_initialized \<or> tid_timed_out \<or> first_frame \<and> not_previous_tid)"

text \<open>Resolving the state flags; the first component says whether handling goes on.\<close>

definition rx_resolve ::
  "CanardPoolAllocator \<Rightarrow> addr \<Rightarrow> u8 \<Rightarrow> u64 \<Rightarrow> (bool \<times> CanardPoolAllocator) option" where
  "rx_resolve al rx_state tail_byte timestamp_usec = do {
     r \<leftarrow> get_rx al rx_state;
     if need_restart r tail_byte timestamp_usec then do {
       al \<leftarrow> set_rx al rx_state (\<lambda>r. r\<lparr>rx_transfer_id := ucast (TRANSFER_ID_FROM_TAIL_BYTE tail_byte),
                                       rx_next_toggle := False\<rparr>);
       al \<leftarrow> releaseStatePayload al rx_state;
       if \<not> IS_START_OF_TRANSFER tail_byte then do {
         al \<leftarrow> set_rx al rx_state (\<lambda>r. r\<lparr>rx_transfer_id := rx_transfer_id r + 1\<rparr>);
         Some (False, al)
       } else Some (True, al)
     } else Some (True, al)
   }"

text \<open>The members every transfer takes from its last frame.\<close>

definition transfer_of_frame :: "CanardCANFrame \<Rightarrow> u8 \<Rightarrow> u64 \<Rightarrow> CanardRxTransfer" where
  "transfer_of_frame frame tail_byte timestamp_usec =
     \<lparr>xfer_timestamp_usec = timestamp_usec, xfer_payload_head = None, xfer_payload_middle = None,
      xfer_payload_tail = None, xfer_payload_len = 0, xfer_data_type_id = extractDataType (frame_id frame),
      xfer_transfer_type = extractTransferType (frame_id frame),
      xfer_transfer_id = TRANSFER_ID_FROM_TAIL_BYTE tail_byte,
      xfer_priority = PRIORITY_FROM_ID (frame_id frame),
      xfer_source_node_id = SOURCE_ID_FROM_ID (frame_id frame)\<rparr>"

text \<open>The bytes behind the pointer \<open>&xs[n]\<close>.\<close>

definition bytes_from :: "u8 list \<Rightarrow> nat \<Rightarrow> nat \<rightharpoonup> u8" where
  "bytes_from xs n = (\<lambda>i. nth_opt xs (n + i))"

definition rx_single ::
  "'a on_reception \<Rightarrow> 'a \<Rightarrow> CanardInstance \<Rightarrow> addr \<Rightarrow> CanardCANFrame \<Rightarrow> u8 \<Rightarrow> u64 \<Rightarrow>
     ('a \<times> CanardInstance) option" where
  "rx_single on_reception app ins rx_state frame tail_byte timestamp_usec = do {
     al \<leftarrow> set_rx (allocator ins) rx_state (rx_timestamp_usec_update (\<lambda>_. timestamp_usec));
     let rx_transfer = (transfer_of_frame frame tail_byte timestamp_usec)
       \<lparr>xfer_payload_head := Some (bytes_from (frame_data frame) 0),
        xfer_payload_len := ucast (frame_data_len frame - 1)\<rparr>;
     (app, ins, rx_transfer) \<leftarrow> on_reception app (ins\<lparr>allocator := al\<rparr>) rx_transfer;
     al \<leftarrow> prepareForNextTransfer (allocator ins) rx_state;
     Some (app, ins\<lparr>allocator := al\<rparr>)
   }"

text \<open>The common end of a failed store: drop what was stored and wait for the next transfer.\<close>

definition rx_drop :: "CanardPoolAllocator \<Rightarrow> addr \<Rightarrow> CanardPoolAllocator option" where
  "rx_drop al rx_state = do {
     al \<leftarrow> releaseStatePayload al rx_state;
     prepareForNextTransfer al rx_state
   }"

definition flip_toggle :: "CanardPoolAllocator \<Rightarrow> addr \<Rightarrow> CanardPoolAllocator option" where
  "flip_toggle al rx_state = set_rx al rx_state (\<lambda>r. r\<lparr>rx_next_toggle := \<not> rx_next_toggle r\<rparr>)"

definition rx_first ::
  "CanardPoolAllocator \<Rightarrow> addr \<Rightarrow> CanardCANFrame \<Rightarrow> u64 \<Rightarrow> CanardPoolAllocator option" where
  "rx_first al rx_state frame timestamp_usec =
     (if frame_data_len frame \<le> 3 then Some al
      else do {
        al \<leftarrow> set_rx al rx_state (rx_timestamp_usec_update (\<lambda>_. timestamp_usec));
        let data = drop 2 (frame_data frame);
        let data_len = frame_data_len frame - 3;
        (ret, al) \<leftarrow> bufferBlockPushBytes al rx_state data data_len;
        if ret < 0 then rx_drop al rx_state
        else do {
          b0 \<leftarrow> nth_opt (frame_data frame) 0;
          b1 \<leftarrow> nth_opt (frame_data frame) 1;
          r \<leftarrow> get_rx al rx_state;
          crc \<leftarrow> crcAdd_ptr (rx_calculated_crc r) (Some data) (unat data_len);
          al \<leftarrow> set_rx al rx_state (\<lambda>r. r\<lparr>rx_payload_crc := ucast b0 OR push_bit 8 (ucast b1),
                                          rx_calculated_crc := crc\<rparr>);
          flip_toggle al rx_state
        }
      })"

definition rx_middle ::
  "CanardPoolAllocator \<Rightarrow> addr \<Rightarrow> CanardCANFrame \<Rightarrow> CanardPoolAllocator option" where
  "rx_middle al rx_state frame = do {
     let data_len = frame_data_len frame - 1;
     (ret, al) \<leftarrow> bufferBlockPushBytes al rx_state (frame_data frame) data_len;
     if ret < 0 then rx_drop al rx_state
     else do {
       r \<leftarrow> get_rx al rx_state;
       crc \<leftarrow> crcAdd_ptr (rx_calculated_crc r) (Some (frame_data frame)) (unat data_len);
       al \<leftarrow> set_rx al rx_state (rx_calculated_crc_update (\<lambda>_. crc));
       flip_toggle al rx_state
     }
   }"

text \<open>The walk to the last block that keeps the payload offset of the block.\<close>

partial_function (option) last_block_offset ::
  "CanardPoolAllocator \<Rightarrow> addr \<Rightarrow> u32 \<Rightarrow> (addr \<times> u32) option" where
  "last_block_offset al block offset = do {
     b \<leftarrow> get_buf al block;
     case bb_next b of
       None \<Rightarrow> Some (block, offset)
     | Some next \<Rightarrow> last_block_offset al next (offset + of_nat CANARD_BUFFER_BLOCK_DATA_SIZE)
   }"

text \<open>The last frame first fills the head or the last block; the result is \<open>tail_offset\<close>.\<close>

definition rx_store_end ::
  "CanardPoolAllocator \<Rightarrow> addr \<Rightarrow> CanardCANFrame \<Rightarrow> (nat \<times> CanardPoolAllocator) option" where
  "rx_store_end al rx_state frame = do {
     r \<leftarrow> get_rx al rx_state;
     let frame_payload_size = unat (frame_data_len frame - 1);
     if unat (rx_payload_len r) < CANARD_MULTIFRAME_RX_PAYLOAD_HEAD_SIZE then do {
       (tail_offset, head) \<leftarrow> copy_bytes CANARD_MULTIFRAME_RX_PAYLOAD_HEAD_SIZE (unat (rx_payload_len r))
          (frame_data frame) frame_payload_size 0 (rx_buffer_head r);
       al \<leftarrow> set_rx al rx_state (rx_buffer_head_update (\<lambda>_. head));
       Some (tail_offset, al)
     } else case rx_buffer_blocks r of
       None \<Rightarrow> Some (0, al)
     | Some first \<Rightarrow> do {
         (block, offset) \<leftarrow> last_block_offset al first (of_nat CANARD_MULTIFRAME_RX_PAYLOAD_HEAD_SIZE);
         let offset_within_block = ucast (rx_payload_len r) - offset;
         canard_assert (offset_within_block < of_nat CANARD_BUFFER_BLOCK_DATA_SIZE);
         b \<leftarrow> get_buf al block;
         (tail_offset, contents) \<leftarrow> copy_bytes CANARD_BUFFER_BLOCK_DATA_SIZE (unat offset_within_block)
            (frame_data frame) frame_payload_size 0 (bb_data b);
         al \<leftarrow> set_buf al block (bb_data_update (\<lambda>_. contents));
         Some (tail_offset, al)
       }
   }"

definition rx_end ::
  "'a on_reception \<Rightarrow> 'a \<Rightarrow> CanardInstance \<Rightarrow> addr \<Rightarrow> CanardCANFrame \<Rightarrow> u8 \<Rightarrow> u64 \<Rightarrow>
     ('a \<times> CanardInstance) option" where
  "rx_end on_reception app ins rx_state frame tail_byte timestamp_usec = do {
     let frame_payload_size = frame_data_len frame - 1;
     (tail_offset, al) \<leftarrow> rx_store_end (allocator ins) rx_state frame;
     r \<leftarrow> get_rx al rx_state;
     let rx_transfer = (transfer_of_frame frame tail_byte timestamp_usec)
       \<lparr>xfer_payload_head := Some (rx_buffer_head r),
        xfer_payload_middle := rx_buffer_blocks r,
        xfer_payload_tail := (if tail_offset \<ge> unat frame_payload_size then None
                              else Some (bytes_from (frame_data frame) tail_offset)),
        xfer_payload_len := ucast (rx_payload_len r) + ucast frame_payload_size\<rparr>;
     al \<leftarrow> set_rx al rx_state (rx_buffer_blocks_update (\<lambda>_. None));
     crc \<leftarrow> crcAdd_ptr (rx_calculated_crc r) (Some (frame_data frame)) (unat frame_payload_size);
     al \<leftarrow> set_rx al rx_state (rx_calculated_crc_update (\<lambda>_. crc));
     (app, ins, rx_transfer) \<leftarrow>
       (if crc = rx_payload_crc r then on_reception app (ins\<lparr>allocator := al\<rparr>) rx_transfer
        else Some (app, ins\<lparr>allocator := al\<rparr>, rx_transfer));
     (ins, rx_transfer) \<leftarrow> canardReleaseRxTransferPayload ins rx_transfer;
     al \<leftarrow> prepareForNextTransfer (allocator ins) rx_state;
     Some (app, ins\<lparr>allocator := al\<rparr>)
   }"

text \<open>What happens once the receive state is known and its flags are resolved.\<close>

definition rx_dispatch ::
  "'a on_reception \<Rightarrow> 'a \<Rightarrow> CanardInstance \<Rightarrow> addr \<Rightarrow> CanardCANFrame \<Rightarrow> u8 \<Rightarrow> u64 \<Rightarrow>
     ('a \<times> CanardInstance) option" where
  "rx_dispatch on_reception app ins rx_state frame tail_byte timestamp_usec =
     (if IS_START_OF_TRANSFER tail_byte \<and> IS_END_OF_TRANSFER tail_byte then
        rx_single on_reception app ins rx_state frame tail_byte timestamp_usec
      else do {
        r \<leftarrow> get_rx (allocator ins) rx_state;
        if TOGGLE_BIT tail_byte \<noteq> rx_next_toggle r then Some (app, ins)
        else if TRANSFER_ID_FROM_TAIL_BYTE tail_byte \<noteq> ucast (rx_transfer_id r) then Some (app, ins)
        else if IS_START_OF_TRANSFER tail_byte \<and> \<not> IS_END_OF_TRANSFER tail_byte then do {
          al \<leftarrow> rx_first (allocator ins) rx_state frame timestamp_usec;
          Some (app, ins\<lparr>allocator := al\<rparr>)
        }
        else if \<not> IS_START_OF_TRANSFER tail_byte \<and> \<not> IS_END_OF_TRANSFER tail_byte then do {
          al \<leftarrow> rx_middle (allocator ins) rx_state frame;
          Some (app, ins\<lparr>allocator := al\<rparr>)
        }
        else rx_end on_reception app ins rx_state frame tail_byte timestamp_usec
      })"

definition canardHandleRxFrame ::
  "should_accept \<Rightarrow> 'a on_reception \<Rightarrow> 'a \<Rightarrow> CanardInstance \<Rightarrow> CanardCANFrame \<Rightarrow> u64 \<Rightarrow>
     ('a \<times> CanardInstance) option" where
  "canardHandleRxFrame should_accept on_reception app ins frame timestamp_usec =
     (if \<not> frame_for_node ins frame then Some (app, ins)
      else do {
        tail_byte \<leftarrow> frame_tail_byte frame;
        (rx_state, ins) \<leftarrow> rx_lookup should_accept ins frame tail_byte;
        case rx_state of
          None \<Rightarrow> Some (app, ins)
        | Some a \<Rightarrow> do {
            (go_on, al) \<leftarrow> rx_resolve (allocator ins) a tail_byte timestamp_usec;
            if \<not> go_on then Some (app, ins\<lparr>allocator := al\<rparr>)
            else rx_dispatch on_reception app (ins\<lparr>allocator := al\<rparr>) a frame tail_byte timestamp_usec
          }
      })"

section \<open>Stale transfers\<close>

partial_function (option) cleanup_loop ::
  "CanardInstance \<Rightarrow> u64 \<Rightarrow> ptr \<Rightarrow> ptr \<Rightarrow> CanardInstance option" where
  "cleanup_loop ins current_time_usec prev state =
     (case state of
        None \<Rightarrow> Some ins
      | Some a \<Rightarrow> do {
          r \<leftarrow> get_rx (allocator ins) a;
          if current_time_usec - rx_timestamp_usec r > TRANSFER_TIMEOUT_USEC then
            (if state = rx_states ins then do {
               al \<leftarrow> releaseStatePayload (allocator ins) a;
               head \<leftarrow> get_rx al a;
               let next = rx_next head;
               al \<leftarrow> freeBlock al (Some a);
               cleanup_loop (ins\<lparr>allocator := al, rx_states := next\<rparr>) current_time_usec next next
             } else do {
               al \<leftarrow> releaseStatePayload (allocator ins) a;
               p \<leftarrow> prev;
               s \<leftarrow> get_rx al a;
               al \<leftarrow> set_rx al p (rx_next_update (\<lambda>_. rx_next s));
               al \<leftarrow> freeBlock al (Some a);
               q \<leftarrow> get_rx al p;
               cleanup_loop (ins\<lparr>allocator := al\<rparr>) current_time_usec prev (rx_next q)
             })
          else cleanup_loop ins current_time_usec state (rx_next r)
        })"

definition canardCleanupStaleTransfers :: "CanardInstance \<Rightarrow> u64 \<Rightarrow> CanardInstance option" where
  "canardCleanupStaleTransfers ins current_time_usec =
     cleanup_loop ins current_time_usec (rx_states ins) (rx_states ins)"

end
