(* ===== verification/Canard_RxStore.thy ===== *)
theory Canard_RxStore
  imports Canard_Rx
begin

text \<open>
  One receive state and its buffer blocks: what releasing, storing and completing do to them, for
  any use of the rest of the arena. \<open>entry_inv al fs R a r bs\<close> describes the state \<open>r\<close> at address \<open>a\<close>
  with the blocks \<open>bs\<close>; \<open>fs\<close> are the free blocks and \<open>R\<close> all other blocks in use, which no operation
  touches (\<open>same_on\<close>).
\<close>

section \<open>A receive state with its blocks\<close>

definition entry_inv ::
  "CanardPoolAllocator \<Rightarrow> addr list \<Rightarrow> addr set \<Rightarrow> addr \<Rightarrow> CanardRxState \<Rightarrow> buffer_chain \<Rightarrow> bool" where
  "entry_inv al fs R a r bs \<longleftrightarrow>
     pool_inv al fs (insert a (R \<union> set (addrs bs))) \<and>
     a \<notin> R \<and> a \<notin> set (addrs bs) \<and> R \<inter> set (addrs bs) = {} \<and>
     arena al a = Some (RxBlock r) \<and> chain (buf_view (arena al)) (rx_buffer_blocks r) bs"

definition same_on :: "addr set \<Rightarrow> CanardPoolAllocator \<Rightarrow> CanardPoolAllocator \<Rightarrow> bool" where
  "same_on R al al' \<longleftrightarrow> (\<forall>c \<in> R. arena al' c = arena al c)"

lemma same_on_refl [simp]: "same_on R al al"
  by (simp add: same_on_def)

lemma same_on_trans: "same_on R al al' \<Longrightarrow> same_on R al' al'' \<Longrightarrow> same_on R al al''"
  by (simp add: same_on_def)

lemma entry_get_rx: "entry_inv al fs R a r bs \<Longrightarrow> get_rx al a = Some r"
  by (simp add: entry_inv_def get_rx_def)

lemma entry_set_rx:
  assumes "entry_inv al fs R a r bs" and "rx_buffer_blocks (f r) = rx_buffer_blocks r"
  shows "returns (set_rx al a f) (\<lambda>al'. entry_inv al' fs R a (f r) bs \<and> same_on R al al')"
proof -
  have "pool_inv (put_block al a (RxBlock (f r))) fs (insert a (R \<union> set (addrs bs)))"
    using assms(1) by (intro pool_inv_put) (auto simp: entry_inv_def)
  with assms show ?thesis
    by (auto simp: set_rx_def entry_get_rx [OF assms(1)] entry_inv_def same_on_def)
qed

text \<open>The last block of the chain.\<close>

lemma entry_get_last:
  assumes "entry_inv al fs R a r (bs @ [(b, d)])"
  shows "get_buf al b = Some \<lparr>bb_next = None, bb_data = d\<rparr>"
  using assms by (auto simp: entry_inv_def segment_append buf_view_get)

lemma entry_set_last:
  assumes "entry_inv al fs R a r (bs @ [(b, d)])"
  shows "returns (set_buf al b (bb_data_update (\<lambda>_. d')))
    (\<lambda>al'. entry_inv al' fs R a r (bs @ [(b, d')]) \<and> same_on R al al')"
proof -
  have dist: "b \<notin> set (addrs bs)"
    using chain_distinct [of "buf_view (arena al)" "rx_buffer_blocks r" "bs @ [(b, d)]"] assms
    by (simp add: entry_inv_def)
  let ?al = "put_block al b (BufBlock \<lparr>bb_next = None, bb_data = d'\<rparr>)"
  have "pool_inv ?al fs (insert a (R \<union> set (addrs (bs @ [(b, d)]))))"
    using assms by (intro pool_inv_put) (auto simp: entry_inv_def)
  with assms dist have "entry_inv ?al fs R a r (bs @ [(b, d')])"
    by (auto simp: entry_inv_def segment_append)
  moreover have "same_on R al ?al"
    using assms by (auto simp: entry_inv_def same_on_def)
  ultimately show ?thesis
    by (simp add: set_buf_def entry_get_last [OF assms])
qed

lemma createBufferBlock_none: "pool_inv al [] U \<Longrightarrow> createBufferBlock al = Some (None, al)"
  by (simp add: createBufferBlock_def pool.alloc_empty)

lemma createBufferBlock_some:
  "pool_inv al (f # fs) U \<Longrightarrow> \<exists>al'. createBufferBlock al = Some (Some f, al') \<and>
     arena al' = (arena al)(f \<mapsto> BufBlock \<lparr>bb_next = None, bb_data = Map.empty\<rparr>) \<and>
     f \<notin> U \<and> pool_inv al' fs (insert f U)"
  using pool.new_object [of al f fs U] by (auto simp: createBufferBlock_def)

lemma entry_append_block:
  assumes inv: "entry_inv al fs R a r (bs @ [(b, d)])"
  shows "returns (append_block al b) (\<lambda>(next, al').
    next = (case fs of [] \<Rightarrow> None | f # _ \<Rightarrow> Some f) \<and> same_on R al al' \<and>
    (case fs of [] \<Rightarrow> entry_inv al' [] R a r (bs @ [(b, d)])
     | f # fs' \<Rightarrow> entry_inv al' fs' R a r ((bs @ [(b, d)]) @ [(f, Map.empty)])))"
proof (cases fs)
  case Nil
  have pool: "pool_inv al [] (insert a (R \<union> set (addrs (bs @ [(b, d)]))))"
    using inv Nil by (simp add: entry_inv_def)
  have idem: "put_block al b (BufBlock \<lparr>bb_next = None, bb_data = d\<rparr>) = al"
    using entry_get_last [OF inv]
    by (auto simp: put_block_def get_buf_def fun_upd_idem split: option.splits
        CanardPoolAllocatorBlock.splits)
  have "append_block al b = Some (None, al)"
    unfolding append_block_def createBufferBlock_none [OF pool]
    by (simp add: set_buf_def entry_get_last [OF inv] idem)
  then show ?thesis using inv Nil by simp
next
  case (Cons f fs')
  let ?U = "insert a (R \<union> set (addrs (bs @ [(b, d)])))"
  have pool: "pool_inv al (f # fs') ?U"
    using inv Cons by (simp add: entry_inv_def)
  obtain al' where al': "createBufferBlock al = Some (Some f, al')"
      "arena al' = (arena al)(f \<mapsto> BufBlock \<lparr>bb_next = None, bb_data = Map.empty\<rparr>)"
      "f \<notin> ?U" "pool_inv al' fs' (insert f ?U)"
    using createBufferBlock_some [OF pool] by blast
  have dist: "b \<notin> set (addrs bs)"
    using chain_distinct [of "buf_view (arena al)" "rx_buffer_blocks r" "bs @ [(b, d)]"] inv
    by (simp add: entry_inv_def)
  let ?al = "put_block al' b (BufBlock \<lparr>bb_next = Some f, bb_data = d\<rparr>)"
  have g: "get_buf al' b = Some \<lparr>bb_next = None, bb_data = d\<rparr>"
    using entry_get_last [OF inv] al'(2,3) by (auto simp: get_buf_def)
  have pool': "pool_inv ?al fs' (insert f ?U)"
    by (rule pool_inv_put [OF al'(4)]) simp
  have "entry_inv ?al fs' R a r ((bs @ [(b, d)]) @ [(f, Map.empty)])"
    using inv pool' al'(2,3) dist
    by (auto simp: entry_inv_def segment_append insert_commute)
  moreover have "same_on R al ?al"
    using inv al'(2,3) by (auto simp: entry_inv_def same_on_def)
  ultimately show ?thesis
    using al'(1) g Cons by (simp add: append_block_def set_buf_def)
qed

section \<open>Releasing\<close>

lemma no_blocks_id: "rx_buffer_blocks r = None \<Longrightarrow> r\<lparr>rx_buffer_blocks := None\<rparr> = r"
  by (cases r) simp

lemma entry_release_loop:
  "entry_inv al fs R a r bs \<Longrightarrow> returns (releaseState_loop al a)
     (\<lambda>al'. entry_inv al' (rev (addrs bs) @ fs) R a (r\<lparr>rx_buffer_blocks := None\<rparr>) [] \<and> same_on R al al')"
proof (induction bs arbitrary: al fs r)
  case Nil
  then have "rx_buffer_blocks r = None" by (simp add: entry_inv_def)
  with Nil show ?case
    by (subst releaseState_loop.simps) (simp add: entry_get_rx no_blocks_id)
next
  case (Cons x bs)
  obtain b d where x: "x = (b, d)" by (cases x)
  have dist: "b \<notin> set (addrs bs)"
    using chain_distinct [of "buf_view (arena al)" "rx_buffer_blocks r" "x # bs"] Cons.prems x
    by (simp add: entry_inv_def)
  from Cons.prems x obtain q where q: "rx_buffer_blocks r = Some b" "buf_view (arena al) b = Some (q, d)"
      "chain (buf_view (arena al)) q bs"
    by (auto simp: entry_inv_def)
  let ?U = "insert a (R \<union> set (addrs (x # bs)))"
  have pool: "pool_inv al fs ?U" and b: "b \<in> ?U"
    using Cons.prems x by (simp_all add: entry_inv_def)
  obtain al1 where al1: "freeBlock al (Some b) = Some al1" "pool_inv al1 (b # fs) (?U - {b})"
      "\<forall>c. c \<noteq> b \<longrightarrow> arena al1 c = arena al c"
    using pool.release_block [OF pool b] by blast
  let ?r = "r\<lparr>rx_buffer_blocks := q\<rparr>"
  let ?al2 = "put_block al1 a (RxBlock ?r)"
  have ab: "a \<noteq> b" "b \<notin> R" "a \<notin> R" "a \<notin> set (addrs bs)" "R \<inter> set (addrs bs) = {}"
    using Cons.prems x by (auto simp: entry_inv_def)
  have g1: "get_rx al1 a = Some r"
    using al1(3) ab entry_get_rx [OF Cons.prems] by (simp add: get_rx_def)
  have U: "?U - {b} = insert a (R \<union> set (addrs bs))"
    using x ab dist by auto
  have "chain (buf_view (arena al1)) q bs = chain (buf_view (arena al)) q bs"
    using al1(3) dist by (intro buf_agree) auto
  then have ent: "entry_inv ?al2 (b # fs) R a ?r bs"
    using al1(2) ab q(3) pool_inv_put [of al1 "b # fs" "?U - {b}" a] unfolding U
    by (simp add: entry_inv_def)
  have same: "same_on R al ?al2"
    using al1(3) ab by (auto simp: same_on_def)
  have step: "releaseState_loop al a = releaseState_loop ?al2 a"
    by (subst releaseState_loop.simps)
       (use q(1,2) al1(1) g1 in \<open>simp add: entry_get_rx [OF Cons.prems] buf_view_get set_rx_def\<close>)
  show ?case
    unfolding step using same x
    by (intro returns_mono [OF Cons.IH [OF ent]]) (auto intro: same_on_trans)
qed

lemma entry_release:
  assumes "entry_inv al fs R a r bs"
  shows "returns (releaseStatePayload al a) (\<lambda>al'.
    entry_inv al' (rev (addrs bs) @ fs) R a (r\<lparr>rx_buffer_blocks := None, rx_payload_len := 0\<rparr>) [] \<and>
    same_on R al al')"
  unfolding releaseStatePayload_def
proof (rule returns_then [OF entry_release_loop [OF assms]], elim conjE)
  fix al1
  assume "entry_inv al1 (rev (addrs bs) @ fs) R a (r\<lparr>rx_buffer_blocks := None\<rparr>) []" and s: "same_on R al al1"
  from entry_set_rx [OF this(1), of "rx_payload_len_update (\<lambda>_. 0)"] s
  show "returns (set_rx al1 a (rx_payload_len_update (\<lambda>_. 0))) (\<lambda>al'.
      entry_inv al' (rev (addrs bs) @ fs) R a (r\<lparr>rx_buffer_blocks := None, rx_payload_len := 0\<rparr>) [] \<and>
      same_on R al al')"
    by (auto elim!: returns_mono intro: same_on_trans)
qed

lemma entry_prepare:
  assumes "entry_inv al fs R a r bs" and "rx_buffer_blocks r = None"
  shows "returns (prepareForNextTransfer al a) (\<lambda>al'.
    entry_inv al' fs R a (r\<lparr>rx_transfer_id := rx_transfer_id r + 1, rx_payload_len := 0,
      rx_next_toggle := False\<rparr>) bs \<and> same_on R al al')"
  using entry_set_rx [OF assms(1), of "\<lambda>r. r\<lparr>rx_transfer_id := rx_transfer_id r + 1, rx_payload_len := 0,
      rx_next_toggle := False\<rparr>"] assms(2)
  by (simp add: prepareForNextTransfer_def entry_get_rx [OF assms(1)])

lemma entry_drop:
  assumes "entry_inv al fs R a r bs"
  shows "returns (rx_drop al a) (\<lambda>al'.
    entry_inv al' (rev (addrs bs) @ fs) R a (r\<lparr>rx_buffer_blocks := None,
      rx_transfer_id := rx_transfer_id r + 1, rx_payload_len := 0, rx_next_toggle := False\<rparr>) [] \<and> same_on R al al')"
  unfolding rx_drop_def
proof (rule returns_then [OF entry_release [OF assms]], elim conjE)
  fix al1
  assume "entry_inv al1 (rev (addrs bs) @ fs) R a (r\<lparr>rx_buffer_blocks := None, rx_payload_len := 0\<rparr>) []"
    and s: "same_on R al al1"
  from entry_prepare [OF this(1)] s
  show "returns (prepareForNextTransfer al1 a) (\<lambda>al'.
      entry_inv al' (rev (addrs bs) @ fs) R a (r\<lparr>rx_buffer_blocks := None,
      rx_transfer_id := rx_transfer_id r + 1, rx_payload_len := 0, rx_next_toggle := False\<rparr>) [] \<and> same_on R al al')"
    by (auto elim!: returns_mono intro: same_on_trans)
qed

lemma release_transfer_loop:
  "pool_inv al fs U \<Longrightarrow> chain (buf_view (arena al)) (xfer_payload_middle t) bs \<Longrightarrow> set (addrs bs) \<subseteq> U \<Longrightarrow>
     returns (releaseTransfer_loop al t) (\<lambda>(al', t').
       t' = t\<lparr>xfer_payload_middle := None\<rparr> \<and> pool_inv al' (rev (addrs bs) @ fs) (U - set (addrs bs)) \<and>
       same_on (- set (addrs bs)) al al')"
proof (induction bs arbitrary: al fs U t)
  case Nil
  then show ?case by (subst releaseTransfer_loop.simps) simp
next
  case (Cons x bs)
  obtain b d where x: "x = (b, d)" by (cases x)
  from Cons.prems(2) x obtain q where q: "xfer_payload_middle t = Some b"
      "buf_view (arena al) b = Some (q, d)" "chain (buf_view (arena al)) q bs"
    by auto
  have dist: "b \<notin> set (addrs bs)"
    using chain_distinct [OF Cons.prems(2)] x by simp
  have b: "b \<in> U" using Cons.prems(3) x by simp
  obtain al1 where al1: "freeBlock al (Some b) = Some al1" "pool_inv al1 (b # fs) (U - {b})"
      "\<forall>c. c \<noteq> b \<longrightarrow> arena al1 c = arena al c"
    using pool.release_block [OF Cons.prems(1) b] by blast
  have "chain (buf_view (arena al1)) q bs = chain (buf_view (arena al)) q bs"
    using al1(3) dist by (intro buf_agree) auto
  then have ch: "chain (buf_view (arena al1)) (xfer_payload_middle (t\<lparr>xfer_payload_middle := q\<rparr>)) bs"
    using q(3) by simp
  have sub: "set (addrs bs) \<subseteq> U - {b}" using Cons.prems(3) x dist by auto
  have step: "releaseTransfer_loop al t = releaseTransfer_loop al1 (t\<lparr>xfer_payload_middle := q\<rparr>)"
    by (subst releaseTransfer_loop.simps) (use q(1,2) al1(1) in \<open>simp add: buf_view_get\<close>)
  have U: "U - set (addrs (x # bs)) = U - {b} - set (addrs bs)" using x by auto
  show ?case
    unfolding step U using x al1(3)
    by (intro returns_mono [OF Cons.IH [OF al1(2) ch sub]]) (auto simp: same_on_def)
qed

section \<open>Copying\<close>

lemma copy_bytes_eq:
  assumes "n \<le> length data" and "di \<le> n"
  shows "copy_bytes limit i data n di m =
    Some (di + min (limit - i) (n - di),
          \<lambda>j. if i \<le> j \<and> j < i + min (limit - i) (n - di) then Some (data ! (di + (j - i))) else m j)"
  using assms
proof (induction "limit - i" arbitrary: i di m)
  case 0
  then show ?case by (subst copy_bytes.simps) (auto simp: fun_eq_iff)
next
  case (Suc k)
  show ?case
  proof (cases "di < n")
    case False
    with Suc.prems show ?thesis by (subst copy_bytes.simps) (auto simp: fun_eq_iff)
  next
    case True
    let ?m = "m(i \<mapsto> data ! di)"
    have lt: "i < limit" and k: "k = limit - Suc i" using Suc.hyps(2) by simp_all
    have "copy_bytes limit i data n di m = copy_bytes limit (Suc i) data n (Suc di) ?m"
      using True lt Suc.prems by (subst copy_bytes.simps) simp
    also have "\<dots> = Some (Suc di + min (limit - Suc i) (n - Suc di),
        \<lambda>j. if Suc i \<le> j \<and> j < Suc i + min (limit - Suc i) (n - Suc di)
            then Some (data ! (Suc di + (j - Suc i))) else ?m j)"
      using True k Suc.prems by (intro Suc.hyps(1)) auto
    also have "\<dots> = Some (di + min (limit - i) (n - di),
        \<lambda>j. if i \<le> j \<and> j < i + min (limit - i) (n - di) then Some (data ! (di + (j - i))) else m j)"
    proof -
      have "min (limit - i) (n - di) = Suc (min (limit - Suc i) (n - Suc di))"
        using True lt by simp
      then show ?thesis
        by (auto simp: fun_eq_iff Suc_diff_Suc not_less_eq_eq le_Suc_eq)
    qed
    finally show ?thesis .
  qed
qed

section \<open>Stored payload\<close>

text \<open>Byte \<open>i\<close> of what the blocks hold is in block \<open>i div 28\<close> at offset \<open>i mod 28\<close>.\<close>

definition buf_holds :: "buffer_chain \<Rightarrow> u8 list \<Rightarrow> bool" where
  "buf_holds bs s \<longleftrightarrow>
     (\<forall>i < length s. i div 28 < length bs \<and> snd (bs ! (i div 28)) (i mod 28) = Some (s ! i)) \<and>
     (bs \<noteq> [] \<longrightarrow> 28 * (length bs - 1) \<le> length s)"

lemma buf_holds_Nil [simp]: "buf_holds [] s \<longleftrightarrow> s = []"
  by (auto simp: buf_holds_def)

lemma buf_holds_le: "buf_holds bs s \<Longrightarrow> length s \<le> 28 * length bs"
proof (rule ccontr)
  assume h: "buf_holds bs s" and "\<not> length s \<le> 28 * length bs"
  then have "28 * length bs < length s" by simp
  with h have "28 * length bs div 28 < length bs"
    unfolding buf_holds_def by blast
  then show False by simp
qed

lemma buf_holds_ge: "buf_holds (bs @ [x]) s \<Longrightarrow> 28 * length bs \<le> length s"
  by (simp add: buf_holds_def)

lemma buf_holds_grow:
  assumes "buf_holds (bs @ [(b, d)]) s"
    and idx: "length s = 28 * length bs + idx" and fit: "idx + length t \<le> 28"
    and keep: "\<And>j. j < idx \<Longrightarrow> d' j = d j"
    and new: "\<And>j. j < length t \<Longrightarrow> d' (idx + j) = Some (t ! j)"
  shows "buf_holds (bs @ [(b, d')]) (s @ t)"
  unfolding buf_holds_def
proof (intro conjI allI impI)
  fix i assume i: "i < length (s @ t)"
  then have lt: "i < 28 * length bs + 28" using idx fit by simp
  then show "i div 28 < length (bs @ [(b, d')])"
    by (simp add: less_mult_imp_div_less)
  show "snd ((bs @ [(b, d')]) ! (i div 28)) (i mod 28) = Some ((s @ t) ! i)"
  proof (cases "i < 28 * length bs")
    case True
    then have "i div 28 < length bs" by (simp add: less_mult_imp_div_less)
    moreover have "i < length s" using True idx by simp
    ultimately show ?thesis
      using assms(1) by (auto simp: buf_holds_def nth_append)
  next
    case False
    then obtain j where j: "i = 28 * length bs + j" "j < 28"
      using lt by (metis add_less_cancel_left le_Suc_ex not_less)
    then have blk: "snd ((bs @ [(b, d')]) ! (i div 28)) (i mod 28) = d' j" by simp
    show ?thesis
    proof (cases "i < length s")
      case True
      then have "snd ((bs @ [(b, d)]) ! (i div 28)) (i mod 28) = Some (s ! i)"
        using assms(1) unfolding buf_holds_def by blast
      then have "d j = Some (s ! i)" using j by simp
      moreover have "j < idx" using True j(1) idx by simp
      ultimately show ?thesis unfolding blk using True keep by (simp add: nth_append)
    next
      case False
      then obtain k where k: "i = length s + k" by (metis le_Suc_ex not_less)
      then have jk: "j = idx + k" "k < length t" using j(1) idx i by simp_all
      then have "d' j = Some (t ! k)" using new by simp
      then show ?thesis unfolding blk using k by (simp add: nth_append)
    qed
  qed
qed (use assms(1) in \<open>auto simp: buf_holds_def\<close>)

lemma buf_holds_new_block:
  assumes "buf_holds bs s" and "length s = 28 * length bs"
  shows "buf_holds (bs @ [(f, Map.empty)]) s"
  using assms by (auto simp: buf_holds_def nth_append)

lemma take_drop_join:
  assumes "di + k \<le> n"
  shows "take k (drop di xs) @ drop (di + k) (take n xs) = drop di (take n xs)"
proof -
  have "take k (drop di (take n xs)) = take k (drop di xs)"
    using assms by (simp add: drop_take min_def)
  moreover have "drop k (drop di (take n xs)) = drop (di + k) (take n xs)"
    by (simp add: add.commute)
  ultimately show ?thesis
    by (metis append_take_drop_id)
qed

lemma pushBytes_loop_correct:
  assumes "entry_inv al fs R a r (bs @ [(b, d)])" and "buf_holds (bs @ [(b, d)]) s"
    and "length s = 28 * length bs + idx" and "idx < 28" and "di \<le> n" and "n \<le> length data"
  shows "returns (pushBytes_loop al b idx data n di) (\<lambda>(ok, al'). \<exists>bs' k.
    entry_inv al' (drop k fs) R a r bs' \<and> same_on R al al' \<and> k \<le> length fs \<and>
    length bs' = length bs + 1 + k \<and>
    (if ok then buf_holds bs' (s @ drop di (take n data))
     else k = length fs \<and> 28 * length bs' < length s + (n - di)))"
  using assms
proof (induction "n - di" arbitrary: al fs bs b d s idx di rule: less_induct)
  case less
  show ?case
  proof (cases "di < n")
    case False
    then have "pushBytes_loop al b idx data n di = Some (True, al)"
      by (subst pushBytes_loop.simps) simp
    then show ?thesis
      using less.prems False by (auto intro!: exI [of _ "bs @ [(b, d)]"] exI [of _ 0])
  next
    case lt: True
    define k where "k = min (28 - idx) (n - di)"
    define d' where "d' = (\<lambda>j. if idx \<le> j \<and> j < idx + k then Some (data ! (di + (j - idx))) else d j)"
    let ?t = "take k (drop di data)"
    have k: "0 < k" "di + k \<le> n" "idx + k \<le> 28" "di + k < n \<Longrightarrow> idx + k = 28"
      using lt less.prems(4) by (auto simp: k_def)
    have lk: "length ?t = k" using k(2) less.prems(6) by simp
    have cp: "copy_bytes 28 idx data n di d = Some (di + k, d')"
      using copy_bytes_eq [OF less.prems(6,5), of 28 idx d] by (simp add: k_def d'_def)
    have hold: "buf_holds (bs @ [(b, d')]) (s @ ?t)"
      using less.prems(2,3) k(2,3) lk less.prems(6)
      by (intro buf_holds_grow [where d = d and idx = idx]) (auto simp: d'_def)
    obtain al1 where al1: "set_buf al b (bb_data_update (\<lambda>_. d')) = Some al1"
        "entry_inv al1 fs R a r (bs @ [(b, d')])" "same_on R al al1"
      using entry_set_last [OF less.prems(1)] by (rule returnsE) blast
    note unfold = pushBytes_loop.simps [of al b idx data n di] entry_get_last [OF less.prems(1)] cp al1(1) lt
    show ?thesis
    proof (cases "di + k < n")
      case False
      then have dk: "di + k = n" using k(2) by simp
      then have "pushBytes_loop al b idx data n di = pushBytes_loop al1 b idx data n n"
        by (subst unfold(1)) (simp add: unfold(2-))
      also have "\<dots> = Some (True, al1)"
        by (subst pushBytes_loop.simps) simp
      finally show ?thesis
        using al1 hold dk less.prems(6)
        by (auto intro!: exI [of _ "bs @ [(b, d')]"] exI [of _ 0] simp: drop_take)
    next
      case True
      have full: "length (s @ ?t) = 28 * length (bs @ [(b, d')])"
        using less.prems(3) lk k(4) [OF True] by simp
      obtain next_block al2 where al2: "append_block al1 b = Some (next_block, al2)" "same_on R al1 al2"
          "next_block = (case fs of [] \<Rightarrow> None | f # _ \<Rightarrow> Some f)"
          "case fs of [] \<Rightarrow> entry_inv al2 [] R a r (bs @ [(b, d')])
           | f # fs' \<Rightarrow> entry_inv al2 fs' R a r ((bs @ [(b, d')]) @ [(f, Map.empty)])"
        using entry_append_block [OF al1(2)] by (rule returnsE) auto
      have same: "same_on R al al2" using al1(3) al2(2) by (rule same_on_trans)
      show ?thesis
      proof (cases fs)
        case Nil
        then have "pushBytes_loop al b idx data n di = Some (False, al2)"
          using True al2(1,3) by (subst unfold(1)) (simp add: unfold(2-))
        then show ?thesis
          using Nil al2(4) same full lk True k
          by (auto intro!: exI [of _ "bs @ [(b, d')]"] exI [of _ 0])
      next
        case (Cons f fs')
        have step: "pushBytes_loop al b idx data n di = pushBytes_loop al2 f 0 data n (di + k)"
          using True al2(1,3) Cons by (subst unfold(1)) (simp add: unfold(2-))
        have "returns (pushBytes_loop al2 f 0 data n (di + k)) (\<lambda>(ok, al'). \<exists>bs' k'.
            entry_inv al' (drop k' fs') R a r bs' \<and> same_on R al2 al' \<and> k' \<le> length fs' \<and>
            length bs' = length (bs @ [(b, d')]) + 1 + k' \<and>
            (if ok then buf_holds bs' ((s @ ?t) @ drop (di + k) (take n data))
             else k' = length fs' \<and> 28 * length bs' < length (s @ ?t) + (n - (di + k))))"
          using al2(4) Cons buf_holds_new_block [OF hold full, of f] full k lt less.prems(6)
          by (intro less.hyps) auto
        then show ?thesis
          unfolding step
        proof (rule returns_mono, clarify)
          fix ok al' bs' k'
          assume h: "entry_inv al' (drop k' fs') R a r bs'" "same_on R al2 al'" "k' \<le> length fs'"
            "length bs' = length (bs @ [(b, d')]) + 1 + k'"
            "if ok then buf_holds bs' ((s @ ?t) @ drop (di + k) (take n data))
             else k' = length fs' \<and> 28 * length bs' < length (s @ ?t) + (n - (di + k))"
          have "?t @ drop (di + k) (take n data) = drop di (take n data)"
            using k(2) by (rule take_drop_join)
          then show "\<exists>bs' k. entry_inv al' (drop k fs) R a r bs' \<and> same_on R al al' \<and> k \<le> length fs \<and>
              length bs' = length bs + 1 + k \<and>
              (if ok then buf_holds bs' (s @ drop di (take n data))
               else k = length fs \<and> 28 * length bs' < length s + (n - di))"
            using h same lk k(2) Cons
            by (intro exI [of _ bs'] exI [of _ "Suc k'"]) (auto intro: same_on_trans)
        qed
      qed
    qed
  qed
qed

section \<open>The current block\<close>

lemma last_block_chain:
  "chain (buf_view (arena al)) (Some first) (bs @ [(b, d)]) \<Longrightarrow>
     last_block al first c0 = Some (b, c0 + of_nat (length bs))"
proof (induction bs arbitrary: first c0)
  case Nil
  then have "get_buf al b = Some \<lparr>bb_next = None, bb_data = d\<rparr>" "first = b"
    by (auto simp: buf_view_get)
  then show ?case by (subst last_block.simps) simp
next
  case (Cons x bs)
  obtain c e where x: "x = (c, e)" by (cases x)
  with Cons.prems obtain q where "first = c" "buf_view (arena al) c = Some (q, e)"
      "chain (buf_view (arena al)) q (bs @ [(b, d)])"
    by auto
  moreover from this(3) obtain n where "q = Some n" by (cases bs) auto
  ultimately have "get_buf al first = Some \<lparr>bb_next = Some n, bb_data = e\<rparr>"
      "chain (buf_view (arena al)) (Some n) (bs @ [(b, d)])"
    by (simp_all add: buf_view_get)
  with Cons.IH [of n "c0 + 1"] show ?case
    by (subst last_block.simps) (simp add: add.assoc)
qed

lemma unat_of_nat_small:
  assumes "n < 2 ^ LENGTH('a)"
  shows "unat (of_nat n :: 'a::len word) = n"
  using assms by (simp add: unat_of_nat)

lemma unat10_less: "unat (len :: 10 word) < 1024"
proof -
  have "unat len < 2 ^ LENGTH(10)" by (rule unsigned_less)
  then show ?thesis by simp
qed

lemma block_index:
  assumes "unat (len :: 10 word) = 6 + m"
  shows "unat (ucast ((ucast len - 6 :: u32) mod 28) :: u8) = m mod 28"
proof -
  have m: "m < 1024" using assms unat10_less [of len] by simp
  have "(ucast len :: u32) = of_nat (6 + m)"
    by (metis assms of_nat_unat)
  then have "ucast len - 6 = (of_nat m :: u32)" by simp
  then have "unat ((ucast len - 6 :: u32) mod 28) = m mod 28"
    using m by (simp add: unat_mod unat_of_nat)
  then show ?thesis
    by (simp add: unsigned_ucast_eq take_bit_eq_mod)
qed

lemma block_count:
  assumes "unat (len :: 10 word) = 6 + m" and "m + unat (n :: u8) < 2048"
  shows "unat (ucast ((ucast len + ucast n - 6 :: u32) div 28 + 1) :: u8) = (m + unat n) div 28 + 1"
proof -
  have "(ucast len :: u32) = of_nat (6 + m)" "(ucast n :: u32) = of_nat (unat n)"
    by (metis assms(1) of_nat_unat, simp)
  then have "ucast len + ucast n - 6 = (of_nat (m + unat n) :: u32)" by simp
  then have "unat ((ucast len + ucast n - 6 :: u32) div 28) = (m + unat n) div 28"
    using assms(2) by (simp add: unat_div unat_of_nat del: of_nat_add)
  moreover have "(m + unat n) div 28 < 74" using assms(2) by simp
  ultimately show ?thesis
    by (simp add: unsigned_ucast_eq take_bit_eq_mod unat_word_ariths)
qed

lemma block_full_iff:
  assumes "28 * l \<le> m" and "m \<le> 28 * l + 28" and "n < 28"
  shows "(m + n) div 28 > l \<and> m mod 28 = 0 \<longleftrightarrow> m = 28 * l + (28 :: nat)"
proof
  assume h: "(m + n) div 28 > l \<and> m mod 28 = 0"
  then obtain j where j: "m = 28 * j" by auto
  then have "j = l \<or> j = Suc l" using assms by auto
  moreover have "j \<noteq> l" using h j assms(3) by auto
  ultimately show "m = 28 * l + 28" using j by simp
qed simp

lemma block_partial_index:
  assumes "28 * l \<le> m" and "m \<le> 28 * l + 28" and "m \<noteq> 28 * l + (28 :: nat)"
  shows "m = 28 * l + m mod 28"
proof -
  have "m div 28 = l" using assms by (intro div_nat_eqI) simp_all
  then show ?thesis using mult_div_mod_eq [of 28 m] by simp
qed

lemma current_block_correct:
  assumes inv: "entry_inv al fs R a r bs" and hold: "buf_holds bs (drop 6 p)"
    and len: "unat (rx_payload_len r) = length p" and head: "bs \<noteq> [] \<Longrightarrow> 6 \<le> length p"
    and n: "unat n < 28"
  shows "returns (current_block al a n) (\<lambda>(position, al'). \<exists>q. same_on R al al' \<and>
    (case position of
       None \<Rightarrow> fs = [] \<and> entry_inv al' [] R a (r\<lparr>rx_buffer_blocks := q\<rparr>) bs \<and> 28 * length bs = length p - 6
     | Some (b, idx) \<Rightarrow> \<exists>k bs1 d. k \<le> length fs \<and> entry_inv al' (drop k fs) R a (r\<lparr>rx_buffer_blocks := q\<rparr>) (bs1 @ [(b, d)]) \<and>
         length bs1 + 1 = length bs + k \<and> buf_holds (bs1 @ [(b, d)]) (drop 6 p) \<and>
         length p - 6 = 28 * length bs1 + idx \<and> idx < 28))"
proof (cases bs rule: rev_cases)
  case Nil
  then have p6: "length p \<le> 6" and nb: "rx_buffer_blocks r = None"
    using hold inv by (auto simp: entry_inv_def)
  show ?thesis
  proof (cases fs)
    case fs: Nil
    have "pool_inv al [] (insert a (R \<union> set (addrs bs)))"
      using inv fs by (simp add: entry_inv_def)
    note cb = createBufferBlock_none [OF this]
    obtain al1 where al1: "set_rx al a (rx_buffer_blocks_update (\<lambda>_. None)) = Some al1"
        "entry_inv al1 [] R a (r\<lparr>rx_buffer_blocks := None\<rparr>) bs" "same_on R al al1"
      using entry_set_rx [OF inv, of "rx_buffer_blocks_update (\<lambda>_. None)"] nb fs
      by (auto elim!: returnsE)
    have "current_block al a n = Some (None, al1)"
      unfolding current_block_def using entry_get_rx [OF inv] nb cb al1(1) by simp
    then show ?thesis using al1(2,3) Nil fs p6 by auto
  next
    case (Cons f fs')
    have "pool_inv al (f # fs') (insert a (R \<union> set (addrs bs)))"
      using inv Cons by (simp add: entry_inv_def)
    from createBufferBlock_some [OF this] obtain al1 where
      al1: "createBufferBlock al = Some (Some f, al1)"
        "arena al1 = (arena al)(f \<mapsto> BufBlock \<lparr>bb_next = None, bb_data = Map.empty\<rparr>)"
        "f \<notin> insert a (R \<union> set (addrs bs))" "pool_inv al1 fs' (insert f (insert a (R \<union> set (addrs bs))))"
      by blast
    let ?r = "r\<lparr>rx_buffer_blocks := Some f\<rparr>"
    let ?al = "put_block al1 a (RxBlock ?r)"
    have g: "get_rx al1 a = Some r"
      using entry_get_rx [OF inv] al1(2,3) by (auto simp: get_rx_def)
    have "pool_inv ?al fs' (insert f (insert a (R \<union> set (addrs bs))))"
      by (rule pool_inv_put [OF al1(4)]) simp
    then have "entry_inv ?al fs' R a ?r ([] @ [(f, Map.empty)])"
      using inv al1(2,3) Nil by (auto simp: entry_inv_def insert_commute)
    moreover have "same_on R al ?al"
      using inv al1(2,3) by (auto simp: entry_inv_def same_on_def)
    moreover have "current_block al a n = Some (Some (f, 0), ?al)"
      unfolding current_block_def
      using entry_get_rx [OF inv] nb al1(1) g by (simp add: set_rx_def)
    ultimately show ?thesis
      using Nil Cons p6
      by (auto simp: buf_holds_def intro!: exI [of _ "Some f"] exI [of _ 1] exI [of _ "[]"])
  qed
next
  case (snoc bs0 x)
  obtain b d where x: "x = (b, d)" by (cases x)
  note bs = snoc [unfolded x]
  have p6: "6 \<le> length p" using head bs by simp
  let ?m = "length p - 6"
  have m: "28 * length bs0 \<le> ?m" "?m \<le> 28 * length bs0 + 28"
    using hold buf_holds_le [of bs "drop 6 p"] buf_holds_ge [of bs0 x "drop 6 p"] bs x by simp_all
  have lm: "unat (rx_payload_len r) = 6 + ?m" using len p6 by simp
  have m1024: "?m < 1024" using lm unat10_less [of "rx_payload_len r"] by simp
  obtain first where first: "rx_buffer_blocks r = Some first"
    using inv bs by (cases bs0) (auto simp: entry_inv_def)
  have lb: "last_block al first 1 = Some (b, 1 + of_nat (length bs0))"
    using inv bs first by (intro last_block_chain [where d = d]) (simp add: entry_inv_def)
  have l40: "length bs0 < 40" using m m1024 by simp
  have nth_u: "unat (1 + of_nat (length bs0) :: u8) = 1 + length bs0"
    using l40 by (simp add: unat_word_ariths unat_of_nat)
  let ?idx = "ucast ((ucast (rx_payload_len r) - 6 :: u32) mod 28) :: u8"
  let ?num = "ucast ((ucast (rx_payload_len r) + ucast n - 6 :: u32) div 28 + 1) :: u8"
  have idx: "unat ?idx = ?m mod 28" by (rule block_index [OF lm])
  have num: "unat ?num = (?m + unat n) div 28 + 1"
    using m1024 n by (intro block_count [OF lm]) simp
  have grow: "?num > 1 + of_nat (length bs0) \<and> ?idx = 0 \<longleftrightarrow> ?m = 28 * length bs0 + 28"
  proof -
    have i0: "?idx = 0 \<longleftrightarrow> ?m mod 28 = 0"
      using idx by (metis unat_eq_zero)
    have n1: "?num > 1 + of_nat (length bs0) \<longleftrightarrow> (?m + unat n) div 28 > length bs0"
      unfolding word_less_nat_alt num nth_u by simp
    show ?thesis
      unfolding i0 n1 by (rule block_full_iff [OF m n])
  qed
  have r_id: "r\<lparr>rx_buffer_blocks := Some first\<rparr> = r" using first by (cases r) simp
  show ?thesis
  proof (cases "?m = 28 * length bs0 + 28")
    case False
    then have "current_block al a n = Some (Some (b, unat ?idx), al)"
      unfolding current_block_def using entry_get_rx [OF inv] first lb grow
      by (auto simp: Let_def)
    moreover have "?m = 28 * length bs0 + unat ?idx" "unat ?idx < 28"
      unfolding idx using block_partial_index [OF m False] by simp_all
    ultimately show ?thesis
      using inv bs hold r_id
      by (auto intro!: exI [of _ "Some first"] exI [of _ 0] exI [of _ bs0] exI [of _ d])
  next
    case full: True
    obtain nx al1 where al1: "append_block al b = Some (nx, al1)" "same_on R al al1"
        "nx = (case fs of [] \<Rightarrow> None | f # _ \<Rightarrow> Some f)"
        "case fs of [] \<Rightarrow> entry_inv al1 [] R a r (bs0 @ [(b, d)])
           | f # fs' \<Rightarrow> entry_inv al1 fs' R a r ((bs0 @ [(b, d)]) @ [(f, Map.empty)])"
      using entry_append_block [of al fs R a r bs0 b d] inv bs by (auto elim!: returnsE)
    have cur: "current_block al a n = Some (map_option (\<lambda>b. (b, unat ?idx)) nx, al1)"
      unfolding current_block_def using entry_get_rx [OF inv] first lb grow full al1(1)
      by (simp add: Let_def)
    show ?thesis
    proof (cases fs)
      case Nil
      then show ?thesis
        unfolding cur using al1 full bs r_id by (auto intro!: exI [of _ "Some first"])
    next
      case (Cons f fs')
      have "unat ?idx = 0" unfolding idx full by simp
      moreover have "buf_holds (bs @ [(f, Map.empty)]) (drop 6 p)"
        using hold full bs by (intro buf_holds_new_block) simp_all
      ultimately show ?thesis
        unfolding cur using al1 full bs r_id Cons
        by (auto intro!: exI [of _ "Some first"] exI [of _ 1] exI [of _ bs] exI [of _ Map.empty])
    qed
  qed
qed

section \<open>Pushing bytes\<close>

text \<open>The state \<open>r\<close> with the blocks \<open>bs\<close> has stored exactly the bytes \<open>p\<close>.\<close>

definition holds :: "CanardRxState \<Rightarrow> buffer_chain \<Rightarrow> u8 list \<Rightarrow> bool" where
  "holds r bs p \<longleftrightarrow>
     unat (rx_payload_len r) = length p \<and>
     (\<forall>i < min 6 (length p). rx_buffer_head r i = Some (p ! i)) \<and>
     buf_holds bs (drop 6 p) \<and> (bs \<noteq> [] \<longrightarrow> 6 \<le> length p)"

text \<open>Everything but the storage is the same.\<close>

definition same_meta :: "CanardRxState \<Rightarrow> CanardRxState \<Rightarrow> bool" where
  "same_meta r r' \<longleftrightarrow>
     rx_next r' = rx_next r \<and> rx_timestamp_usec r' = rx_timestamp_usec r \<and>
     rx_dtid_tt_snid_dnid r' = rx_dtid_tt_snid_dnid r \<and> rx_payload_crc r' = rx_payload_crc r \<and>
     rx_calculated_crc r' = rx_calculated_crc r \<and> rx_transfer_id r' = rx_transfer_id r \<and>
     rx_next_toggle r' = rx_next_toggle r"

lemma holds_empty: "rx_payload_len r = 0 \<Longrightarrow> holds r [] []"
  by (simp add: holds_def)

lemma add_payload_len:
  assumes "unat (l :: 10 word) + unat (n :: u8) < 1024"
  shows "unat (l + ucast n) = unat l + unat n"
proof -
  have "unat n < 256" using unsigned_less [of n] by simp
  then have "unat (ucast n :: 10 word) = unat n"
    by (simp add: unsigned_ucast_eq take_bit_eq_mod)
  with assms show ?thesis by (simp add: unat_word_ariths)
qed

text \<open>The part of the head after copying.\<close>

lemma head_filled:
  assumes "\<forall>i < min 6 (length p). h i = Some (p ! i)" and "n \<le> length data"
    and "h' = (\<lambda>j. if length p \<le> j \<and> j < length p + min (6 - length p) n
                  then Some (data ! (j - length p)) else h j)"
  shows "\<forall>i < min 6 (length (p @ take n data)). h' i = Some ((p @ take n data) ! i)"
  using assms by (auto simp: nth_append)

lemma bufferBlockPushBytes_correct:
  assumes inv: "entry_inv al fs R a r bs" and hold: "holds r bs p"
    and n: "unat n \<le> length data" "unat n < 28" and room: "length p + unat n < 1024"
  shows "returns (bufferBlockPushBytes al a data n) (\<lambda>(ret, al'). \<exists>k bs' r'.
    entry_inv al' (drop k fs) R a r' bs' \<and> same_on R al al' \<and> k \<le> length fs \<and>
    length bs' = length bs + k \<and> same_meta r r' \<and>
    (if ret = 1 then holds r' bs' (p @ take (unat n) data)
     else ret = - CANARD_ERROR_OUT_OF_MEMORY \<and> k = length fs \<and>
       (0 < unat n \<longrightarrow> 28 * length bs' < length p + unat n - 6)))"
proof -
  let ?n = "unat n"
  define di where "di = (if length p < 6 then min (6 - length p) ?n else 0)"
  define h' where "h' = (\<lambda>j. if length p \<le> j \<and> j < length p + min (6 - length p) ?n
      then Some (data ! (j - length p)) else rx_buffer_head r j)"
  define r1 where "r1 = r\<lparr>rx_buffer_head := h'\<rparr>"
  have len: "unat (rx_payload_len r) = length p" using hold by (simp add: holds_def)
  have ulen: "uint (rx_payload_len r) = int (length p)"
    using len by (metis of_nat_unat)
  have head: "\<forall>i < min 6 (length (p @ take ?n data)). h' i = Some ((p @ take ?n data) ! i)"
    using hold n(1) by (intro head_filled [where h = "rx_buffer_head r"]) (auto simp: holds_def h'_def)
  have front: "returns
      (if int 6 - uint (rx_payload_len r) > 0 then do {
          (data_index, head) \<leftarrow> copy_bytes 6 (unat (rx_payload_len r)) data ?n 0 (rx_buffer_head r);
          al \<leftarrow> set_rx al a (rx_buffer_head_update (\<lambda>_. head));
          Some (data_index, al)
        } else Some (0, al))
      (\<lambda>(i, al1). i = di \<and> entry_inv al1 fs R a r1 bs \<and> same_on R al al1)"
  proof (cases "length p < 6")
    case True
    have "copy_bytes 6 (length p) data ?n 0 (rx_buffer_head r) = Some (di, h')"
      using copy_bytes_eq [OF n(1), of 0 6 "length p"] True by (simp add: di_def h'_def cong: if_cong)
    then show ?thesis
      using True entry_set_rx [OF inv, of "rx_buffer_head_update (\<lambda>_. h')"]
      by (auto simp: ulen len r1_def elim!: returnsE)
  next
    case False
    then have "h' = rx_buffer_head r" by (auto simp: h'_def fun_eq_iff)
    then have "r1 = r" by (simp add: r1_def)
    then show ?thesis using False inv by (simp add: ulen di_def)
  qed
  have finish: "returns (set_rx al2 a (\<lambda>r. r\<lparr>rx_payload_len := rx_payload_len r + ucast n\<rparr>))
      (\<lambda>al'. \<exists>r'. entry_inv al' fs' R a r' bs' \<and> same_on R al al' \<and> same_meta r r' \<and>
        holds r' bs' (p @ take ?n data))"
    if "entry_inv al2 fs' R a (r1\<lparr>rx_buffer_blocks := q\<rparr>) bs'" "same_on R al al2"
      "buf_holds bs' (drop 6 (p @ take ?n data))" "bs' \<noteq> [] \<Longrightarrow> 6 \<le> length p + ?n" for al2 fs' q bs'
  proof -
    let ?r = "r1\<lparr>rx_buffer_blocks := q, rx_payload_len := rx_payload_len r1 + ucast n\<rparr>"
    have "unat (rx_payload_len r + ucast n) = length p + ?n"
      using add_payload_len [of "rx_payload_len r" n] len room by simp
    then have "holds ?r bs' (p @ take ?n data)"
      using that(3,4) head n(1) by (auto simp: holds_def r1_def)
    moreover have "same_meta r ?r" by (simp add: same_meta_def r1_def)
    ultimately show ?thesis
      using that(2) entry_set_rx [OF that(1), of "\<lambda>r. r\<lparr>rx_payload_len := rx_payload_len r + ucast n\<rparr>"]
      by (auto elim!: returns_mono intro: same_on_trans intro!: exI [of _ ?r])
  qed
  obtain al1 where al1: "entry_inv al1 fs R a r1 bs" "same_on R al al1"
    and step1: "bufferBlockPushBytes al a data n =
      (if int 6 - uint (rx_payload_len r) > 0 \<and> di \<ge> ?n
       then do {
         al \<leftarrow> set_rx al1 a (\<lambda>r. r\<lparr>rx_payload_len := rx_payload_len r + ucast n\<rparr>);
         Some (1, al)
       } else do {
         (position, al) \<leftarrow> current_block al1 a n;
         case position of
           None \<Rightarrow> Some (- CANARD_ERROR_OUT_OF_MEMORY, al)
         | Some (block, index_at_nth_block) \<Rightarrow> do {
             (ok, al) \<leftarrow> pushBytes_loop al block index_at_nth_block data ?n di;
             if \<not> ok then Some (- CANARD_ERROR_OUT_OF_MEMORY, al)
             else do {
               al \<leftarrow> set_rx al a (\<lambda>r. r\<lparr>rx_payload_len := rx_payload_len r + ucast n\<rparr>);
               Some (1, al)
             }
           }
       })"
    using front
    by (rule returnsE) (auto simp: bufferBlockPushBytes_def entry_get_rx [OF inv])
  show ?thesis
  proof (cases "length p < 6 \<and> di \<ge> ?n")
    case True
    then have pn: "length p + ?n \<le> 6" and bs: "bs = []"
      using hold by (auto simp: di_def holds_def min_def split: if_splits)
    have q: "r1\<lparr>rx_buffer_blocks := rx_buffer_blocks r1\<rparr> = r1" by simp
    from finish [of al1 fs "rx_buffer_blocks r1" bs] al1 pn bs n(1) obtain al4 r' where
      al4: "set_rx al1 a (\<lambda>r. r\<lparr>rx_payload_len := rx_payload_len r + ucast n\<rparr>) = Some al4"
        "entry_inv al4 fs R a r' bs" "same_on R al al4" "same_meta r r'"
        "holds r' bs (p @ take ?n data)"
      by (auto simp: q elim!: returnsE)
    have "bufferBlockPushBytes al a data n = Some (1, al4)"
      unfolding step1 using True al4(1) by (simp add: ulen)
    then show ?thesis
      using al4 by (auto intro!: exI [of _ 0] exI [of _ bs] exI [of _ r'])
  next
    case False
    then have p6: "6 \<le> length p + ?n" and di: "di = 6 - length p" "di \<le> ?n"
      by (auto simp: di_def split: if_splits)
    have bh: "buf_holds bs (drop 6 p)" and hd: "bs \<noteq> [] \<Longrightarrow> 6 \<le> length p"
      using hold by (simp_all add: holds_def)
    have tail: "drop 6 (p @ take ?n data) = drop 6 p @ drop di (take ?n data)"
      by (simp add: di)
    obtain pos al2 q where al2: "current_block al1 a n = Some (pos, al2)" "same_on R al1 al2"
        "case pos of
           None \<Rightarrow> fs = [] \<and> entry_inv al2 [] R a (r1\<lparr>rx_buffer_blocks := q\<rparr>) bs \<and> 28 * length bs = length p - 6
         | Some (b, idx) \<Rightarrow> \<exists>k bs1 d. k \<le> length fs \<and>
             entry_inv al2 (drop k fs) R a (r1\<lparr>rx_buffer_blocks := q\<rparr>) (bs1 @ [(b, d)]) \<and>
             length bs1 + 1 = length bs + k \<and> buf_holds (bs1 @ [(b, d)]) (drop 6 p) \<and>
             length p - 6 = 28 * length bs1 + idx \<and> idx < 28"
      using current_block_correct [OF al1(1) bh _ hd n(2)] len
      by (auto simp: r1_def elim!: returnsE)
    have same2: "same_on R al al2" using al1(2) al2(2) by (rule same_on_trans)
    show ?thesis
    proof (cases pos)
      case None
      have "bufferBlockPushBytes al a data n = Some (- 3, al2)"
        unfolding step1 using False al2(1) None by (auto simp: ulen)
      moreover have "same_meta r (r1\<lparr>rx_buffer_blocks := q\<rparr>)" by (simp add: same_meta_def r1_def)
      moreover have "28 * length bs < length p + ?n - 6" if "0 < ?n"
        using al2(3) None that False p6 by (auto simp: di_def split: if_splits)
      ultimately show ?thesis
        using al2(3) None same2
        by (auto intro!: exI [of _ bs] exI [of _ "r1\<lparr>rx_buffer_blocks := q\<rparr>"])
    next
      case (Some x)
      obtain b idx where x: "x = (b, idx)" by (cases x)
      obtain k bs1 d where k: "k \<le> length fs"
          "entry_inv al2 (drop k fs) R a (r1\<lparr>rx_buffer_blocks := q\<rparr>) (bs1 @ [(b, d)])"
          "length bs1 + 1 = length bs + k" "buf_holds (bs1 @ [(b, d)]) (drop 6 p)"
          "length (drop 6 p) = 28 * length bs1 + idx" "idx < 28"
        using al2(3) Some x by auto
      obtain ok al3 bs' k' where al3: "pushBytes_loop al2 b idx data ?n di = Some (ok, al3)"
          "entry_inv al3 (drop k' (drop k fs)) R a (r1\<lparr>rx_buffer_blocks := q\<rparr>) bs'"
          "same_on R al2 al3" "k' \<le> length (drop k fs)" "length bs' = length bs1 + 1 + k'"
          "if ok then buf_holds bs' (drop 6 p @ drop di (take ?n data))
           else k' = length (drop k fs) \<and> 28 * length bs' < length (drop 6 p) + (?n - di)"
        using pushBytes_loop_correct [OF k(2,4,5,6) di(2) n(1)] by (auto elim!: returnsE)
      have same3: "same_on R al al3" using same2 al3(3) by (rule same_on_trans)
      have kk: "drop k' (drop k fs) = drop (k' + k) fs" "k' + k \<le> length fs" "length bs' = length bs + (k' + k)"
        using k(1,3) al3(4,5) by (simp_all add: add.commute)
      show ?thesis
      proof (cases ok)
        case True
        have "bs' \<noteq> [] \<Longrightarrow> 6 \<le> length p + ?n" using p6 by simp
        from finish [OF al3(2) same3 _ this] True al3(6) tail
        obtain al4 r' where al4: "set_rx al3 a (\<lambda>r. r\<lparr>rx_payload_len := rx_payload_len r + ucast n\<rparr>) = Some al4"
            "entry_inv al4 (drop (k' + k) fs) R a r' bs'" "same_on R al al4" "same_meta r r'"
            "holds r' bs' (p @ take ?n data)"
          by (auto elim!: returnsE simp: kk)
        have "bufferBlockPushBytes al a data n = Some (1, al4)"
          unfolding step1 using False al2(1) Some x al3(1) True al4(1) by (auto simp: ulen)
        then show ?thesis
          using al4 kk by (auto intro!: exI [of _ "k' + k"] exI [of _ bs'] exI [of _ r'])
      next
        case no: False
        have "bufferBlockPushBytes al a data n = Some (- 3, al3)"
          unfolding step1 using False al2(1) Some x al3(1) no by (auto simp: ulen)
        moreover have "same_meta r (r1\<lparr>rx_buffer_blocks := q\<rparr>)" by (simp add: same_meta_def r1_def)
        moreover have "28 * length bs' < length p + ?n - 6"
          using al3(6) no di p6 by auto
        ultimately show ?thesis
          using al3(2,4,6) no same3 kk k(1)
          by (auto intro!: exI [of _ "k' + k"] exI [of _ bs'] exI [of _ "r1\<lparr>rx_buffer_blocks := q\<rparr>"])
      qed
    qed
  qed
qed

section \<open>Completing a transfer\<close>

lemma last_block_offset_chain:
  "chain (buf_view (arena al)) (Some first) (bs @ [(b, d)]) \<Longrightarrow>
     last_block_offset al first o0 = Some (b, o0 + 28 * of_nat (length bs))"
proof (induction bs arbitrary: first o0)
  case Nil
  then have "get_buf al b = Some \<lparr>bb_next = None, bb_data = d\<rparr>" "first = b"
    by (auto simp: buf_view_get)
  then show ?case by (subst last_block_offset.simps) simp
next
  case (Cons x bs)
  obtain c e where x: "x = (c, e)" by (cases x)
  with Cons.prems obtain q where "first = c" "buf_view (arena al) c = Some (q, e)"
      "chain (buf_view (arena al)) q (bs @ [(b, d)])"
    by auto
  moreover from this(3) obtain n where "q = Some n" by (cases bs) auto
  ultimately have "get_buf al first = Some \<lparr>bb_next = Some n, bb_data = e\<rparr>"
      "chain (buf_view (arena al)) (Some n) (bs @ [(b, d)])"
    by (simp_all add: buf_view_get)
  with Cons.IH [of n "o0 + 28"] show ?case
    by (subst last_block_offset.simps) (simp add: algebra_simps)
qed

text \<open>What the head and the blocks hold, whatever the length member says.\<close>

definition stored :: "(nat \<rightharpoonup> u8) \<Rightarrow> buffer_chain \<Rightarrow> u8 list \<Rightarrow> bool" where
  "stored h bs p \<longleftrightarrow> (\<forall>i < min 6 (length p). h i = Some (p ! i)) \<and> buf_holds bs (drop 6 p)"

lemma holds_stored: "holds r bs p \<Longrightarrow> stored (rx_buffer_head r) bs p"
  by (simp add: holds_def stored_def)

lemma rx_store_end_correct:
  assumes inv: "entry_inv al fs R a r bs" and hold: "holds r bs p"
    and n: "n = unat (frame_data_len f - 1)" "n \<le> length (frame_data f)"
    and not_full: "bs \<noteq> [] \<Longrightarrow> length p \<noteq> 6 + 28 * length bs"
  shows "returns (rx_store_end al a f) (\<lambda>(off, al'). \<exists>bs' h.
    entry_inv al' fs R a (r\<lparr>rx_buffer_head := h\<rparr>) bs' \<and> same_on R al al' \<and> off \<le> n \<and>
    addrs bs' = addrs bs \<and> stored h bs' (p @ take off (frame_data f)) \<and>
    (off < n \<longrightarrow> length p + off = 6 + 28 * length bs'))"
proof -
  let ?data = "frame_data f"
  have len: "unat (rx_payload_len r) = length p" and hd: "bs \<noteq> [] \<Longrightarrow> 6 \<le> length p"
    and bh: "buf_holds bs (drop 6 p)" and head: "\<forall>i < min 6 (length p). rx_buffer_head r i = Some (p ! i)"
    using hold by (simp_all add: holds_def)
  note unfold = rx_store_end_def entry_get_rx [OF inv] len n(1) [symmetric]
  have r_id: "r\<lparr>rx_buffer_head := rx_buffer_head r\<rparr> = r" by simp
  show ?thesis
  proof (cases "length p < 6")
    case True
    then have bs: "bs = []" using hd by auto
    define off where "off = min (6 - length p) n"
    define h' where "h' = (\<lambda>j. if length p \<le> j \<and> j < length p + off then Some (?data ! (j - length p))
        else rx_buffer_head r j)"
    have cp: "copy_bytes 6 (length p) ?data n 0 (rx_buffer_head r) = Some (off, h')"
      using copy_bytes_eq [OF n(2), of 0 6 "length p"] by (simp add: off_def h'_def cong: if_cong)
    have off: "off \<le> n" "length p + off \<le> 6" "off < n \<Longrightarrow> length p + off = 6"
      using True by (auto simp: off_def)
    have "stored h' [] (p @ take off ?data)"
      using head off n(2) by (auto simp: stored_def h'_def nth_append)
    then show ?thesis
      using True entry_set_rx [OF inv, of "rx_buffer_head_update (\<lambda>_. h')"] off bs
      by (auto simp: unfold cp Let_def elim!: returnsE intro!: exI [of _ "[]"] exI [of _ h'])
  next
    case False
    show ?thesis
    proof (cases bs rule: rev_cases)
      case Nil
      then have "rx_buffer_blocks r = None" "length p = 6"
        using inv bh False by (auto simp: entry_inv_def)
      then show ?thesis
        using False inv Nil holds_stored [OF hold] r_id
        by (auto simp: unfold Let_def intro!: exI [of _ "[]"] exI [of _ "rx_buffer_head r"])
    next
      case (snoc bs0 x)
      obtain b d where x: "x = (b, d)" by (cases x)
      note bs = snoc [unfolded x]
      have p: "28 * length bs0 + 6 \<le> length p" "length p < 6 + 28 * length bs0 + 28"
        using buf_holds_le [OF bh] buf_holds_ge [of bs0 x "drop 6 p"] bh not_full bs x False by auto
      define idx where "idx = length p - 6 - 28 * length bs0"
      have idx: "idx < 28" "length (drop 6 p) = 28 * length bs0 + idx" using p by (auto simp: idx_def)
      define off where "off = min (28 - idx) n"
      define d' where "d' = (\<lambda>j. if idx \<le> j \<and> j < idx + off then Some (?data ! (j - idx)) else d j)"
      obtain first where first: "rx_buffer_blocks r = Some first"
        using inv bs by (cases bs0) (auto simp: entry_inv_def)
      have lb: "last_block_offset al first 6 = Some (b, 6 + 28 * of_nat (length bs0))"
        using inv bs first by (intro last_block_offset_chain [where d = d]) (simp add: entry_inv_def)
      have owb: "(ucast (rx_payload_len r) - (6 + 28 * of_nat (length bs0)) :: u32) = of_nat idx"
      proof -
        have "(ucast (rx_payload_len r) :: u32) = of_nat (length p)"
          using len by (metis of_nat_unat)
        also have "length p = idx + (6 + 28 * length bs0)" using p by (simp add: idx_def)
        finally show ?thesis by simp
      qed
      have uidx: "unat (of_nat idx :: u32) = idx" using idx(1) by (simp add: unat_of_nat)
      then have asrt: "(of_nat idx :: u32) < 28" using idx(1) by (simp add: word_less_nat_alt)
      have cp: "copy_bytes 28 idx ?data n 0 d = Some (off, d')"
        using copy_bytes_eq [OF n(2), of 0 28 idx d] by (simp add: off_def d'_def cong: if_cong)
      have off: "off \<le> n" "idx + off \<le> 28" "off < n \<Longrightarrow> idx + off = 28"
        using idx by (auto simp: off_def)
      have "buf_holds (bs0 @ [(b, d')]) (drop 6 p @ take off ?data)"
        using bh bs idx off n(2)
        by (intro buf_holds_grow [where d = d and idx = idx]) (auto simp: d'_def)
      then have "stored (rx_buffer_head r) (bs0 @ [(b, d')]) (p @ take off ?data)"
        using head False by (auto simp: stored_def nth_append)
      moreover have "off < n \<longrightarrow> length p + off = 6 + 28 * length (bs0 @ [(b, d')])"
        using off p by (auto simp: idx_def)
      moreover obtain al1 where "set_buf al b (bb_data_update (\<lambda>_. d')) = Some al1"
          "entry_inv al1 fs R a r (bs0 @ [(b, d')])" "same_on R al al1"
        using entry_set_last [of al fs R a r bs0 b d d'] inv bs by (auto elim!: returnsE)
      moreover have "get_buf al b = Some \<lparr>bb_next = None, bb_data = d\<rparr>"
        using entry_get_last [of al fs R a r bs0 b d] inv bs by simp
      ultimately show ?thesis
        using False first lb owb asrt uidx cp off(1) bs r_id
        by (auto simp: unfold Let_def intro!: exI [of _ "bs0 @ [(b, d')]"] exI [of _ "rx_buffer_head r"])
    qed
  qed
qed

text \<open>
  What the application can read from a transfer: byte \<open>i\<close> is found in the head, in the middle
  blocks or behind the tail pointer, the way \<open>descatterTransferPayload\<close> looks for it.
\<close>

definition transfer_byte :: "CanardRxTransfer \<Rightarrow> buffer_chain \<Rightarrow> nat \<Rightarrow> u8 option" where
  "transfer_byte t bs i =
     (if i < 6 \<or> xfer_payload_middle t = None \<and> xfer_payload_tail t = None
      then do { h \<leftarrow> xfer_payload_head t; h i }
      else if i < 6 + 28 * length bs then snd (bs ! ((i - 6) div 28)) ((i - 6) mod 28)
      else do { h \<leftarrow> xfer_payload_tail t; h (i - 6 - 28 * length bs) })"

definition delivers :: "CanardRxTransfer \<Rightarrow> buffer_chain \<Rightarrow> u8 list \<Rightarrow> bool" where
  "delivers t bs p \<longleftrightarrow> unat (xfer_payload_len t) = length p \<and>
     (\<forall>i < length p. transfer_byte t bs i = Some (p ! i))"

lemma stored_delivers:
  assumes st: "stored h bs (p @ take off data)" and off: "off \<le> n" "n \<le> length data"
    and full: "off < n \<Longrightarrow> length p + off = 6 + 28 * length bs"
    and t: "xfer_payload_head t = Some h" "xfer_payload_tail t = (if off \<ge> n then None else Some (bytes_from data off))"
      "xfer_payload_middle t = None \<longleftrightarrow> bs = []" "unat (xfer_payload_len t) = length p + n"
  shows "delivers t bs (p @ take n data)"
  unfolding delivers_def
proof (intro conjI allI impI)
  show "unat (xfer_payload_len t) = length (p @ take n data)" using t(4) off by simp
  fix i assume i: "i < length (p @ take n data)"
  let ?q = "p @ take off data"
  have lq: "length ?q = length p + off" using off by simp
  show "transfer_byte t bs i = Some ((p @ take n data) ! i)"
  proof (cases "i < length ?q")
    case True
    then have same: "(p @ take n data) ! i = ?q ! i" using off by (simp add: nth_append)
    show ?thesis
    proof (cases "i < 6")
      case small: True
      with True st t(1) show ?thesis unfolding same by (simp add: transfer_byte_def stored_def)
    next
      case False
      have "buf_holds bs (drop 6 ?q)" using st by (simp add: stored_def)
      moreover have "i - 6 < length (drop 6 ?q)" using True False by simp
      ultimately have "(i - 6) div 28 < length bs"
          "snd (bs ! ((i - 6) div 28)) ((i - 6) mod 28) = Some (drop 6 ?q ! (i - 6))"
        unfolding buf_holds_def by blast+
      moreover from this(1) have "i < 6 + 28 * length bs" "xfer_payload_middle t \<noteq> None"
        using t(3) False by (auto simp: div_less_iff_less_mult mult.commute)
      moreover have "drop 6 ?q ! (i - 6) = ?q ! i"
        using False True by (subst nth_drop) simp_all
      ultimately show ?thesis
        unfolding same using False by (auto simp: transfer_byte_def simp del: drop_append)
    qed
  next
    case False
    then have lt: "off < n" using i lq off by auto
    then have e: "length p + off = 6 + 28 * length bs" by (rule full)
    obtain k where k: "i = length ?q + k" using False by (metis le_Suc_ex not_less)
    have "transfer_byte t bs i = bytes_from data off k"
      using k lq e lt t(2) by (simp add: transfer_byte_def)
    moreover have "bytes_from data off k = Some ((p @ take n data) ! i)"
      using i k lq off by (simp add: bytes_from_def nth_append)
    ultimately show ?thesis by simp
  qed
qed

end
