(* ===== verification/Canard_RxHandle.thy ===== *)
theory Canard_RxHandle
  imports Canard_RxStore
begin

text \<open>
  The frame handler of libcanard on whole instances: the receive state of a frame is found or
  created, its flags are resolved, and the frame is stored or completes a transfer. The lemmas state
  the effect on the layout; every block is accounted for on every path.
\<close>

section \<open>One entry of the layout\<close>

abbreviation others :: "layout \<Rightarrow> addr \<Rightarrow> buffer_chain \<Rightarrow> addr set" where
  "others L a bs \<equiv> set (used_blocks L) - insert a (set (addrs bs))"

lemma canard_inv_entry:
  assumes "canard_inv ins L h" and "lay_rx L = es1 @ (a, r, bs) # es2"
  shows "entry_inv (allocator ins) (lay_free L) (others L a bs) a r bs"
proof -
  let ?m = "arena (allocator ins)"
  have inv: "pool_inv (allocator ins) (lay_free L) (set (used_blocks L))" "distinct (used_blocks L)"
      "chain (rx_view ?m) (rx_states ins) (map rx_head (lay_rx L))"
      "\<forall>e \<in> set (lay_rx L). chain (buf_view ?m) (rx_buffer_blocks (fst (snd e))) (snd (snd e))"
    using assms(1) by (simp_all add: canard_inv_def Let_def)
  have "a \<in> set (used_blocks L)" "set (addrs bs) \<subseteq> set (used_blocks L)" "a \<notin> set (addrs bs)"
    using inv(2) assms(2) by (auto simp: used_blocks_def)
  then have "insert a (others L a bs \<union> set (addrs bs)) = set (used_blocks L)" by auto
  moreover have "?m a = Some (RxBlock r)"
    using inv(3) assms(2) by (auto simp: segment_append rx_view_get get_Some_arena)
  ultimately show ?thesis
    using inv assms(2) \<open>a \<notin> set (addrs bs)\<close> by (auto simp: entry_inv_def)
qed

lemma distinct_insert_part:
  assumes "distinct ys" and "distinct (t @ u @ v @ w)" and "a \<notin> R" and "a \<notin> set ys" and "R \<inter> set ys = {}"
    and "set t \<subseteq> R" and "set u \<subseteq> R" and "set v \<subseteq> R" and "set w \<subseteq> R"
  shows "distinct (t @ u @ (a # ys) @ v @ w)"
  using assms by auto

text \<open>What was done to one entry is done to the instance.\<close>

lemma entry_lift:
  assumes inv: "canard_inv ins L h" and rx: "lay_rx L = es1 @ (a, r, bs) # es2"
    and ent: "entry_inv al' fs' (others L a bs) a r' bs'" and same: "same_on (others L a bs) (allocator ins) al'"
    and nxt: "rx_next r' = rx_next r"
  shows "canard_inv (ins\<lparr>allocator := al'\<rparr>) (L\<lparr>lay_free := fs', lay_rx := es1 @ (a, r', bs') # es2\<rparr>) h"
proof -
  let ?m = "arena (allocator ins)" and ?m' = "arena al'" and ?R = "others L a bs"
  let ?L' = "L\<lparr>lay_free := fs', lay_rx := es1 @ (a, r', bs') # es2\<rparr>"
  have dist: "distinct (used_blocks L)" using inv by (simp add: canard_inv_def Let_def)
  have agree: "?m' c = ?m c" if "c \<in> ?R" for c using same that by (simp add: same_on_def)
  have parts: "set (addrs (lay_tx L)) \<subseteq> ?R" "set (concat (map rx_addrs es1)) \<subseteq> ?R"
      "set (concat (map rx_addrs es2)) \<subseteq> ?R" "set (addrs (lay_held L)) \<subseteq> ?R"
    using dist rx by (auto simp: used_blocks_def)
  have ent': "a \<notin> ?R" "a \<notin> set (addrs bs')" "?R \<inter> set (addrs bs') = {}" "?m' a = Some (RxBlock r')"
      "chain (buf_view ?m') (rx_buffer_blocks r') bs'" "pool_inv al' fs' (insert a (?R \<union> set (addrs bs')))"
    using ent by (simp_all add: entry_inv_def)
  have "distinct (addrs bs')" using ent'(5) by (rule chain_distinct)
  moreover have "distinct (addrs (lay_tx L) @ concat (map rx_addrs es1) @ concat (map rx_addrs es2) @
      addrs (lay_held L))"
    using dist rx by (auto simp: used_blocks_def)
  ultimately have "distinct (addrs (lay_tx L) @ concat (map rx_addrs es1) @ (a # addrs bs') @
      concat (map rx_addrs es2) @ addrs (lay_held L))"
    using ent'(1-3) parts by (intro distinct_insert_part [where R = ?R])
  then have dist': "distinct (used_blocks ?L')"
    by (simp add: used_blocks_def)
  have "?R = set (addrs (lay_tx L)) \<union> set (concat (map rx_addrs es1)) \<union>
      set (concat (map rx_addrs es2)) \<union> set (addrs (lay_held L))"
    using parts rx by (auto simp: used_blocks_def)
  then have U: "set (used_blocks ?L') = insert a (?R \<union> set (addrs bs'))"
    by (auto simp: used_blocks_def)
  have tx: "chain (tx_view ?m') (tx_queue ins) (lay_tx L)"
  proof -
    have "chain (tx_view ?m') (tx_queue ins) (lay_tx L) = chain (tx_view ?m) (tx_queue ins) (lay_tx L)"
      by (rule tx_agree) (use parts(1) agree in blast)
    then show ?thesis using inv by (simp add: canard_inv_def Let_def)
  qed
  have held: "chain (buf_view ?m') h (lay_held L)"
  proof -
    have "chain (buf_view ?m') h (lay_held L) = chain (buf_view ?m) h (lay_held L)"
      by (rule buf_agree) (use parts(4) agree in blast)
    then show ?thesis using inv by (simp add: canard_inv_def Let_def)
  qed
  have heads: "set (map fst es1) \<subseteq> ?R" "set (map fst es2) \<subseteq> ?R"
    using parts(2,3) by (auto simp: rx_addrs_def)
  have "chain (rx_view ?m) (rx_states ins) (map rx_head es1 @ (a, r) # map rx_head es2)"
    using inv rx by (simp add: canard_inv_def Let_def)
  then have "segment (rx_view ?m) (rx_states ins) (map rx_head es1) (Some a)"
      "chain (rx_view ?m) (rx_next r) (map rx_head es2)"
    by (auto simp: segment_append rx_view_get)
  moreover have "segment (rx_view ?m') (rx_states ins) (map rx_head es1) (Some a) =
      segment (rx_view ?m) (rx_states ins) (map rx_head es1) (Some a)"
    by (rule rx_agree) (unfold addrs_rx_heads, use heads(1) agree in blast)
  moreover have "chain (rx_view ?m') (rx_next r) (map rx_head es2) = chain (rx_view ?m) (rx_next r) (map rx_head es2)"
    by (rule rx_agree) (unfold addrs_rx_heads, use heads(2) agree in blast)
  ultimately have rxs: "chain (rx_view ?m') (rx_states ins) (map rx_head (es1 @ (a, r', bs') # es2))"
    using ent'(4) nxt by (auto simp: segment_append rx_view_def)
  have bufs: "chain (buf_view ?m') (rx_buffer_blocks (fst (snd e))) (snd (snd e))"
    if "e \<in> set es1 \<union> set es2" for e
  proof -
    have "chain (buf_view ?m) (rx_buffer_blocks (fst (snd e))) (snd (snd e))"
      using inv rx that by (auto simp: canard_inv_def Let_def)
    moreover have "chain (buf_view ?m') (rx_buffer_blocks (fst (snd e))) (snd (snd e)) =
        chain (buf_view ?m) (rx_buffer_blocks (fst (snd e))) (snd (snd e))"
    proof (rule buf_agree)
      have "set (addrs (snd (snd e))) \<subseteq> set (concat (map rx_addrs es1)) \<union> set (concat (map rx_addrs es2))"
        using that by (auto simp: rx_addrs_def)
      then show "?m' c = ?m c" if "c \<in> set (addrs (snd (snd e)))" for c
        using that parts(2,3) agree by blast
    qed
    ultimately show ?thesis by simp
  qed
  show ?thesis
    unfolding canard_inv_def Let_def
    using ent'(5,6) U dist' tx held rxs bufs by auto
qed

section \<open>Finding the receive state\<close>

abbreviation entry_dtid :: "rx_entry \<Rightarrow> u32" where
  "entry_dtid e \<equiv> rx_dtid_tt_snid_dnid (fst (snd e))"

lemma findRxState_chain:
  "chain (rx_view (arena al)) p (map rx_head es) \<Longrightarrow>
     findRxState al p d = Some (map_option fst (List.find (\<lambda>e. entry_dtid e = d) es))"
proof (induction es arbitrary: p)
  case Nil
  then show ?case by (subst findRxState.simps) simp
next
  case (Cons e es)
  then obtain q where q: "p = Some (fst e)" "rx_view (arena al) (fst e) = Some (q, fst (snd e))"
      "chain (rx_view (arena al)) q (map rx_head es)"
    by auto
  with Cons.IH [OF q(3)] show ?case
    by (subst findRxState.simps) (auto simp: rx_view_get)
qed

lemma findRxState_layout:
  "canard_inv ins L h \<Longrightarrow> findRxState (allocator ins) (rx_states ins) d =
     Some (map_option fst (List.find (\<lambda>e. entry_dtid e = d) (lay_rx L)))"
  by (rule findRxState_chain) (simp add: canard_inv_def Let_def)

text \<open>The layout once the state of a descriptor exists.\<close>

abbreviation lay_new_rx :: "layout \<Rightarrow> addr \<Rightarrow> addr list \<Rightarrow> CanardRxState \<Rightarrow> layout" where
  "lay_new_rx L f fs r \<equiv> L\<lparr>lay_free := fs, lay_rx := (f, r, []) # lay_rx L\<rparr>"

lemma create_rx_layout:
  assumes inv: "canard_inv ins L h" and free: "lay_free L = f # fs"
  shows "\<exists>al. createRxState (allocator ins) d = Some (Some f, al) \<and>
    get_rx al f = Some (init_rx_state d) \<and>
    (\<forall>r. rx_next r = rx_states ins \<and> rx_buffer_blocks r = None \<longrightarrow>
      canard_inv (ins\<lparr>allocator := put_block al f (RxBlock r), rx_states := Some f\<rparr>) (lay_new_rx L f fs r) h)"
proof -
  let ?m = "arena (allocator ins)" and ?U = "set (used_blocks L)"
  have "pool_inv (allocator ins) (f # fs) ?U"
    using canard_inv_pool [OF inv] free by simp
  from pool.new_object [OF this] obtain al where al: "allocateBlock (allocator ins) = Some (Some f, al)"
      "arena al = ?m" "f \<notin> ?U" "f \<notin> set fs"
      "\<And>b. pool_inv (put_block al f b) fs (insert f ?U)"
    by blast
  let ?al = "put_block al f (RxBlock (init_rx_state d))"
  have "canard_inv (ins\<lparr>allocator := put_block ?al f (RxBlock r), rx_states := Some f\<rparr>) (lay_new_rx L f fs r) h"
    if r: "rx_next r = rx_states ins" "rx_buffer_blocks r = None" for r
  proof -
    have m': "arena (put_block ?al f (RxBlock r)) = ?m(f \<mapsto> RxBlock r)" by (simp add: al(2))
    have fresh: "f \<notin> set (addrs (lay_tx L))" "f \<notin> set (concat (map rx_addrs (lay_rx L)))"
        "f \<notin> set (addrs (lay_held L))"
      using al(3) by (auto simp: used_blocks_def)
    then have fresh': "f \<notin> set (map fst (lay_rx L))" "\<And>e. e \<in> set (lay_rx L) \<Longrightarrow> f \<notin> set (addrs (snd (snd e)))"
      by (auto simp: rx_addrs_def)
    show ?thesis
      unfolding canard_inv_def Let_def
      using inv al(3) al(5) [of "RxBlock r"] fresh fresh' r
      by (auto simp: m' al(2) canard_inv_def Let_def used_blocks_def)
  qed
  moreover have "createRxState (allocator ins) d = Some (Some f, ?al)"
    by (simp add: createRxState_def al(1))
  ultimately show ?thesis
    by (intro exI [of _ ?al]) (simp add: get_rx_def)
qed

lemma traverseRxStates_found:
  assumes "canard_inv ins L h" and "lay_rx L = es1 @ (a, r, bs) # es2"
    and "rx_dtid_tt_snid_dnid r = d" and "\<forall>e \<in> set es1. entry_dtid e \<noteq> d"
  shows "traverseRxStates ins d = Some (Some a, ins)"
    and "findRxState (allocator ins) (rx_states ins) d = Some (Some a)"
proof -
  have "List.find (\<lambda>e. entry_dtid e = d) (es1 @ (a, r, bs) # es2) = Some (a, r, bs)"
    using assms(3,4) by (induction es1) auto
  then show f: "findRxState (allocator ins) (rx_states ins) d = Some (Some a)"
    using findRxState_layout [OF assms(1), of d] assms(2) by simp
  obtain p where "rx_states ins = Some p"
    using assms(1,2) by (cases es1) (auto simp: canard_inv_def Let_def)
  then show "traverseRxStates ins d = Some (Some a, ins)"
    using f by (simp add: traverseRxStates_def)
qed

lemma traverseRxStates_new:
  assumes inv: "canard_inv ins L h" and none: "\<forall>e \<in> set (lay_rx L). entry_dtid e \<noteq> d"
  shows "returns (traverseRxStates ins d) (\<lambda>(p, ins').
    case lay_free L of
      [] \<Rightarrow> p = None \<and> ins' = ins
    | f # fs \<Rightarrow> p = Some f \<and> node_id ins' = node_id ins \<and>
        canard_inv ins' (lay_new_rx L f fs ((init_rx_state d)\<lparr>rx_next := rx_states ins\<rparr>)) h)"
proof -
  have "List.find (\<lambda>e. entry_dtid e = d) (lay_rx L) = None"
    unfolding find_None_iff using none by blast
  then have nf: "findRxState (allocator ins) (rx_states ins) d = Some None"
    using findRxState_layout [OF inv, of d] by simp
  show ?thesis
  proof (cases "lay_free L")
    case Nil
    then have "createRxState (allocator ins) d = Some (None, allocator ins)"
      using pool.alloc_empty canard_inv_pool [OF inv] by (simp add: createRxState_def)
    then show ?thesis
      using Nil nf by (simp add: traverseRxStates_def prependRxState_def)
  next
    case (Cons f fs)
    obtain al where al: "createRxState (allocator ins) d = Some (Some f, al)"
        "get_rx al f = Some (init_rx_state d)"
        "\<And>r. rx_next r = rx_states ins \<Longrightarrow> rx_buffer_blocks r = None \<Longrightarrow>
          canard_inv (ins\<lparr>allocator := put_block al f (RxBlock r), rx_states := Some f\<rparr>) (lay_new_rx L f fs r) h"
      using create_rx_layout [OF inv Cons] by blast
    let ?r = "(init_rx_state d)\<lparr>rx_next := rx_states ins\<rparr>"
    have new: "canard_inv (ins\<lparr>allocator := put_block al f (RxBlock ?r), rx_states := Some f\<rparr>) (lay_new_rx L f fs ?r) h"
      by (rule al(3)) (simp_all add: init_rx_state_def)
    show ?thesis
    proof (cases "rx_states ins")
      case None
      then have r: "?r = init_rx_state d" by (simp add: init_rx_state_def)
      have "put_block al f (RxBlock (init_rx_state d)) = al"
        using al(2) by (auto simp: put_block_def get_Some_arena fun_upd_idem)
      then show ?thesis
        using new None al(1) Cons unfolding r by (simp add: traverseRxStates_def)
    next
      case (Some p)
      then show ?thesis
        using new al(1,2) Cons nf by (simp add: traverseRxStates_def prependRxState_def set_rx_def)
    qed
  qed
qed

section \<open>Resolving and storing\<close>

text \<open>The state after a restart: \<open>t\<close> is the transfer identifier it waits for.\<close>

abbreviation restarted :: "CanardRxState \<Rightarrow> 5 word \<Rightarrow> CanardRxState" where
  "restarted r t \<equiv> r\<lparr>rx_buffer_blocks := None, rx_transfer_id := t, rx_payload_len := 0, rx_next_toggle := False\<rparr>"

lemma restarted_eq:
  "r\<lparr>rx_transfer_id := t, rx_next_toggle := False, rx_buffer_blocks := None, rx_payload_len := 0\<rparr> = restarted r t"
  "r\<lparr>rx_buffer_blocks := None, rx_payload_len := 0, rx_next_toggle := False, rx_transfer_id := t\<rparr> = restarted r t"
  by (cases r; simp)+

lemma rx_resolve_entry:
  assumes inv: "entry_inv al fs R a r bs"
  shows "returns (rx_resolve al a tb ts) (\<lambda>(go, al'). same_on R al al' \<and>
    (if need_restart r tb ts
     then go = IS_START_OF_TRANSFER tb \<and> entry_inv al' (rev (addrs bs) @ fs) R a
       (restarted r (ucast (TRANSFER_ID_FROM_TAIL_BYTE tb) + (if IS_START_OF_TRANSFER tb then 0 else 1))) []
     else go \<and> entry_inv al' fs R a r bs))"
proof (cases "need_restart r tb ts")
  case False
  then show ?thesis using inv by (simp add: rx_resolve_def entry_get_rx [OF inv])
next
  case True
  let ?f = "\<lambda>r. r\<lparr>rx_transfer_id := ucast (TRANSFER_ID_FROM_TAIL_BYTE tb), rx_next_toggle := False\<rparr>"
  obtain al1 where al1: "set_rx al a ?f = Some al1" "entry_inv al1 fs R a (?f r) bs" "same_on R al al1"
    using entry_set_rx [OF inv, of ?f] by (auto elim!: returnsE)
  obtain al2 where al2: "releaseStatePayload al1 a = Some al2" "same_on R al1 al2"
      "entry_inv al2 (rev (addrs bs) @ fs) R a (restarted r (ucast (TRANSFER_ID_FROM_TAIL_BYTE tb))) []"
    using entry_release [OF al1(2)] by (auto simp: restarted_eq elim!: returnsE)
  have same: "same_on R al al2" using al1(3) al2(2) by (rule same_on_trans)
  show ?thesis
  proof (cases "IS_START_OF_TRANSFER tb")
    case start: True
    then show ?thesis
      using True al1(1) al2 same by (simp add: rx_resolve_def entry_get_rx [OF inv])
  next
    case False
    let ?g = "\<lambda>r. r\<lparr>rx_transfer_id := rx_transfer_id r + 1\<rparr>"
    obtain al3 where "set_rx al2 a ?g = Some al3" "same_on R al2 al3"
        "entry_inv al3 (rev (addrs bs) @ fs) R a
           (restarted r (ucast (TRANSFER_ID_FROM_TAIL_BYTE tb) + 1)) []"
      using entry_set_rx [OF al2(3), of ?g] by (auto simp: restarted_eq elim!: returnsE)
    then show ?thesis
      using True False al1(1) al2(1) same
      by (auto simp: rx_resolve_def entry_get_rx [OF inv] intro: same_on_trans)
  qed
qed

text \<open>Storing, with the two ways it can go: the bytes are appended, or the state is dropped.\<close>

lemma push_or_drop:
  assumes "entry_inv al fs R a r bs" and "holds r bs p"
    and "unat n \<le> length data" "unat n < 28" "length p + unat n < 1024"
    and ok: "\<And>al' k bs' r'. entry_inv al' (drop k fs) R a r' bs' \<Longrightarrow> same_on R al al' \<Longrightarrow> k \<le> length fs \<Longrightarrow>
      length bs' = length bs + k \<Longrightarrow> same_meta r r' \<Longrightarrow> holds r' bs' (p @ take (unat n) data) \<Longrightarrow>
      returns (F al') Q"
    and drop: "\<And>al' fs' r'. entry_inv al' fs' R a r' [] \<Longrightarrow> same_on R al al' \<Longrightarrow> rx_payload_len r' = 0 \<Longrightarrow>
      rx_next r' = rx_next r \<Longrightarrow> rx_dtid_tt_snid_dnid r' = rx_dtid_tt_snid_dnid r \<Longrightarrow>
      0 < unat n \<longrightarrow> 28 * (length bs + length fs) < length p + unat n - 6 \<Longrightarrow> Q al'"
  shows "returns (do {
      (ret, al) \<leftarrow> bufferBlockPushBytes al a data n;
      if ret < 0 then rx_drop al a else F al
    }) Q"
proof -
  obtain ret al1 k bs' r' where push: "bufferBlockPushBytes al a data n = Some (ret, al1)"
      "entry_inv al1 (drop k fs) R a r' bs'" "same_on R al al1" "k \<le> length fs"
      "length bs' = length bs + k" "same_meta r r'"
      "if ret = 1 then holds r' bs' (p @ take (unat n) data)
       else ret = - 3 \<and> k = length fs \<and> (0 < unat n \<longrightarrow> 28 * length bs' < length p + unat n - 6)"
    using bufferBlockPushBytes_correct [OF assms(1-5)] by (rule returnsE) auto
  show ?thesis
  proof (cases "ret = 1")
    case True
    then show ?thesis using push(1,7) ok [OF push(2-6)] by simp
  next
    case False
    obtain al2 where al2: "rx_drop al1 a = Some al2" "same_on R al1 al2"
        "entry_inv al2 (rev (addrs bs') @ drop k fs) R a (restarted r' (rx_transfer_id r' + 1)) []"
      using entry_drop [OF push(2)] by (auto elim!: returnsE)
    have "Q al2"
      using False push(5-7) al2(2) push(3)
      by (intro drop [OF al2(3)]) (auto simp: same_meta_def intro: same_on_trans)
    then show ?thesis using False push(1,7) al2(1) by simp
  qed
qed

lemma set_then_flip:
  assumes "entry_inv al fs R a r bs" and "rx_buffer_blocks (f r) = rx_buffer_blocks r"
  shows "returns (do { al \<leftarrow> set_rx al a f; flip_toggle al a })
    (\<lambda>al'. entry_inv al' fs R a ((f r)\<lparr>rx_next_toggle := \<not> rx_next_toggle (f r)\<rparr>) bs \<and> same_on R al al')"
proof (rule returns_then [OF entry_set_rx [where f = f, OF assms]], elim conjE)
  fix al1
  assume "entry_inv al1 fs R a (f r) bs" and s: "same_on R al al1"
  from entry_set_rx [OF this(1), of "\<lambda>r. r\<lparr>rx_next_toggle := \<not> rx_next_toggle r\<rparr>"] s
  show "returns (flip_toggle al1 a) (\<lambda>al'. entry_inv al' fs R a
      ((f r)\<lparr>rx_next_toggle := \<not> rx_next_toggle (f r)\<rparr>) bs \<and> same_on R al al')"
    by (auto simp: flip_toggle_def elim!: returns_mono intro: same_on_trans)
qed

text \<open>
  The state after a frame was stored: \<open>stores r r' ts c\<close> with the new timestamp and the new value
  of the calculated CRC.
\<close>

definition stores :: "CanardRxState \<Rightarrow> CanardRxState \<Rightarrow> u64 \<Rightarrow> u16 \<Rightarrow> u16 \<Rightarrow> bool" where
  "stores r r' ts pcrc ccrc \<longleftrightarrow>
     rx_next r' = rx_next r \<and> rx_dtid_tt_snid_dnid r' = rx_dtid_tt_snid_dnid r \<and>
     rx_transfer_id r' = rx_transfer_id r \<and> rx_next_toggle r' = (\<not> rx_next_toggle r) \<and>
     rx_timestamp_usec r' = ts \<and> rx_payload_crc r' = pcrc \<and> rx_calculated_crc r' = ccrc"

text \<open>The outcome of storing \<open>s\<close> in a state that holds \<open>p\<close>.\<close>

definition store_outcome ::
  "CanardPoolAllocator \<Rightarrow> addr list \<Rightarrow> addr set \<Rightarrow> addr \<Rightarrow> CanardRxState \<Rightarrow> buffer_chain \<Rightarrow> u8 list \<Rightarrow> u8 list \<Rightarrow>
     u64 \<Rightarrow> u16 \<Rightarrow> CanardPoolAllocator \<Rightarrow> bool" where
  "store_outcome al fs R a r bs p s ts pcrc al' \<longleftrightarrow> same_on R al al' \<and>
     ((\<exists>k bs' r'. entry_inv al' (drop k fs) R a r' bs' \<and> k \<le> length fs \<and> length bs' = length bs + k \<and>
         stores r r' ts pcrc (crcAdd (rx_calculated_crc r) s) \<and> holds r' bs' (p @ s)) \<or>
      (\<exists>fs' r'. entry_inv al' fs' R a r' [] \<and> rx_payload_len r' = 0 \<and> rx_next r' = rx_next r \<and>
         rx_dtid_tt_snid_dnid r' = rx_dtid_tt_snid_dnid r \<and>
         (s \<noteq> [] \<longrightarrow> 28 * (length bs + length fs) < length p + length s - 6)))"

lemma rx_middle_entry:
  assumes inv: "entry_inv al fs R a r bs" and hold: "holds r bs p"
    and f: "length (frame_data f) = 8" "0 < unat (frame_data_len f)" "unat (frame_data_len f) \<le> 8"
    and room: "length p + 7 < 1024"
    and s: "s = take (unat (frame_data_len f) - 1) (frame_data f)"
  shows "returns (rx_middle al a f)
    (store_outcome al fs R a r bs p s (rx_timestamp_usec r) (rx_payload_crc r))"
proof -
  let ?n = "frame_data_len f - 1"
  have n: "unat ?n = unat (frame_data_len f) - 1" by (rule unat_minus_1 [OF f(2)])
  have sn: "take (unat ?n) (frame_data f) = s" "length s = unat ?n" using s f n by simp_all
  show ?thesis
    unfolding rx_middle_def Let_def
  proof (rule push_or_drop [OF inv hold])
    show "unat ?n \<le> length (frame_data f)" "unat ?n < 28" "length p + unat ?n < 1024"
      using n f room by simp_all
  next
    fix al' k bs' r'
    assume h: "entry_inv al' (drop k fs) R a r' bs'" "same_on R al al'" "k \<le> length fs"
      "length bs' = length bs + k" "same_meta r r'" "holds r' bs' (p @ take (unat ?n) (frame_data f))"
    have crc: "crcAdd_ptr c (Some (frame_data f)) (unat ?n) = Some (crcAdd c s)" for c
      by (cases s) (use sn f n in \<open>auto simp: crcAdd_ptr_def\<close>)
    let ?f = "rx_calculated_crc_update (\<lambda>_. crcAdd (rx_calculated_crc r') s)"
    have "holds ((?f r')\<lparr>rx_next_toggle := \<not> rx_next_toggle (?f r')\<rparr>) bs' (p @ s)"
      using h(6) sn by (simp add: holds_def)
    moreover have "stores r ((?f r')\<lparr>rx_next_toggle := \<not> rx_next_toggle (?f r')\<rparr>)
        (rx_timestamp_usec r) (rx_payload_crc r) (crcAdd (rx_calculated_crc r) s)"
      using h(5) by (simp add: stores_def same_meta_def)
    ultimately have "returns (do { al \<leftarrow> set_rx al' a ?f; flip_toggle al a })
        (store_outcome al fs R a r bs p s (rx_timestamp_usec r) (rx_payload_crc r))"
      by (intro returns_mono [OF set_then_flip [where f = ?f, OF h(1)]])
         (simp, use h(2-4) in \<open>auto simp: store_outcome_def intro: same_on_trans\<close>)
    then show "returns (do {
          r \<leftarrow> get_rx al' a;
          crc \<leftarrow> crcAdd_ptr (rx_calculated_crc r) (Some (frame_data f)) (unat ?n);
          al \<leftarrow> set_rx al' a (rx_calculated_crc_update (\<lambda>_. crc));
          flip_toggle al a
        }) (store_outcome al fs R a r bs p s (rx_timestamp_usec r) (rx_payload_crc r))"
      by (simp add: entry_get_rx [OF h(1)] crc)
  next
    fix al' fs' r'
    assume "entry_inv al' fs' R a r' []" "same_on R al al'" "rx_payload_len r' = 0"
      "rx_next r' = rx_next r" "rx_dtid_tt_snid_dnid r' = rx_dtid_tt_snid_dnid r"
      "0 < unat ?n \<longrightarrow> 28 * (length bs + length fs) < length p + unat ?n - 6"
    then show "store_outcome al fs R a r bs p s (rx_timestamp_usec r) (rx_payload_crc r) al'"
      unfolding store_outcome_def using sn(2) by (metis length_greater_0_conv)
  qed
qed

lemma rx_first_entry:
  assumes inv: "entry_inv al fs R a r bs" and hold: "holds r bs p"
    and f: "length (frame_data f) = 8" "3 < unat (frame_data_len f)" "unat (frame_data_len f) \<le> 8"
    and room: "length p + 7 < 1024"
    and s: "s = take (unat (frame_data_len f) - 3) (drop 2 (frame_data f))"
    and pcrc: "pcrc = ucast (frame_data f ! 0) OR push_bit 8 (ucast (frame_data f ! 1))"
  shows "returns (rx_first al a f ts) (store_outcome al fs R a r bs p s ts pcrc)"
proof -
  let ?n = "frame_data_len f - 3" and ?data = "drop 2 (frame_data f)"
  have n: "unat ?n = unat (frame_data_len f) - 3"
    using f(2) by (subst unat_sub) (simp_all add: word_le_nat_alt)
  have sn: "take (unat ?n) ?data = s" "length s = unat ?n" using s f n by simp_all
  have gt: "\<not> frame_data_len f \<le> 3" using f(2) by (simp add: word_le_nat_alt)
  let ?t = "rx_timestamp_usec_update (\<lambda>_. ts)"
  obtain al1 where al1: "set_rx al a ?t = Some al1" "entry_inv al1 fs R a (?t r) bs" "same_on R al al1"
    using entry_set_rx [where f = ?t, OF inv] by (auto elim!: returnsE)
  have hold1: "holds (?t r) bs p" using hold by (simp add: holds_def)
  have "returns (do {
      (ret, al) \<leftarrow> bufferBlockPushBytes al1 a ?data ?n;
      if ret < 0 then rx_drop al a
      else do {
        b0 \<leftarrow> nth_opt (frame_data f) 0;
        b1 \<leftarrow> nth_opt (frame_data f) 1;
        r \<leftarrow> get_rx al a;
        crc \<leftarrow> crcAdd_ptr (rx_calculated_crc r) (Some ?data) (unat ?n);
        al \<leftarrow> set_rx al a (\<lambda>r. r\<lparr>rx_payload_crc := ucast b0 OR push_bit 8 (ucast b1), rx_calculated_crc := crc\<rparr>);
        flip_toggle al a
      }
    }) (store_outcome al fs R a r bs p s ts pcrc)"
  proof (rule push_or_drop [OF al1(2) hold1])
    show "unat ?n \<le> length ?data" "unat ?n < 28" "length p + unat ?n < 1024"
      using n f room by simp_all
  next
    fix al' k bs' r'
    assume h: "entry_inv al' (drop k fs) R a r' bs'" "same_on R al1 al'" "k \<le> length fs"
      "length bs' = length bs + k" "same_meta (?t r) r'" "holds r' bs' (p @ take (unat ?n) ?data)"
    have crc: "crcAdd_ptr c (Some ?data) (unat ?n) = Some (crcAdd c s)" for c
      by (cases s) (use sn f n in \<open>auto simp: crcAdd_ptr_def\<close>)
    have b: "nth_opt (frame_data f) 0 = Some (frame_data f ! 0)" "nth_opt (frame_data f) 1 = Some (frame_data f ! 1)"
      using f(1) by simp_all
    let ?f = "\<lambda>r. r\<lparr>rx_payload_crc := pcrc, rx_calculated_crc := crcAdd (rx_calculated_crc r') s\<rparr>"
    have "holds ((?f r')\<lparr>rx_next_toggle := \<not> rx_next_toggle (?f r')\<rparr>) bs' (p @ s)"
      using h(6) sn by (simp add: holds_def)
    moreover have "stores r ((?f r')\<lparr>rx_next_toggle := \<not> rx_next_toggle (?f r')\<rparr>) ts pcrc
        (crcAdd (rx_calculated_crc r) s)"
      using h(5) by (simp add: stores_def same_meta_def)
    moreover have "same_on R al al'" using al1(3) h(2) by (rule same_on_trans)
    ultimately have "returns (do { al \<leftarrow> set_rx al' a ?f; flip_toggle al a })
        (store_outcome al fs R a r bs p s ts pcrc)"
      by (intro returns_mono [OF set_then_flip [where f = ?f, OF h(1)]])
         (simp, use h(3,4) in \<open>auto simp: store_outcome_def intro: same_on_trans\<close>)
    then show "returns (do {
        b0 \<leftarrow> nth_opt (frame_data f) 0;
        b1 \<leftarrow> nth_opt (frame_data f) 1;
        r \<leftarrow> get_rx al' a;
        crc \<leftarrow> crcAdd_ptr (rx_calculated_crc r) (Some ?data) (unat ?n);
        al \<leftarrow> set_rx al' a (\<lambda>r. r\<lparr>rx_payload_crc := ucast b0 OR push_bit 8 (ucast b1), rx_calculated_crc := crc\<rparr>);
        flip_toggle al a
      }) (store_outcome al fs R a r bs p s ts pcrc)"
      unfolding b by (simp add: entry_get_rx [OF h(1)] crc pcrc)
  next
    fix al' fs' r'
    assume "entry_inv al' fs' R a r' []" "same_on R al1 al'" "rx_payload_len r' = 0"
      "rx_next r' = rx_next (?t r)" "rx_dtid_tt_snid_dnid r' = rx_dtid_tt_snid_dnid (?t r)"
      "0 < unat ?n \<longrightarrow> 28 * (length bs + length fs) < length p + unat ?n - 6"
    moreover from this(2) al1(3) have "same_on R al al'" by (blast intro: same_on_trans)
    ultimately show "store_outcome al fs R a r bs p s ts pcrc al'"
      unfolding store_outcome_def using sn(2) by (auto simp flip: length_greater_0_conv)
  qed
  then show ?thesis
    using gt al1(1) by (simp add: rx_first_def Let_def)
qed

section \<open>Handing blocks over\<close>

text \<open>\<open>rx_state->buffer_blocks = NULL\<close>: the blocks now belong to the transfer.\<close>

lemma detach_layout:
  assumes inv: "canard_inv ins L None" and rx: "lay_rx L = es1 @ (a, r, bs) # es2"
  shows "returns (set_rx (allocator ins) a (rx_buffer_blocks_update (\<lambda>_. None))) (\<lambda>al.
    canard_inv (ins\<lparr>allocator := al\<rparr>)
      (L\<lparr>lay_rx := es1 @ (a, r\<lparr>rx_buffer_blocks := None\<rparr>, []) # es2, lay_held := bs\<rparr>) (rx_buffer_blocks r))"
proof -
  note ent = canard_inv_entry [OF inv rx]
  let ?r = "r\<lparr>rx_buffer_blocks := None\<rparr>"
  let ?al = "put_block (allocator ins) a (RxBlock ?r)"
  let ?L' = "L\<lparr>lay_rx := es1 @ (a, ?r, []) # es2, lay_held := bs\<rparr>"
  have held: "lay_held L = []" using inv by (simp add: canard_inv_def Let_def)
  have dist: "distinct (used_blocks L)" using inv by (simp add: canard_inv_def Let_def)
  have aU: "a \<in> set (used_blocks L)" using rx by (simp add: used_blocks_def)
  have pool: "pool_inv ?al (lay_free L) (set (used_blocks L))"
    by (rule pool_inv_put [OF canard_inv_pool [OF inv] aU])
  have U: "set (used_blocks ?L') = set (used_blocks L)" "distinct (used_blocks ?L')"
    using rx held dist by (auto simp: used_blocks_def)
  have tx: "a \<notin> set (addrs (lay_tx L))" and bs: "a \<notin> set (addrs bs)"
    and es: "\<And>e. e \<in> set es1 \<union> set es2 \<Longrightarrow> a \<noteq> fst e \<and> a \<notin> set (addrs (snd (snd e)))"
    using dist rx by (auto simp: used_blocks_def rx_addrs_def)
  have heads: "a \<notin> set (addrs (map rx_head es1))" "a \<notin> set (addrs (map rx_head es2))"
    using es by auto
  have "canard_inv (ins\<lparr>allocator := ?al\<rparr>) ?L' (rx_buffer_blocks r)"
    unfolding canard_inv_def Let_def
    using inv pool U tx bs es heads rx
    by (auto simp: canard_inv_def segment_append rx_view_get Let_def)
  then show ?thesis
    by (simp add: set_rx_def entry_get_rx [OF ent])
qed

text \<open>\<open>canardReleaseRxTransferPayload\<close> gives all blocks of the transfer back.\<close>

lemma release_layout:
  assumes inv: "canard_inv ins L (xfer_payload_middle t)"
  shows "returns (canardReleaseRxTransferPayload ins t) (\<lambda>(ins', t').
    canard_inv ins' (L\<lparr>lay_free := rev (addrs (lay_held L)) @ lay_free L, lay_held := []\<rparr>) None \<and>
    same_node ins ins' \<and> xfer_payload_middle t' = None \<and> xfer_payload_len t' = 0)"
proof -
  let ?U = "set (used_blocks L)" and ?H = "set (addrs (lay_held L))"
  let ?L' = "L\<lparr>lay_free := rev (addrs (lay_held L)) @ lay_free L, lay_held := []\<rparr>"
  have ch: "chain (buf_view (arena (allocator ins))) (xfer_payload_middle t) (lay_held L)"
    and dist: "distinct (used_blocks L)"
    using inv by (simp_all add: canard_inv_def Let_def)
  have sub: "?H \<subseteq> ?U" by (auto simp: used_blocks_def)
  obtain al where al: "releaseTransfer_loop (allocator ins) t = Some (al, t\<lparr>xfer_payload_middle := None\<rparr>)"
      "pool_inv al (rev (addrs (lay_held L)) @ lay_free L) (?U - ?H)" "same_on (- ?H) (allocator ins) al"
    using release_transfer_loop [OF canard_inv_pool [OF inv] ch sub] by (auto elim!: returnsE)
  have U: "set (used_blocks ?L') = ?U - ?H" "distinct (used_blocks ?L')"
    using dist by (auto simp: used_blocks_def)
  have agree: "arena al c = arena (allocator ins) c" if "c \<in> ?U - ?H" for c
    using al(3) that by (simp add: same_on_def)
  have txU: "set (addrs (lay_tx L)) \<subseteq> ?U - ?H" and rxU: "set (concat (map rx_addrs (lay_rx L))) \<subseteq> ?U - ?H"
    using dist by (auto simp: used_blocks_def)
  have tx: "chain (tx_view (arena al)) (tx_queue ins) (lay_tx L)"
  proof -
    have "chain (tx_view (arena al)) (tx_queue ins) (lay_tx L) =
        chain (tx_view (arena (allocator ins))) (tx_queue ins) (lay_tx L)"
      by (rule tx_agree) (use txU agree in blast)
    then show ?thesis using inv by (simp add: canard_inv_def Let_def)
  qed
  let ?m' = "\<lambda>c. if c \<in> ?H then arena (allocator ins) c else arena al c"
  have rx: "chain (rx_view (arena al)) (rx_states ins) (map rx_head (lay_rx L))"
  proof -
    have "chain (rx_view (arena al)) (rx_states ins) (map rx_head (lay_rx L)) =
        chain (rx_view (arena (allocator ins))) (rx_states ins) (map rx_head (lay_rx L))"
    proof (rule rx_agree)
      have "set (map fst (lay_rx L)) \<subseteq> set (concat (map rx_addrs (lay_rx L)))" by (auto simp: rx_addrs_def)
      then show "arena al c = arena (allocator ins) c" if "c \<in> set (addrs (map rx_head (lay_rx L)))" for c
        using that rxU agree unfolding addrs_rx_heads by blast
    qed
    then show ?thesis using inv by (simp add: canard_inv_def Let_def)
  qed
  have bufs: "chain (buf_view (arena al)) (rx_buffer_blocks (fst (snd e))) (snd (snd e))"
    if e: "e \<in> set (lay_rx L)" for e
  proof -
    have "chain (buf_view (arena al)) (rx_buffer_blocks (fst (snd e))) (snd (snd e)) =
        chain (buf_view (arena (allocator ins))) (rx_buffer_blocks (fst (snd e))) (snd (snd e))"
    proof (rule buf_agree)
      have "set (addrs (snd (snd e))) \<subseteq> set (concat (map rx_addrs (lay_rx L)))"
        using e by (auto simp: rx_addrs_def)
      then show "arena al c = arena (allocator ins) c" if "c \<in> set (addrs (snd (snd e)))" for c
        using that rxU agree by blast
    qed
    then show ?thesis using inv e by (simp add: canard_inv_def Let_def)
  qed
  have "canard_inv (ins\<lparr>allocator := al\<rparr>) ?L' None"
    unfolding canard_inv_def Let_def using al(2) U tx rx bufs by simp
  then show ?thesis
    by (simp add: canardReleaseRxTransferPayload_def al(1))
qed

section \<open>The contract of the application\<close>

text \<open>
  What the library relies on when it shows a transfer: the callback returns, leaves the receive
  states alone, and owns no block afterwards that the transfer does not own. It may send, peek and
  pop frames, release the payload, and change its own state. \<open>app_inv\<close> is what the application
  itself relies on, given the identifier of the node.
\<close>

locale rx_application =
  fixes on_reception :: "'a on_reception"
    and app_inv :: "'a \<Rightarrow> u8 \<Rightarrow> bool"
  assumes reception: "canard_inv ins L (xfer_payload_middle t) \<Longrightarrow> delivers t (lay_held L) p \<Longrightarrow>
    app_inv app (node_id ins) \<Longrightarrow>
    returns (on_reception app ins t) (\<lambda>(app', ins', t'). app_inv app' (node_id ins') \<and>
      (xfer_payload_middle t = None \<longrightarrow> xfer_payload_middle t' = None) \<and>
      (\<exists>L'. canard_inv ins' L' (xfer_payload_middle t') \<and> lay_rx L' = lay_rx L))"
begin

text \<open>Showing a transfer to the application and moving on to the next one.\<close>

lemma single_transfer:
  assumes inv: "canard_inv ins L None" and rx: "lay_rx L = es1 @ (a, r, []) # es2"
    and app: "app_inv app (node_id ins)"
    and f: "length (frame_data f) = 8" "0 < unat (frame_data_len f)" "unat (frame_data_len f) \<le> 8"
  shows "\<exists>ins0 L0 t0 app' ins1 t1 ins' L'.
    canard_inv ins0 L0 (xfer_payload_middle t0) \<and>
    delivers t0 [] (take (unat (frame_data_len f) - 1) (frame_data f)) \<and>
    t0 = (transfer_of_frame f tb ts)\<lparr>xfer_payload_head := xfer_payload_head t0,
      xfer_payload_len := xfer_payload_len t0\<rparr> \<and>
    on_reception app ins0 t0 = Some (app', ins1, t1) \<and>
    rx_single on_reception app ins a f tb ts = Some (app', ins') \<and> app_inv app' (node_id ins') \<and>
    canard_inv ins' L' None \<and>
    lay_rx L' = es1 @ (a, (restarted r (rx_transfer_id r + 1))\<lparr>rx_timestamp_usec := ts\<rparr>, []) # es2"
proof -
  let ?data = "frame_data f" and ?n = "unat (frame_data_len f) - 1"
  have nb: "rx_buffer_blocks r = None"
    using canard_inv_entry [OF inv rx] by (simp add: entry_inv_def)
  let ?t = "rx_timestamp_usec_update (\<lambda>_. ts)"
  obtain al1 where al1: "set_rx (allocator ins) a ?t = Some al1"
      "entry_inv al1 (lay_free L) (others L a []) a (?t r) []"
      "same_on (others L a []) (allocator ins) al1"
    using entry_set_rx [where f = ?t, OF canard_inv_entry [OF inv rx]] by (auto elim!: returnsE)
  let ?ins0 = "ins\<lparr>allocator := al1\<rparr>" and ?L0 = "L\<lparr>lay_free := lay_free L, lay_rx := es1 @ (a, ?t r, []) # es2\<rparr>"
  have inv0: "canard_inv ?ins0 ?L0 None"
    by (rule entry_lift [OF inv rx al1(2,3)]) simp
  define t0 where "t0 = (transfer_of_frame f tb ts)
    \<lparr>xfer_payload_head := Some (bytes_from ?data 0), xfer_payload_len := ucast (frame_data_len f - 1)\<rparr>"
  have mid: "xfer_payload_middle t0 = None" by (simp add: t0_def transfer_of_frame_def)
  have n: "unat (frame_data_len f - 1) = ?n" by (rule unat_minus_1 [OF f(2)])
  have "unat (ucast (frame_data_len f - 1) :: u16) = ?n"
    using n f(3) by (simp add: unsigned_ucast_eq take_bit_eq_mod)
  then have del: "delivers t0 [] (take ?n ?data)"
    using f by (auto simp: delivers_def transfer_byte_def t0_def transfer_of_frame_def bytes_from_def)
  have held: "lay_held ?L0 = []" using inv0 by (simp add: canard_inv_def Let_def)
  obtain app' ins1 t1 L1 where rec: "on_reception app ?ins0 t0 = Some (app', ins1, t1)"
      "app_inv app' (node_id ins1)" "canard_inv ins1 L1 None" "lay_rx L1 = es1 @ (a, ?t r, []) # es2"
    using reception [of ?ins0 ?L0 t0 "take ?n ?data" app] inv0 mid del held app
    by (auto elim!: returnsE)
  obtain al2 where al2: "prepareForNextTransfer (allocator ins1) a = Some al2"
      "same_on (others L1 a []) (allocator ins1) al2"
      "entry_inv al2 (lay_free L1) (others L1 a []) a
        ((?t r)\<lparr>rx_transfer_id := rx_transfer_id r + 1, rx_payload_len := 0, rx_next_toggle := False\<rparr>) []"
    using entry_prepare [OF canard_inv_entry [OF rec(3,4)]] nb by (auto elim!: returnsE)
  have r_eq: "(?t r)\<lparr>rx_transfer_id := rx_transfer_id r + 1, rx_payload_len := 0, rx_next_toggle := False\<rparr> =
      (restarted r (rx_transfer_id r + 1))\<lparr>rx_timestamp_usec := ts\<rparr>"
    using nb by (cases r) simp
  note inv' = entry_lift [OF rec(3,4) al2(3,2), unfolded r_eq, simplified]
  have run: "rx_single on_reception app ins a f tb ts = Some (app', ins1\<lparr>allocator := al2\<rparr>)"
    using al1(1) rec(1) al2(1) by (simp add: rx_single_def t0_def Let_def)
  show ?thesis
    using inv0 mid del rec(1,2) run inv'
    by (intro exI [of _ ?ins0] exI [of _ ?L0] exI [of _ t0] exI [of _ app'] exI [of _ ins1]
        exI [of _ t1] exI [of _ "ins1\<lparr>allocator := al2\<rparr>"] exI) (auto simp: t0_def transfer_of_frame_def)
qed

end

context rx_application
begin

text \<open>
  The last frame of a multi-frame transfer: with the right CRC the application is shown the bytes
  stored so far followed by those of the frame; in both cases all blocks are given back.
\<close>

lemma end_transfer:
  assumes inv: "canard_inv ins L None" and rx: "lay_rx L = es1 @ (a, r, bs) # es2"
    and hold: "holds r bs p" and app: "app_inv app (node_id ins)"
    and f: "length (frame_data f) = 8" "0 < unat (frame_data_len f)" "unat (frame_data_len f) \<le> 8"
    and not_full: "bs \<noteq> [] \<Longrightarrow> length p \<noteq> 6 + 28 * length bs"
    and s: "s = take (unat (frame_data_len f) - 1) (frame_data f)"
  shows "\<exists>app' ins' L' r'.
    rx_end on_reception app ins a f tb ts = Some (app', ins') \<and> app_inv app' (node_id ins') \<and>
    canard_inv ins' L' None \<and> lay_rx L' = es1 @ (a, r', []) # es2 \<and> rx_next r' = rx_next r \<and>
    rx_dtid_tt_snid_dnid r' = rx_dtid_tt_snid_dnid r \<and> rx_payload_len r' = 0 \<and>
    rx_transfer_id r' = rx_transfer_id r + 1 \<and> rx_timestamp_usec r' = rx_timestamp_usec r \<and>
    (if crcAdd (rx_calculated_crc r) s = rx_payload_crc r
     then \<exists>ins0 L0 t0 ins1 t1. canard_inv ins0 L0 (xfer_payload_middle t0) \<and>
       delivers t0 (lay_held L0) (p @ s) \<and>
       t0 = (transfer_of_frame f tb ts)\<lparr>xfer_payload_head := xfer_payload_head t0,
         xfer_payload_middle := xfer_payload_middle t0, xfer_payload_tail := xfer_payload_tail t0,
         xfer_payload_len := xfer_payload_len t0\<rparr> \<and>
       on_reception app ins0 t0 = Some (app', ins1, t1)
     else app' = app \<and> lay_tx L' = lay_tx L)"
proof -
  let ?data = "frame_data f" and ?n = "unat (frame_data_len f) - 1" and ?R = "others L a bs"
  have n: "unat (frame_data_len f - 1) = ?n" by (rule unat_minus_1 [OF f(2)])
  have nle: "?n \<le> length ?data" using f by simp
  obtain off al1 bs' h where al1: "rx_store_end (allocator ins) a f = Some (off, al1)"
      "entry_inv al1 (lay_free L) ?R a (r\<lparr>rx_buffer_head := h\<rparr>) bs'" "same_on ?R (allocator ins) al1"
      "off \<le> ?n" "addrs bs' = addrs bs" "stored h bs' (p @ take off ?data)"
      "off < ?n \<longrightarrow> length p + off = 6 + 28 * length bs'"
    using rx_store_end_correct [OF canard_inv_entry [OF inv rx] hold n [symmetric] nle not_full]
    by (auto elim!: returnsE)
  let ?r1 = "r\<lparr>rx_buffer_head := h\<rparr>"
  let ?ins1 = "ins\<lparr>allocator := al1\<rparr>" and ?L1 = "L\<lparr>lay_free := lay_free L, lay_rx := es1 @ (a, ?r1, bs') # es2\<rparr>"
  have inv1: "canard_inv ?ins1 ?L1 None"
    by (rule entry_lift [OF inv rx al1(2,3)]) simp
  have rx1: "lay_rx ?L1 = es1 @ (a, ?r1, bs') # es2" by simp
  obtain al2 where al2: "set_rx al1 a (rx_buffer_blocks_update (\<lambda>_. None)) = Some al2"
      "canard_inv (ins\<lparr>allocator := al2\<rparr>) (L\<lparr>lay_free := lay_free L,
        lay_rx := es1 @ (a, ?r1\<lparr>rx_buffer_blocks := None\<rparr>, []) # es2, lay_held := bs'\<rparr>) (rx_buffer_blocks r)"
    using detach_layout [OF inv1 rx1] by (auto elim!: returnsE)
  let ?r2 = "?r1\<lparr>rx_buffer_blocks := None\<rparr>" and ?crc = "crcAdd (rx_calculated_crc r) s"
  let ?ins2 = "ins\<lparr>allocator := al2\<rparr>"
  let ?L2 = "L\<lparr>lay_free := lay_free L, lay_rx := es1 @ (a, ?r2, []) # es2, lay_held := bs'\<rparr>"
  have rx2: "lay_rx ?L2 = es1 @ (a, ?r2, []) # es2" by simp
  have crc: "crcAdd_ptr c (Some ?data) (unat (frame_data_len f - 1)) = Some (crcAdd c s)" for c
    unfolding n using s nle by (cases "?n = 0") (auto simp: crcAdd_ptr_def)
  let ?c = "rx_calculated_crc_update (\<lambda>_. ?crc)"
  obtain al3 where al3: "set_rx al2 a ?c = Some al3"
      "entry_inv al3 (lay_free ?L2) (others ?L2 a []) a (?c ?r2) []"
      "same_on (others ?L2 a []) al2 al3"
    using entry_set_rx [where f = ?c, OF canard_inv_entry [OF al2(2) rx2]] by (auto elim!: returnsE)
  let ?ins3 = "ins\<lparr>allocator := al3\<rparr>" and ?L3 = "?L2\<lparr>lay_free := lay_free ?L2, lay_rx := es1 @ (a, ?c ?r2, []) # es2\<rparr>"
  have same3: "same_on (others ?L2 a []) (allocator ?ins2) al3" using al3(3) by simp
  have inv3: "canard_inv ?ins3 ?L3 (rx_buffer_blocks r)"
    using entry_lift [OF al2(2) rx2 al3(2) same3] by simp
  define t0 where "t0 = (transfer_of_frame f tb ts)
    \<lparr>xfer_payload_head := Some h, xfer_payload_middle := rx_buffer_blocks r,
     xfer_payload_tail := (if off \<ge> ?n then None else Some (bytes_from ?data off)),
     xfer_payload_len := ucast (rx_payload_len r) + ucast (frame_data_len f - 1)\<rparr>"
  have tlen: "unat (xfer_payload_len t0) = length p + ?n"
  proof -
    have "unat (rx_payload_len r) = length p" "length p < 1024"
      using hold unat10_less [of "rx_payload_len r"] by (simp_all add: holds_def)
    then show ?thesis
      using n f(3) by (simp add: t0_def unat_word_ariths unsigned_ucast_eq take_bit_eq_mod)
  qed
  have mid: "xfer_payload_middle t0 = rx_buffer_blocks r" by (simp add: t0_def)
  have blocks: "rx_buffer_blocks r = None \<longleftrightarrow> bs' = []"
    using inv1 by (cases bs') (auto simp: canard_inv_def Let_def)
  have del: "delivers t0 bs' (p @ s)"
    unfolding s using al1(4,6,7) nle tlen mid blocks
    by (intro stored_delivers [where h = h and off = off]) (auto simp: t0_def)
  have finish: "\<exists>ins' L' r'.
      (do { (ins, t) \<leftarrow> canardReleaseRxTransferPayload ins4 t4;
            al \<leftarrow> prepareForNextTransfer (allocator ins) a;
            Some (app4, ins\<lparr>allocator := al\<rparr>) }) = Some (app4, ins') \<and> node_id ins' = node_id ins4 \<and>
      canard_inv ins' L' None \<and> lay_rx L' = es1 @ (a, r', []) # es2 \<and> lay_tx L' = lay_tx L4 \<and>
      rx_next r' = rx_next r \<and> rx_dtid_tt_snid_dnid r' = rx_dtid_tt_snid_dnid r \<and>
      rx_payload_len r' = 0 \<and> rx_transfer_id r' = rx_transfer_id r + 1 \<and> rx_timestamp_usec r' = rx_timestamp_usec r"
    if inv4: "canard_inv ins4 L4 (xfer_payload_middle t4)" "lay_rx L4 = es1 @ (a, ?c ?r2, []) # es2"
    for app4 :: 'a and ins4 t4 L4
  proof -
    let ?L5 = "L4\<lparr>lay_free := rev (addrs (lay_held L4)) @ lay_free L4, lay_held := []\<rparr>"
    obtain ins5 t5 where rel: "canardReleaseRxTransferPayload ins4 t4 = Some (ins5, t5)"
        "canard_inv ins5 ?L5 None" "same_node ins4 ins5"
      using release_layout [OF inv4(1)] by (auto elim!: returnsE)
    have rx5: "lay_rx ?L5 = es1 @ (a, ?c ?r2, []) # es2" using inv4(2) by simp
    let ?r5 = "(?c ?r2)\<lparr>rx_transfer_id := rx_transfer_id (?c ?r2) + 1, rx_payload_len := 0, rx_next_toggle := False\<rparr>"
    obtain al6 where al6: "prepareForNextTransfer (allocator ins5) a = Some al6"
        "entry_inv al6 (lay_free ?L5) (others ?L5 a []) a ?r5 []"
        "same_on (others ?L5 a []) (allocator ins5) al6"
      using entry_prepare [OF canard_inv_entry [OF rel(2) rx5]] by (auto elim!: returnsE)
    have nx: "rx_next ?r5 = rx_next (?c ?r2)" by simp
    from entry_lift [OF rel(2) rx5 al6(2,3) nx] show ?thesis
      using rel(1,3) al6(1)
      by (intro exI [of _ "ins5\<lparr>allocator := al6\<rparr>"] exI conjI) (assumption | simp)+
  qed
  have run: "rx_end on_reception app ins a f tb ts =
    do { (app, ins, t) \<leftarrow> (if ?crc = rx_payload_crc r then on_reception app ?ins3 t0
           else Some (app, ?ins3, t0));
         (ins, t) \<leftarrow> canardReleaseRxTransferPayload ins t;
         al \<leftarrow> prepareForNextTransfer (allocator ins) a;
         Some (app, ins\<lparr>allocator := al\<rparr>) }"
    unfolding rx_end_def
    using al1(1) al2(1) al3(1) crc entry_get_rx [OF al1(2)] n by (simp add: t0_def Let_def)
  show ?thesis
  proof (cases "?crc = rx_payload_crc r")
    case False
    have "canard_inv ?ins3 ?L3 (xfer_payload_middle t0)" "lay_rx ?L3 = es1 @ (a, ?c ?r2, []) # es2"
      using inv3 mid by simp_all
    from finish [OF this, of app] False app show ?thesis
      unfolding run by fastforce
  next
    case True
    have "canard_inv ?ins3 ?L3 (xfer_payload_middle t0)" using inv3 mid by simp
    moreover have "delivers t0 (lay_held ?L3) (p @ s)" using del by simp
    ultimately obtain app4 ins4 t4 L4 where rec: "on_reception app ?ins3 t0 = Some (app4, ins4, t4)"
        "app_inv app4 (node_id ins4)" "canard_inv ins4 L4 (xfer_payload_middle t4)"
        "lay_rx L4 = es1 @ (a, ?c ?r2, []) # es2"
      using reception [of ?ins3 ?L3 t0 "p @ s" app] app by (auto elim!: returnsE)
    from finish [OF rec(3,4), of app4] obtain ins' L' r' where fin:
        "(do { (ins, t) \<leftarrow> canardReleaseRxTransferPayload ins4 t4;
               al \<leftarrow> prepareForNextTransfer (allocator ins) a;
               Some (app4, ins\<lparr>allocator := al\<rparr>) }) = Some (app4, ins')"
        "node_id ins' = node_id ins4" "canard_inv ins' L' None" "lay_rx L' = es1 @ (a, r', []) # es2"
        "rx_next r' = rx_next r" "rx_dtid_tt_snid_dnid r' = rx_dtid_tt_snid_dnid r"
        "rx_payload_len r' = 0" "rx_transfer_id r' = rx_transfer_id r + 1"
        "rx_timestamp_usec r' = rx_timestamp_usec r"
      by blast
    have "rx_end on_reception app ins a f tb ts = Some (app4, ins')"
      unfolding run using True rec(1) fin(1) by simp
    moreover have "app_inv app4 (node_id ins')" using fin(2) rec(2) by simp
    moreover have "\<exists>ins0 L0 t0 ins1 t1. canard_inv ins0 L0 (xfer_payload_middle t0) \<and>
       delivers t0 (lay_held L0) (p @ s) \<and>
       t0 = (transfer_of_frame f tb ts)\<lparr>xfer_payload_head := xfer_payload_head t0,
         xfer_payload_middle := xfer_payload_middle t0, xfer_payload_tail := xfer_payload_tail t0,
         xfer_payload_len := xfer_payload_len t0\<rparr> \<and>
       on_reception app ins0 t0 = Some (app4, ins1, t1)"
      using rec(1) \<open>canard_inv ?ins3 ?L3 (xfer_payload_middle t0)\<close> \<open>delivers t0 (lay_held ?L3) (p @ s)\<close>
      by (intro exI [of _ ?ins3] exI [of _ ?L3] exI [of _ t0] exI [of _ ins4] exI [of _ t4] conjI)
         (assumption | simp add: t0_def)+
    ultimately show ?thesis
      using True fin(3-)
      by (intro exI [of _ app4] exI [of _ ins'] exI [of _ L'] exI [of _ r'] conjI)
         (assumption | simp)+
  qed
qed

end

section \<open>The invariant of the receiver\<close>

text \<open>
  Every state holds the bytes its length member counts, and there is one state per descriptor.
\<close>

definition entry_ok :: "rx_entry \<Rightarrow> bool" where
  "entry_ok e \<longleftrightarrow> (\<exists>p. holds (fst (snd e)) (snd (snd e)) p)"

definition rx_inv :: "CanardInstance \<Rightarrow> layout \<Rightarrow> bool" where
  "rx_inv ins L \<longleftrightarrow> canard_inv ins L None \<and>
     (\<forall>e \<in> set (lay_rx L). entry_ok e) \<and> distinct (map entry_dtid (lay_rx L))"

definition good_frame :: "CanardCANFrame \<Rightarrow> bool" where
  "good_frame f \<longleftrightarrow> length (frame_data f) = 8 \<and> unat (frame_data_len f) \<le> 8"

text \<open>
  The situations in which the handler runs into an assertion or loses count: a single-frame transfer
  in a state that still owns blocks, the last frame when the last block is exactly full, and a
  transfer that outgrows the ten bits of \<open>payload_len\<close>.
\<close>

definition rx_trap :: "CanardRxState \<Rightarrow> buffer_chain \<Rightarrow> u8 \<Rightarrow> u64 \<Rightarrow> bool" where
  "rx_trap r bs tail_byte ts \<longleftrightarrow> \<not> need_restart r tail_byte ts \<and>
     (IS_START_OF_TRANSFER tail_byte \<and> IS_END_OF_TRANSFER tail_byte \<and> bs \<noteq> [] \<or>
      \<not> IS_START_OF_TRANSFER tail_byte \<and> IS_END_OF_TRANSFER tail_byte \<and> bs \<noteq> [] \<and>
        unat (rx_payload_len r) = 6 + 28 * length bs \<or>
      \<not> IS_END_OF_TRANSFER tail_byte \<and> unat (rx_payload_len r) + 7 \<ge> 1024)"

text \<open>What the entry \<open>(a, r, bs)\<close> in the middle of the states may become.\<close>

definition entry_step :: "CanardInstance \<Rightarrow> rx_entry list \<Rightarrow> addr \<Rightarrow> u32 \<Rightarrow> rx_entry list \<Rightarrow> bool" where
  "entry_step ins' es1 a d es2 \<longleftrightarrow>
     (\<exists>L' r' bs' p'. canard_inv ins' L' None \<and> lay_rx L' = es1 @ (a, r', bs') # es2 \<and>
        rx_dtid_tt_snid_dnid r' = d \<and> holds r' bs' p')"

lemma entry_step_lift:
  assumes "canard_inv ins L None" and "lay_rx L = es1 @ (a, r, bs) # es2"
    and "entry_inv al' fs' (others L a bs) a r' bs'" and "same_on (others L a bs) (allocator ins) al'"
    and "rx_next r' = rx_next r" and "rx_dtid_tt_snid_dnid r' = rx_dtid_tt_snid_dnid r" and "holds r' bs' p'"
  shows "entry_step (ins\<lparr>allocator := al'\<rparr>) es1 a (rx_dtid_tt_snid_dnid r) es2"
  unfolding entry_step_def
  using entry_lift [OF assms(1-5)] assms(6,7)
  by (intro exI [of _ "L\<lparr>lay_free := fs', lay_rx := es1 @ (a, r', bs') # es2\<rparr>"] exI [of _ r'] exI [of _ bs']
      exI [of _ p']) simp

lemma store_outcome_step:
  assumes "canard_inv ins L None" and "lay_rx L = es1 @ (a, r, bs) # es2"
    and "store_outcome (allocator ins) (lay_free L) (others L a bs) a r bs p s ts pcrc al'"
  shows "entry_step (ins\<lparr>allocator := al'\<rparr>) es1 a (rx_dtid_tt_snid_dnid r) es2"
  using assms(3) unfolding store_outcome_def stores_def
  by (elim conjE disjE exE) (rule entry_step_lift [OF assms(1,2)]; auto intro: holds_empty)+

lemma entry_stepI:
  "canard_inv ins' L' None \<Longrightarrow> lay_rx L' = es1 @ (a, r', bs') # es2 \<Longrightarrow> rx_dtid_tt_snid_dnid r' = d \<Longrightarrow>
     holds r' bs' p' \<Longrightarrow> entry_step ins' es1 a d es2"
  unfolding entry_step_def by blast

context rx_application
begin

lemma dispatch_step:
  assumes inv: "canard_inv ins L None" and rx: "lay_rx L = es1 @ (a, r, bs) # es2"
    and hold: "holds r bs p" and app: "app_inv app (node_id ins)"
    and f: "good_frame f" "0 < unat (frame_data_len f)"
    and single: "IS_START_OF_TRANSFER tb \<Longrightarrow> IS_END_OF_TRANSFER tb \<Longrightarrow> bs = []"
    and full: "\<not> IS_START_OF_TRANSFER tb \<Longrightarrow> IS_END_OF_TRANSFER tb \<Longrightarrow> bs \<noteq> [] \<Longrightarrow>
      length p \<noteq> 6 + 28 * length bs"
    and room: "\<not> IS_END_OF_TRANSFER tb \<Longrightarrow> length p + 7 < 1024"
  shows "returns (rx_dispatch on_reception app ins a f tb ts) (\<lambda>(app', ins').
    app_inv app' (node_id ins') \<and> entry_step ins' es1 a (rx_dtid_tt_snid_dnid r) es2)"
proof -
  have f': "length (frame_data f) = 8" "unat (frame_data_len f) \<le> 8" using f(1) by (simp_all add: good_frame_def)
  note ent = canard_inv_entry [OF inv rx]
  have same: "entry_step ins es1 a (rx_dtid_tt_snid_dnid r) es2"
    unfolding entry_step_def using inv rx hold by blast
  consider (single) "IS_START_OF_TRANSFER tb" "IS_END_OF_TRANSFER tb"
    | (ignored) "\<not> (IS_START_OF_TRANSFER tb \<and> IS_END_OF_TRANSFER tb)"
        "TOGGLE_BIT tb \<noteq> rx_next_toggle r \<or> TRANSFER_ID_FROM_TAIL_BYTE tb \<noteq> ucast (rx_transfer_id r)"
    | (first) "IS_START_OF_TRANSFER tb" "\<not> IS_END_OF_TRANSFER tb"
        "\<not> (TOGGLE_BIT tb \<noteq> rx_next_toggle r \<or> TRANSFER_ID_FROM_TAIL_BYTE tb \<noteq> ucast (rx_transfer_id r))"
    | (middle) "\<not> IS_START_OF_TRANSFER tb" "\<not> IS_END_OF_TRANSFER tb"
        "\<not> (TOGGLE_BIT tb \<noteq> rx_next_toggle r \<or> TRANSFER_ID_FROM_TAIL_BYTE tb \<noteq> ucast (rx_transfer_id r))"
    | (last) "\<not> IS_START_OF_TRANSFER tb" "IS_END_OF_TRANSFER tb"
        "\<not> (TOGGLE_BIT tb \<noteq> rx_next_toggle r \<or> TRANSFER_ID_FROM_TAIL_BYTE tb \<noteq> ucast (rx_transfer_id r))"
    by blast
  then show ?thesis
  proof cases
    case single
    then have rx': "lay_rx L = es1 @ (a, r, []) # es2" using rx assms(7) by simp
    let ?r = "(restarted r (rx_transfer_id r + 1))\<lparr>rx_timestamp_usec := ts\<rparr>"
    obtain app' ins' L' where "rx_single on_reception app ins a f tb ts = Some (app', ins')"
        "app_inv app' (node_id ins')" "canard_inv ins' L' None" "lay_rx L' = es1 @ (a, ?r, []) # es2"
      using single_transfer [OF inv rx' app f'(1) f(2) f'(2), of tb ts] by blast
    moreover have "holds ?r [] []" by (rule holds_empty) simp
    ultimately show ?thesis
      using single by (auto simp: rx_dispatch_def intro: entry_stepI)
  next
    case ignored
    then show ?thesis
      using app same by (auto simp: rx_dispatch_def entry_get_rx [OF ent])
  next
    case first
    show ?thesis
    proof (cases "3 < unat (frame_data_len f)")
      case False
      then have "rx_first (allocator ins) a f ts = Some (allocator ins)"
        by (simp add: rx_first_def word_le_nat_alt)
      then show ?thesis
        using first app same by (auto simp: rx_dispatch_def entry_get_rx [OF ent])
    next
      case True
      from rx_first_entry [OF ent hold f'(1) True f'(2) room [OF first(2)] refl refl, of ts]
      show ?thesis
        using first app store_outcome_step [OF inv rx]
        by (auto simp: rx_dispatch_def entry_get_rx [OF ent] elim!: returnsE)
    qed
  next
    case middle
    from rx_middle_entry [OF ent hold f'(1) f(2) f'(2) room [OF middle(2)] refl]
    show ?thesis
      using middle app store_outcome_step [OF inv rx]
      by (auto simp: rx_dispatch_def entry_get_rx [OF ent] elim!: returnsE)
  next
    case last
    obtain app' ins' L' r' where "rx_end on_reception app ins a f tb ts = Some (app', ins')"
        "app_inv app' (node_id ins')" "canard_inv ins' L' None" "lay_rx L' = es1 @ (a, r', []) # es2"
        "rx_dtid_tt_snid_dnid r' = rx_dtid_tt_snid_dnid r" "rx_payload_len r' = 0"
      using end_transfer [OF inv rx hold app f'(1) f(2) f'(2) full [OF last(1,2)] refl, of tb ts] by blast
    moreover from this(6) have "holds r' [] []" by (rule holds_empty)
    ultimately show ?thesis
      using last by (auto simp: rx_dispatch_def entry_get_rx [OF ent] intro: entry_stepI)
  qed
qed

end

section \<open>Looking up\<close>

text \<open>
  How the entry found for a frame relates to the states there were: it is one of them, with another
  calculated CRC at most, or a new one in front.
\<close>

definition looked_up ::
  "layout \<Rightarrow> u32 \<Rightarrow> rx_entry list \<Rightarrow> addr \<Rightarrow> CanardRxState \<Rightarrow> buffer_chain \<Rightarrow> rx_entry list \<Rightarrow> bool" where
  "looked_up L d es1 a r bs es2 \<longleftrightarrow> rx_dtid_tt_snid_dnid r = d \<and>
     ((\<exists>r0 c. lay_rx L = es1 @ (a, r0, bs) # es2 \<and> r = r0\<lparr>rx_calculated_crc := c\<rparr>) \<or>
      es1 = [] \<and> es2 = lay_rx L \<and> bs = [] \<and> rx_timestamp_usec r = 0 \<and> rx_payload_len r = 0 \<and>
        (\<forall>e \<in> set (lay_rx L). entry_dtid e \<noteq> d))"

definition lookup_ok :: "layout \<Rightarrow> u32 \<Rightarrow> CanardInstance \<Rightarrow> addr \<Rightarrow> bool \<Rightarrow> u16 \<Rightarrow> bool" where
  "lookup_ok L d ins' a start c \<longleftrightarrow>
     (\<exists>L' es1 r bs es2. canard_inv ins' L' None \<and> lay_rx L' = es1 @ (a, r, bs) # es2 \<and>
        looked_up L d es1 a r bs es2 \<and>
        lay_free L' = (if \<exists>e \<in> set (lay_rx L). entry_dtid e = d then lay_free L else tl (lay_free L)) \<and>
        (start \<longrightarrow> rx_calculated_crc r = c))"

lemma lookup_okI:
  "canard_inv ins' L' None \<Longrightarrow> lay_rx L' = es1 @ (a, r, bs) # es2 \<Longrightarrow> looked_up L d es1 a r bs es2 \<Longrightarrow>
     lay_free L' = (if \<exists>e \<in> set (lay_rx L). entry_dtid e = d then lay_free L else tl (lay_free L)) \<Longrightarrow>
     (start \<Longrightarrow> rx_calculated_crc r = c) \<Longrightarrow> lookup_ok L d ins' a start c"
  unfolding lookup_ok_def by blast

text \<open>The answer of the application to the offer of a transfer.\<close>

abbreviation offer :: "should_accept \<Rightarrow> CanardInstance \<Rightarrow> CanardCANFrame \<Rightarrow> bool \<times> u64" where
  "offer acc ins f \<equiv> acc ins (extractDataType (frame_id f)) (extractTransferType (frame_id f))
     (SOURCE_ID_FROM_ID (frame_id f))"

lemma find_entry:
  "(\<exists>a r bs es1 es2. es = es1 @ (a, r, bs) # es2 \<and> rx_dtid_tt_snid_dnid r = d \<and>
      (\<forall>e \<in> set es1. entry_dtid e \<noteq> d)) \<or> (\<forall>e \<in> set es. entry_dtid e \<noteq> d)"
proof (induction es)
  case (Cons e es)
  obtain a r bs where e: "e = (a, r, bs)" by (cases e) auto
  show ?case
  proof (cases "rx_dtid_tt_snid_dnid r = d")
    case True
    then have "e # es = [] @ (a, r, bs) # es \<and> rx_dtid_tt_snid_dnid r = d \<and> (\<forall>e \<in> set []. entry_dtid e \<noteq> d)"
      using e by simp
    then show ?thesis by blast
  next
    case False
    from Cons.IH show ?thesis
    proof
      assume "\<exists>a r bs es1 es2. es = es1 @ (a, r, bs) # es2 \<and> rx_dtid_tt_snid_dnid r = d \<and>
        (\<forall>e \<in> set es1. entry_dtid e \<noteq> d)"
      then obtain a' r' bs' es1 es2 where "es = es1 @ (a', r', bs') # es2" "rx_dtid_tt_snid_dnid r' = d"
          "\<forall>e \<in> set es1. entry_dtid e \<noteq> d"
        by blast
      then have "e # es = (e # es1) @ (a', r', bs') # es2 \<and> rx_dtid_tt_snid_dnid r' = d \<and>
          (\<forall>e \<in> set (e # es1). entry_dtid e \<noteq> d)"
        using e False by simp
      then show ?thesis by blast
    qed (use e False in simp)
  qed
qed simp

lemma rx_lookup_layout:
  assumes inv: "canard_inv ins L None"
  shows "returns (rx_lookup acc ins f tb) (\<lambda>(p, ins'). node_id ins' = node_id ins \<and>
    (case p of
       None \<Rightarrow> ins' = ins \<and> (\<not> IS_START_OF_TRANSFER tb \<or> lay_free L = [] \<or> \<not> fst (offer acc ins f))
     | Some a \<Rightarrow> lookup_ok L (frame_descriptor f) ins' a (IS_START_OF_TRANSFER tb)
         (crcAddSignature 0xFFFF (snd (offer acc ins f)))))"
proof -
  let ?d = "frame_descriptor f"
  let ?acc = "offer acc ins f"
  let ?c = "rx_calculated_crc_update (\<lambda>_. crcAddSignature 0xFFFF (snd ?acc))"
  have update: "returns (set_rx (allocator ins1) a ?c) (\<lambda>al. canard_inv (ins1\<lparr>allocator := al\<rparr>)
      (L1\<lparr>lay_free := lay_free L1, lay_rx := es1 @ (a, ?c r, bs) # es2\<rparr>) None)"
    if "canard_inv ins1 L1 None" "lay_rx L1 = es1 @ (a, r, bs) # es2" for ins1 L1 es1 a r bs es2
  proof -
    note ent = canard_inv_entry [OF that]
    obtain al where "set_rx (allocator ins1) a ?c = Some al"
        "entry_inv al (lay_free L1) (others L1 a bs) a (?c r) bs" "same_on (others L1 a bs) (allocator ins1) al"
      using entry_set_rx [where f = ?c, OF ent] by (auto elim!: returnsE)
    then show ?thesis using entry_lift [OF that, of al "lay_free L1" "?c r" bs] by simp
  qed
  have id: "r\<lparr>rx_calculated_crc := rx_calculated_crc r\<rparr> = r" for r :: CanardRxState by simp
  consider (old) a r bs es1 es2 where "lay_rx L = es1 @ (a, r, bs) # es2" "rx_dtid_tt_snid_dnid r = ?d"
      "\<forall>e \<in> set es1. entry_dtid e \<noteq> ?d"
    | (new) "\<forall>e \<in> set (lay_rx L). entry_dtid e \<noteq> ?d"
    using find_entry [of "lay_rx L" ?d] by blast
  then show ?thesis
  proof cases
    case old
    note found = traverseRxStates_found [OF inv old]
    have ex: "\<exists>e \<in> set (lay_rx L). entry_dtid e = ?d" using old(1,2) by auto
    show ?thesis
    proof (cases "IS_START_OF_TRANSFER tb")
      case False
      have "looked_up L ?d es1 a r bs es2"
        unfolding looked_up_def using old(1,2) id [of r] by metis
      then have "lookup_ok L ?d ins a (IS_START_OF_TRANSFER tb) (crcAddSignature 0xFFFF (snd ?acc))"
        using inv old(1) ex False by (intro lookup_okI) auto
      then show ?thesis
        using False found(2) by (simp add: rx_lookup_def)
    next
      case True
      obtain al where al: "set_rx (allocator ins) a ?c = Some al"
          "canard_inv (ins\<lparr>allocator := al\<rparr>) (L\<lparr>lay_free := lay_free L, lay_rx := es1 @ (a, ?c r, bs) # es2\<rparr>) None"
        using update [OF inv old(1)] by (auto elim!: returnsE)
      have "looked_up L ?d es1 a (?c r) bs es2"
        unfolding looked_up_def using old(1,2) by auto
      with al(2) have "lookup_ok L ?d (ins\<lparr>allocator := al\<rparr>) a (IS_START_OF_TRANSFER tb)
          (crcAddSignature 0xFFFF (snd ?acc))"
        using ex by (intro lookup_okI [where L' = "L\<lparr>lay_free := lay_free L, lay_rx := es1 @ (a, ?c r, bs) # es2\<rparr>"
              and ?es1.0 = es1 and ?es2.0 = es2 and bs = bs and r = "?c r"]) simp_all
      then show ?thesis
        using True found(1) al(1) by (auto simp: rx_lookup_def split: prod.splits)
    qed
  next
    case new
    then have nex: "\<not> (\<exists>e \<in> set (lay_rx L). entry_dtid e = ?d)" by blast
    have "List.find (\<lambda>e. entry_dtid e = ?d) (lay_rx L) = None"
      unfolding find_None_iff using new by blast
    then have nf: "findRxState (allocator ins) (rx_states ins) ?d = Some None"
      using findRxState_layout [OF inv, of ?d] by simp
    show ?thesis
    proof (cases "IS_START_OF_TRANSFER tb \<and> fst ?acc")
      case False
      then show ?thesis using nf by (auto simp: rx_lookup_def split: prod.splits)
    next
      case True
      obtain p ins1 where t: "traverseRxStates ins ?d = Some (p, ins1)"
          "case lay_free L of [] \<Rightarrow> p = None \<and> ins1 = ins
           | f # fs \<Rightarrow> p = Some f \<and> node_id ins1 = node_id ins \<and>
               canard_inv ins1 (lay_new_rx L f fs ((init_rx_state ?d)\<lparr>rx_next := rx_states ins\<rparr>)) None"
        using traverseRxStates_new [OF inv new] by (auto elim!: returnsE)
      show ?thesis
      proof (cases "lay_free L")
        case Nil
        then show ?thesis using True t by (auto simp: rx_lookup_def split: prod.splits)
      next
        case (Cons b fs)
        let ?r = "(init_rx_state ?d)\<lparr>rx_next := rx_states ins\<rparr>"
        let ?L1 = "lay_new_rx L b fs ?r"
        have p: "p = Some b" "node_id ins1 = node_id ins" "canard_inv ins1 ?L1 None"
          using t(2) Cons by simp_all
        have rx1: "lay_rx ?L1 = [] @ (b, ?r, []) # lay_rx L" by simp
        obtain al where al: "set_rx (allocator ins1) b ?c = Some al"
            "canard_inv (ins1\<lparr>allocator := al\<rparr>)
              (?L1\<lparr>lay_free := lay_free ?L1, lay_rx := [] @ (b, ?c ?r, []) # lay_rx L\<rparr>) None"
          using update [OF p(3) rx1] by (auto elim!: returnsE)
        have "looked_up L ?d [] b (?c ?r) [] (lay_rx L)"
          unfolding looked_up_def using new by (simp add: init_rx_state_def)
        with al(2) have "lookup_ok L ?d (ins1\<lparr>allocator := al\<rparr>) b (IS_START_OF_TRANSFER tb)
            (crcAddSignature 0xFFFF (snd ?acc))"
          using nex Cons
          by (intro lookup_okI [where L' = "?L1\<lparr>lay_free := lay_free ?L1, lay_rx := [] @ (b, ?c ?r, []) # lay_rx L\<rparr>"
              and ?es1.0 = "[]" and ?es2.0 = "lay_rx L" and bs = "[]" and r = "?c ?r"]) simp_all
        then show ?thesis
          using True t(1) p(1,2) al(1) by (auto simp: rx_lookup_def split: prod.splits)
      qed
    qed
  qed
qed

section \<open>Every frame keeps the invariant\<close>

lemma frame_for_node_len: "frame_for_node ins f \<Longrightarrow> 0 < unat (frame_data_len f)"
  by (auto simp: frame_for_node_def Let_def word_less_nat_alt split: if_splits)

lemma frame_tail_byte_good:
  "good_frame f \<Longrightarrow> 0 < unat (frame_data_len f) \<Longrightarrow>
     frame_tail_byte f = Some (frame_data f ! (unat (frame_data_len f) - 1))"
  by (auto simp: frame_tail_byte_def good_frame_def)

lemma entry_step_rx_inv:
  assumes "rx_inv ins0 L" and "looked_up L d es1 a r bs es2" and "entry_step ins' es1 a d es2"
  shows "\<exists>L'. rx_inv ins' L' \<and> (\<forall>e \<in> set (lay_rx L). entry_dtid e \<noteq> d \<longrightarrow> e \<in> set (lay_rx L'))"
proof -
  obtain L' r' bs' p' where L': "canard_inv ins' L' None" "lay_rx L' = es1 @ (a, r', bs') # es2"
      "rx_dtid_tt_snid_dnid r' = d" "holds r' bs' p'"
    using assms(3) unfolding entry_step_def by blast
  have ok: "\<forall>e \<in> set (lay_rx L). entry_ok e" and dist: "distinct (map entry_dtid (lay_rx L))"
    using assms(1) by (simp_all add: rx_inv_def)
  have rel: "(\<exists>r0. lay_rx L = es1 @ (a, r0, bs) # es2 \<and> rx_dtid_tt_snid_dnid r0 = d) \<or>
      es1 = [] \<and> es2 = lay_rx L \<and> (\<forall>e \<in> set (lay_rx L). entry_dtid e \<noteq> d)"
    using assms(2) by (auto simp: looked_up_def)
  have "\<forall>e \<in> set es1 \<union> set es2. entry_ok e" using rel ok by auto
  moreover have "entry_ok (a, r', bs')" using L'(4) by (auto simp: entry_ok_def)
  ultimately have "\<forall>e \<in> set (lay_rx L'). entry_ok e" using L'(2) by auto
  moreover have "distinct (map entry_dtid (lay_rx L'))"
    using rel
  proof (elim disjE exE conjE)
    fix r0 assume "lay_rx L = es1 @ (a, r0, bs) # es2" "rx_dtid_tt_snid_dnid r0 = d"
    then show ?thesis using dist L'(2,3) by simp
  next
    assume "es1 = []" "es2 = lay_rx L" "\<forall>e \<in> set (lay_rx L). entry_dtid e \<noteq> d"
    then show ?thesis using dist L'(2,3) by force
  qed
  moreover have "\<forall>e \<in> set (lay_rx L). entry_dtid e \<noteq> d \<longrightarrow> e \<in> set (lay_rx L')"
    using rel L'(2) by auto
  ultimately show ?thesis using L'(1) unfolding rx_inv_def by blast
qed

lemma holds_crc: "holds (r\<lparr>rx_calculated_crc := c\<rparr>) bs p = holds r bs p"
  by (simp add: holds_def)

lemma need_restart_crc: "need_restart (r\<lparr>rx_calculated_crc := c\<rparr>) tb ts = need_restart r tb ts"
  by (simp add: need_restart_def)

lemma need_restart_new: "rx_timestamp_usec r = 0 \<Longrightarrow> need_restart r tb ts"
  by (simp add: need_restart_def)

context rx_application
begin

lemma handle_frame_inv:
  assumes inv: "rx_inv ins L" and app: "app_inv app (node_id ins)" and f: "good_frame f"
    and no_trap: "\<And>a r bs. (a, r, bs) \<in> set (lay_rx L) \<Longrightarrow> rx_dtid_tt_snid_dnid r = frame_descriptor f \<Longrightarrow>
      \<not> rx_trap r bs (frame_data f ! (unat (frame_data_len f) - 1)) ts"
  shows "returns (canardHandleRxFrame acc on_reception app ins f ts) (\<lambda>(app', ins').
    app_inv app' (node_id ins') \<and>
    (\<exists>L'. rx_inv ins' L' \<and>
      (\<forall>e \<in> set (lay_rx L). entry_dtid e \<noteq> frame_descriptor f \<longrightarrow> e \<in> set (lay_rx L'))))"
proof (cases "frame_for_node ins f")
  case False
  then show ?thesis using inv app by (auto simp: canardHandleRxFrame_def)
next
  case True
  let ?d = "frame_descriptor f"
  define tb where "tb = frame_data f ! (unat (frame_data_len f) - 1)"
  have len: "0 < unat (frame_data_len f)" by (rule frame_for_node_len [OF True])
  have tail: "frame_tail_byte f = Some tb"
    unfolding tb_def by (rule frame_tail_byte_good [OF f len])
  have cinv: "canard_inv ins L None" using inv by (simp add: rx_inv_def)
  obtain p ins1 where look: "rx_lookup acc ins f tb = Some (p, ins1)" "node_id ins1 = node_id ins"
      "case p of None \<Rightarrow> ins1 = ins
       | Some a \<Rightarrow> lookup_ok L ?d ins1 a (IS_START_OF_TRANSFER tb) (crcAddSignature 0xFFFF (snd (offer acc ins f)))"
    using rx_lookup_layout [OF cinv, of acc f tb] by (auto elim!: returnsE split: option.splits)
  show ?thesis
  proof (cases p)
    case None
    then show ?thesis
      using True tail look inv app by (auto simp: canardHandleRxFrame_def)
  next
    case (Some a)
    obtain L1 es1 r bs es2 where L1: "canard_inv ins1 L1 None" "lay_rx L1 = es1 @ (a, r, bs) # es2"
        "looked_up L ?d es1 a r bs es2"
      using look(3) Some by (auto simp: lookup_ok_def)
    have dr: "rx_dtid_tt_snid_dnid r = ?d" using L1(3) by (simp add: looked_up_def)
    obtain q where q: "holds r bs q"
    proof -
      have "(\<exists>q. holds r bs q) \<or> bs = [] \<and> rx_payload_len r = 0"
        using L1(3) inv by (fastforce simp: looked_up_def rx_inv_def entry_ok_def holds_crc)
      then show ?thesis using that holds_empty by blast
    qed
    have trap: "\<not> rx_trap r bs tb ts"
    proof -
      consider r0 c where "lay_rx L = es1 @ (a, r0, bs) # es2" "r = r0\<lparr>rx_calculated_crc := c\<rparr>"
        | "rx_timestamp_usec r = 0"
        using L1(3) unfolding looked_up_def by blast
      then show ?thesis
      proof cases
        case 1
        then show ?thesis
          using no_trap [of a r0 bs] dr by (simp add: rx_trap_def need_restart_crc tb_def)
      next
        case 2
        then show ?thesis by (simp add: rx_trap_def need_restart_new)
      qed
    qed
    obtain go al where res: "rx_resolve (allocator ins1) a tb ts = Some (go, al)"
        "same_on (others L1 a bs) (allocator ins1) al"
        "if need_restart r tb ts
         then go = IS_START_OF_TRANSFER tb \<and> entry_inv al (rev (addrs bs) @ lay_free L1) (others L1 a bs) a
           (restarted r (ucast (TRANSFER_ID_FROM_TAIL_BYTE tb) + (if IS_START_OF_TRANSFER tb then 0 else 1))) []
         else go \<and> entry_inv al (lay_free L1) (others L1 a bs) a r bs"
      using rx_resolve_entry [OF canard_inv_entry [OF L1(1,2)], of tb ts] by (auto elim!: returnsE)
    let ?ins2 = "ins1\<lparr>allocator := al\<rparr>"
    obtain r2 bs2 q2 L2 where L2: "canard_inv ?ins2 L2 None" "lay_rx L2 = es1 @ (a, r2, bs2) # es2"
        "holds r2 bs2 q2" "rx_dtid_tt_snid_dnid r2 = ?d"
        "need_restart r tb ts \<and> bs2 = [] \<and> q2 = [] \<or> \<not> need_restart r tb ts \<and> r2 = r \<and> bs2 = bs \<and> q2 = q"
    proof (cases "need_restart r tb ts")
      case restart: True
      define t where "t = ucast (TRANSFER_ID_FROM_TAIL_BYTE tb) + (if IS_START_OF_TRANSFER tb then 0 else 1 :: 5 word)"
      let ?r2 = "restarted r t"
      have "canard_inv ?ins2 (L1\<lparr>lay_free := rev (addrs bs) @ lay_free L1, lay_rx := es1 @ (a, ?r2, []) # es2\<rparr>) None"
        using res(2,3) restart unfolding t_def [symmetric] by (intro entry_lift [OF L1(1,2)]) simp_all
      from that [OF this, of ?r2 "[]" "[]"] show ?thesis
        using restart dr by (simp add: holds_empty)
    next
      case False
      have "canard_inv ?ins2 (L1\<lparr>lay_free := lay_free L1, lay_rx := es1 @ (a, r, bs) # es2\<rparr>) None"
        using res(2,3) False by (intro entry_lift [OF L1(1,2)]) simp_all
      from that [OF this, of r bs q] show ?thesis
        using False dr q by simp
    qed
    show ?thesis
    proof (cases go)
      case False
      then have "canardHandleRxFrame acc on_reception app ins f ts = Some (app, ?ins2)"
        using True tail look(1) Some res(1) by (simp add: canardHandleRxFrame_def)
      moreover have "entry_step ?ins2 es1 a ?d es2"
        using L2 by (intro entry_stepI [OF L2(1,2)])
      ultimately show ?thesis
        using entry_step_rx_inv [OF inv L1(3)] app look(2) by simp
    next
      case go: True
      have len2: "unat (rx_payload_len r2) = length q2" using L2(3) by (simp add: holds_def)
      have "returns (rx_dispatch on_reception app ?ins2 a f tb ts) (\<lambda>(app', ins').
          app_inv app' (node_id ins') \<and> entry_step ins' es1 a (rx_dtid_tt_snid_dnid r2) es2)"
        using trap L2(5) len2 app look(2)
        by (intro dispatch_step [OF L2(1-3) _ f len]) (auto simp: rx_trap_def)
      moreover have "canardHandleRxFrame acc on_reception app ins f ts =
          rx_dispatch on_reception app ?ins2 a f tb ts"
        using True tail look(1) Some res(1) go by (simp add: canardHandleRxFrame_def)
      ultimately show ?thesis
        using entry_step_rx_inv [OF inv L1(3)] L2(4) by (auto elim!: returnsE)
    qed
  qed
qed

end

end
