(* ===== verification/Canard_Cleanup.thy ===== *)
theory Canard_Cleanup
  imports Canard_RxHandle
begin

text \<open>
  \<open>canardCleanupStaleTransfers\<close>: the states that are older than the timeout are unlinked and their
  blocks given back; the others stay, in order, and keep what they hold.
\<close>

section \<open>Unlinking one state\<close>

lemma free_entry_pool:
  assumes inv: "canard_inv ins L h" and rx: "lay_rx L = es1 @ (a, r, []) # es2"
  shows "\<exists>al. freeBlock (allocator ins) (Some a) = Some al \<and>
    pool_inv al (a # lay_free L) (set (used_blocks L) - {a}) \<and>
    (\<forall>c. c \<noteq> a \<longrightarrow> arena al c = arena (allocator ins) c)"
proof -
  have "a \<in> set (used_blocks L)" using rx by (simp add: used_blocks_def)
  from pool.release_block [OF canard_inv_pool [OF inv] this] show ?thesis .
qed

lemma unlink_lists:
  assumes inv: "canard_inv ins L h" and rx: "lay_rx L = es1 @ (a, r, []) # es2"
    and m: "\<forall>c. c \<noteq> a \<longrightarrow> m c = arena (allocator ins) c"
  shows "chain (tx_view m) (tx_queue ins) (lay_tx L)" and "chain (buf_view m) h (lay_held L)"
    and "segment (rx_view m) (rx_states ins) (map rx_head es1) (Some a)"
    and "chain (rx_view m) (rx_next r) (map rx_head es2)"
    and "\<forall>e \<in> set es1 \<union> set es2. chain (buf_view m) (rx_buffer_blocks (fst (snd e))) (snd (snd e))"
proof -
  let ?m = "arena (allocator ins)"
  have dist: "distinct (used_blocks L)" using inv by (simp add: canard_inv_def Let_def)
  have na: "a \<notin> set (addrs (lay_tx L))" "a \<notin> set (addrs (lay_held L))"
      "a \<notin> set (concat (map rx_addrs es1))" "a \<notin> set (concat (map rx_addrs es2))"
    using dist rx by (auto simp: used_blocks_def)
  then have heads: "a \<notin> set (map fst es1)" "a \<notin> set (map fst es2)"
    by (auto simp: rx_addrs_def)
  have bl: "a \<notin> set (addrs (snd (snd e)))" if "e \<in> set es1 \<union> set es2" for e
    using na(3,4) that by (auto simp: rx_addrs_def)
  have old: "chain (tx_view ?m) (tx_queue ins) (lay_tx L)" "chain (buf_view ?m) h (lay_held L)"
      "segment (rx_view ?m) (rx_states ins) (map rx_head es1) (Some a)"
      "chain (rx_view ?m) (rx_next r) (map rx_head es2)"
      "\<forall>e \<in> set es1 \<union> set es2. chain (buf_view ?m) (rx_buffer_blocks (fst (snd e))) (snd (snd e))"
    using inv rx by (auto simp: canard_inv_def Let_def segment_append rx_view_get)
  have "chain (tx_view m) (tx_queue ins) (lay_tx L) = chain (tx_view ?m) (tx_queue ins) (lay_tx L)"
    by (rule tx_agree) (use m na(1) in auto)
  then show "chain (tx_view m) (tx_queue ins) (lay_tx L)" using old(1) by simp
  have "chain (buf_view m) h (lay_held L) = chain (buf_view ?m) h (lay_held L)"
    by (rule buf_agree) (use m na(2) in auto)
  then show "chain (buf_view m) h (lay_held L)" using old(2) by simp
  have "segment (rx_view m) (rx_states ins) (map rx_head es1) (Some a) =
      segment (rx_view ?m) (rx_states ins) (map rx_head es1) (Some a)"
    by (rule rx_agree) (use m heads(1) in \<open>auto simp del: set_map\<close>)
  then show "segment (rx_view m) (rx_states ins) (map rx_head es1) (Some a)" using old(3) by simp
  have "chain (rx_view m) (rx_next r) (map rx_head es2) = chain (rx_view ?m) (rx_next r) (map rx_head es2)"
    by (rule rx_agree) (use m heads(2) in \<open>auto simp del: set_map\<close>)
  then show "chain (rx_view m) (rx_next r) (map rx_head es2)" using old(4) by simp
  show "\<forall>e \<in> set es1 \<union> set es2. chain (buf_view m) (rx_buffer_blocks (fst (snd e))) (snd (snd e))"
  proof
    fix e assume e: "e \<in> set es1 \<union> set es2"
    have "chain (buf_view m) (rx_buffer_blocks (fst (snd e))) (snd (snd e)) =
        chain (buf_view ?m) (rx_buffer_blocks (fst (snd e))) (snd (snd e))"
      by (rule buf_agree) (use m bl [OF e] in auto)
    then show "chain (buf_view m) (rx_buffer_blocks (fst (snd e))) (snd (snd e))" using old(5) e by blast
  qed
qed

lemma unlink_used:
  assumes "canard_inv ins L h" and "lay_rx L = es1 @ (a, r, []) # es2"
    and "concat (map rx_addrs es1') = concat (map rx_addrs es1)"
  shows "set (used_blocks (L\<lparr>lay_free := fs, lay_rx := es1' @ es2\<rparr>)) = set (used_blocks L) - {a} \<and>
    distinct (used_blocks (L\<lparr>lay_free := fs, lay_rx := es1' @ es2\<rparr>))"
  using assms by (auto simp: canard_inv_def Let_def used_blocks_def)

lemma unlink_first:
  assumes inv: "canard_inv ins L h" and rx: "lay_rx L = (a, r, []) # es2"
  shows "\<exists>al. freeBlock (allocator ins) (Some a) = Some al \<and>
    canard_inv (ins\<lparr>allocator := al, rx_states := rx_next r\<rparr>)
      (L\<lparr>lay_free := a # lay_free L, lay_rx := es2\<rparr>) h"
proof -
  have rx': "lay_rx L = [] @ (a, r, []) # es2" using rx by simp
  obtain al where al: "freeBlock (allocator ins) (Some a) = Some al"
      "pool_inv al (a # lay_free L) (set (used_blocks L) - {a})"
      "\<forall>c. c \<noteq> a \<longrightarrow> arena al c = arena (allocator ins) c"
    using free_entry_pool [OF inv rx'] by blast
  have "canard_inv (ins\<lparr>allocator := al, rx_states := rx_next r\<rparr>)
      (L\<lparr>lay_free := a # lay_free L, lay_rx := es2\<rparr>) h"
    unfolding canard_inv_def Let_def
    using al(2) unlink_lists [OF inv rx' al(3)] unlink_used [OF inv rx', of "[]"] by simp
  then show ?thesis using al(1) by blast
qed

lemma unlink_next:
  assumes inv: "canard_inv ins L h" and rx: "lay_rx L = es1 @ (p, rp, bp) # (a, r, []) # es2"
  shows "\<exists>al al' q. set_rx (allocator ins) p (rx_next_update (\<lambda>_. rx_next r)) = Some al \<and>
    freeBlock al (Some a) = Some al' \<and> get_rx al' p = Some q \<and> rx_next q = rx_next r \<and>
    canard_inv (ins\<lparr>allocator := al'\<rparr>)
      (L\<lparr>lay_free := a # lay_free L, lay_rx := es1 @ (p, rp\<lparr>rx_next := rx_next r\<rparr>, bp) # es2\<rparr>) h"
proof -
  let ?m = "arena (allocator ins)" and ?rp = "rp\<lparr>rx_next := rx_next r\<rparr>"
  have rx': "lay_rx L = (es1 @ [(p, rp, bp)]) @ (a, r, []) # es2" using rx by simp
  have dist: "distinct (used_blocks L)" using inv by (simp add: canard_inv_def Let_def)
  have pa: "p \<noteq> a" "p \<notin> set (map fst es1)" "p \<notin> set (map fst es2)" "p \<notin> set (addrs (lay_tx L))"
      "p \<notin> set (addrs (lay_held L))" "p \<notin> set (addrs bp)"
      "\<And>e. e \<in> set es1 \<union> set es2 \<Longrightarrow> p \<notin> set (addrs (snd (snd e)))"
    using dist rx by (auto simp: used_blocks_def rx_addrs_def)
  have pU: "p \<in> set (used_blocks L)" using rx by (simp add: used_blocks_def)
  have g: "get_rx (allocator ins) p = Some rp"
    using entry_get_rx [OF canard_inv_entry [OF inv rx]] .
  let ?al = "put_block (allocator ins) p (RxBlock ?rp)"
  have "pool_inv ?al (lay_free L) (set (used_blocks L))"
    by (rule pool_inv_put [OF canard_inv_pool [OF inv] pU])
  moreover have "a \<in> set (used_blocks L)" using rx by (simp add: used_blocks_def)
  ultimately obtain al where al: "freeBlock ?al (Some a) = Some al"
      "pool_inv al (a # lay_free L) (set (used_blocks L) - {a})"
      "\<forall>c. c \<noteq> a \<longrightarrow> arena al c = arena ?al c"
    using pool.release_block by blast
  define m1 where "m1 = (arena al)(p \<mapsto> RxBlock rp)"
  have "\<forall>c. c \<noteq> a \<longrightarrow> m1 c = ?m c"
    using al(3) g by (auto simp: get_Some_arena m1_def)
  note lists = unlink_lists [OF inv rx' this]
  have ar: "arena al p = Some (RxBlock ?rp)" using al(3) pa(1) by simp
  have al_eq: "arena al = m1(p \<mapsto> RxBlock ?rp)" using ar by (auto simp: fun_eq_iff m1_def)
  have seg: "segment (rx_view m1) (rx_states ins) (map rx_head es1) (Some p)"
    using lists(3) by (simp only: map_append list.map segment_append segment.simps rx_entry_simps fst_conv) blast
  have bufs: "chain (buf_view (arena al)) (rx_buffer_blocks (fst (snd e))) (snd (snd e))"
    if "e \<in> set es1 \<union> set es2" for e
  proof -
    have "chain (buf_view m1) (rx_buffer_blocks (fst (snd e))) (snd (snd e))"
      by (rule bspec [OF lists(5)]) (use that in auto)
    then show ?thesis unfolding al_eq using pa(7) [OF that] by simp
  qed
  have bp: "chain (buf_view (arena al)) (rx_buffer_blocks rp) bp"
  proof -
    have "chain (buf_view m1) (rx_buffer_blocks rp) bp"
      using bspec [OF lists(5), of "(p, rp, bp)"] by (simp del: fun_upd_apply)
    then show ?thesis unfolding al_eq using pa(6) by simp
  qed
  have "canard_inv (ins\<lparr>allocator := al\<rparr>)
      (L\<lparr>lay_free := a # lay_free L, lay_rx := es1 @ (p, ?rp, bp) # es2\<rparr>) h"
  proof -
    let ?L' = "L\<lparr>lay_free := a # lay_free L, lay_rx := (es1 @ [(p, ?rp, bp)]) @ es2\<rparr>"
    have used: "set (used_blocks ?L') = set (used_blocks L) - {a}" "distinct (used_blocks ?L')"
      using unlink_used [OF inv rx', of "es1 @ [(p, ?rp, bp)]" "a # lay_free L"] by simp_all
    have "chain (tx_view (arena al)) (tx_queue ins) (lay_tx L)" "chain (buf_view (arena al)) h (lay_held L)"
      unfolding al_eq using lists(1,2) pa(4,5) by simp_all
    moreover have "chain (rx_view (arena al)) (rx_states ins) (map rx_head ((es1 @ [(p, ?rp, bp)]) @ es2))"
      unfolding al_eq using seg lists(4) pa(2,3)
      by (auto simp: segment_append)
    ultimately have "canard_inv (ins\<lparr>allocator := al\<rparr>) ?L' h"
      unfolding canard_inv_def Let_def using al(2) used bufs bp by auto
    then show ?thesis by simp
  qed
  then show ?thesis
    using al(1) g ar by (intro exI [of _ ?al] exI [of _ al] exI [of _ ?rp]) (simp add: set_rx_def get_rx_def)
qed

section \<open>The walk\<close>

definition stale :: "u64 \<Rightarrow> rx_entry \<Rightarrow> bool" where
  "stale now e \<longleftrightarrow> now - rx_timestamp_usec (fst (snd e)) > TRANSFER_TIMEOUT_USEC"

text \<open>An entry up to its link to the next one.\<close>

definition unlinked :: "rx_entry \<Rightarrow> rx_entry" where
  "unlinked e = (fst e, (fst (snd e))\<lparr>rx_next := None\<rparr>, snd (snd e))"

lemma unlinked_simps [simp]: "unlinked (a, r, bs) = (a, r\<lparr>rx_next := None\<rparr>, bs)"
  by (simp add: unlinked_def)

abbreviation head_of :: "rx_entry list \<Rightarrow> ptr" where
  "head_of es \<equiv> (case es of [] \<Rightarrow> None | e # _ \<Rightarrow> Some (fst e))"

lemma chain_head_of: "chain (rx_view m) p (map rx_head es) \<Longrightarrow> p = head_of es"
  by (cases es) auto

lemma chain_after: "canard_inv ins L h \<Longrightarrow> lay_rx L = es1 @ (a, r, bs) # es2 \<Longrightarrow> rx_next r = head_of es2"
  by (rule chain_head_of [where m = "arena (allocator ins)"])
     (auto simp: canard_inv_def Let_def segment_append rx_view_get)

lemma rx_states_head: "canard_inv ins L h \<Longrightarrow> rx_states ins = head_of (lay_rx L)"
  by (rule chain_head_of [where m = "arena (allocator ins)"]) (simp add: canard_inv_def Let_def)

lemma rx_addrs_distinct: "canard_inv ins L h \<Longrightarrow> distinct (map fst (lay_rx L))"
  using chain_distinct [of "rx_view (arena (allocator ins))" "rx_states ins" "map rx_head (lay_rx L)"]
  by (simp add: canard_inv_def Let_def)

text \<open>What a cleanup leaves of the layout.\<close>

definition cleaned :: "u64 \<Rightarrow> rx_entry list \<Rightarrow> rx_entry list \<Rightarrow> CanardInstance \<Rightarrow> layout \<Rightarrow> CanardInstance \<Rightarrow> bool" where
  "cleaned now kept rest ins L ins' \<longleftrightarrow>
     (\<exists>L'. canard_inv ins' L' None \<and> lay_tx L' = lay_tx L \<and> node_id ins' = node_id ins \<and>
        user_reference ins' = user_reference ins \<and>
        length (lay_free L') + length (used_blocks L') = length (lay_free L) + length (used_blocks L) \<and>
        map unlinked (lay_rx L') = map unlinked (kept @ filter (\<lambda>e. \<not> stale now e) rest))"

lemma release_entry:
  assumes "canard_inv ins L h" and "lay_rx L = es1 @ (a, r, bs) # es2"
  shows "\<exists>al. releaseStatePayload (allocator ins) a = Some al \<and>
    canard_inv (ins\<lparr>allocator := al\<rparr>) (L\<lparr>lay_free := rev (addrs bs) @ lay_free L,
      lay_rx := es1 @ (a, r\<lparr>rx_buffer_blocks := None, rx_payload_len := 0\<rparr>, []) # es2\<rparr>) h"
proof -
  obtain al where al: "releaseStatePayload (allocator ins) a = Some al"
      "entry_inv al (rev (addrs bs) @ lay_free L) (others L a bs) a (r\<lparr>rx_buffer_blocks := None, rx_payload_len := 0\<rparr>) []"
      "same_on (others L a bs) (allocator ins) al"
    using entry_release [OF canard_inv_entry [OF assms]] by (auto elim!: returnsE)
  from entry_lift [OF assms al(2,3)] al(1) show ?thesis by simp
qed

lemma cleanup_loop_correct:
  assumes "canard_inv ins L None" and "lay_rx L = kept @ rest"
    and "kept \<noteq> [] \<Longrightarrow> prev = Some (fst (last kept))" and "state = head_of rest"
  shows "returns (cleanup_loop ins now prev state) (cleaned now kept rest ins L)"
  using assms
proof (induction rest arbitrary: ins L kept prev state)
  case Nil
  then show ?case by (subst cleanup_loop.simps) (auto simp: cleaned_def)
next
  case (Cons e rest)
  obtain a r bs where e: "e = (a, r, bs)" by (cases e)
  note rx = Cons.prems(2) [unfolded e]
  have g: "get_rx (allocator ins) a = Some r"
    by (rule entry_get_rx [OF canard_inv_entry [OF Cons.prems(1) rx]])
  have nx: "rx_next r = head_of rest" by (rule chain_after [OF Cons.prems(1) rx])
  show ?case
  proof (cases "stale now e")
    case False
    have "lay_rx L = (kept @ [e]) @ rest" using rx e by simp
    from Cons.IH [OF Cons.prems(1) this, of state "rx_next r"]
    have "returns (cleanup_loop ins now state (rx_next r)) (cleaned now (kept @ [e]) rest ins L)"
      using Cons.prems(4) e nx by simp
    moreover have "cleaned now (kept @ [e]) rest ins L = cleaned now kept (e # rest) ins L"
      using False by (simp add: cleaned_def fun_eq_iff)
    moreover have "cleanup_loop ins now prev state = cleanup_loop ins now state (rx_next r)"
      using False Cons.prems(4) e g by (subst cleanup_loop.simps) (simp add: stale_def)
    ultimately show ?thesis by simp
  next
    case True
    let ?r = "r\<lparr>rx_buffer_blocks := None, rx_payload_len := 0\<rparr>"
    obtain al where al: "releaseStatePayload (allocator ins) a = Some al"
        "canard_inv (ins\<lparr>allocator := al\<rparr>) (L\<lparr>lay_free := rev (addrs bs) @ lay_free L,
          lay_rx := kept @ (a, ?r, []) # rest\<rparr>) None"
      using release_entry [OF Cons.prems(1) rx] by blast
    let ?L = "L\<lparr>lay_free := rev (addrs bs) @ lay_free L, lay_rx := kept @ (a, ?r, []) # rest\<rparr>"
    have ga: "get_rx al a = Some ?r"
      using entry_get_rx [OF canard_inv_entry [OF al(2)]] by simp
    have out: "cleaned now kept (e # rest) ins L ins'"
      if "cleaned now kept' rest ins1 L1 ins'" "map unlinked kept' = map unlinked kept" "lay_tx L1 = lay_tx L"
        "node_id ins1 = node_id ins" "user_reference ins1 = user_reference ins"
        "length (lay_free L1) + length (used_blocks L1) = length (lay_free L) + length (used_blocks L)" for kept' ins1 L1 ins'
      using that True by (auto simp: cleaned_def)
    show ?thesis
    proof (cases kept rule: rev_cases)
      case Nil
      then have first: "state = rx_states ins"
        using rx_states_head [OF Cons.prems(1)] Cons.prems(2,4) by simp
      obtain al' where al': "freeBlock al (Some a) = Some al'"
          "canard_inv (ins\<lparr>allocator := al', rx_states := rx_next r\<rparr>)
            (?L\<lparr>lay_free := a # lay_free ?L, lay_rx := rest\<rparr>) None"
        using unlink_first [OF al(2), of a ?r rest] Nil by auto
      let ?ins = "ins\<lparr>allocator := al', rx_states := rx_next r\<rparr>"
      have step: "cleanup_loop ins now prev state = cleanup_loop ?ins now (rx_next r) (rx_next r)"
        using True Cons.prems(4) e g al(1) ga al'(1) first
        by (subst cleanup_loop.simps) (simp add: stale_def Let_def)
      have "returns (cleanup_loop ?ins now (rx_next r) (rx_next r))
          (cleaned now [] rest ?ins (?L\<lparr>lay_free := a # lay_free ?L, lay_rx := rest\<rparr>))"
        by (rule Cons.IH [OF al'(2)]) (simp_all add: nx)
      then show ?thesis
        unfolding step by (rule returns_mono) (erule out, use Cons.prems(2) in \<open>simp_all add: Nil e used_blocks_def\<close>)
    next
      case (snoc kept0 x)
      obtain p rp bp where x: "x = (p, rp, bp)" by (cases x)
      note kept = snoc [unfolded x]
      have first: "state \<noteq> rx_states ins"
        using rx_states_head [OF Cons.prems(1)] rx_addrs_distinct [OF Cons.prems(1)] Cons.prems(2,4) kept e
        by (cases kept0) auto
      obtain al1 al' q where al': "set_rx al p (rx_next_update (\<lambda>_. rx_next r)) = Some al1"
          "freeBlock al1 (Some a) = Some al'" "get_rx al' p = Some q" "rx_next q = rx_next r"
          "canard_inv (ins\<lparr>allocator := al'\<rparr>) (?L\<lparr>lay_free := a # lay_free ?L,
            lay_rx := (kept0 @ [(p, rp\<lparr>rx_next := rx_next r\<rparr>, bp)]) @ rest\<rparr>) None"
        using unlink_next [OF al(2), of kept0 p rp bp a ?r rest] kept by auto
      have prev: "prev = Some p" using Cons.prems(3) kept by simp
      let ?kept = "kept0 @ [(p, rp\<lparr>rx_next := rx_next r\<rparr>, bp)]"
      have step: "cleanup_loop ins now prev state = cleanup_loop (ins\<lparr>allocator := al'\<rparr>) now prev (rx_next r)"
        using True Cons.prems(4) e g al(1) ga al' first prev
        by (subst cleanup_loop.simps) (simp add: stale_def)
      have "returns (cleanup_loop (ins\<lparr>allocator := al'\<rparr>) now prev (rx_next r))
          (cleaned now ?kept rest (ins\<lparr>allocator := al'\<rparr>)
            (?L\<lparr>lay_free := a # lay_free ?L, lay_rx := ?kept @ rest\<rparr>))"
        by (rule Cons.IH [OF al'(5)]) (simp_all add: nx prev)
      then show ?thesis
        unfolding step by (rule returns_mono) (erule out, use Cons.prems(2) in \<open>simp_all add: kept e used_blocks_def\<close>)
    qed
  qed
qed

lemma cleanup_correct:
  assumes "canard_inv ins L None"
  shows "returns (canardCleanupStaleTransfers ins now) (cleaned now [] (lay_rx L) ins L)"
  unfolding canardCleanupStaleTransfers_def
  by (rule cleanup_loop_correct [OF assms]) (simp_all add: rx_states_head [OF assms])

end
