(* ===== verification/Canard_Descatter.thy ===== *)
theory Canard_Descatter
  imports Canard_RxStore
begin

text \<open>
  Bits of payloads (\<open>canard.c\<close>): the bit copy routine \<open>copyBitArray\<close>, and the collection of the bits of
  a received transfer from the frame, the receive state and the buffer blocks
  (\<open>descatterTransferPayload\<close>). The lemmas say which bits of the payload end up where.
\<close>

section \<open>Bit copy\<close>

text \<open>One step of the copy: \<open>s\<close> and \<open>d\<close> are the source and the destination byte.\<close>

definition copy_byte :: "u32 \<Rightarrow> u8 \<Rightarrow> u8 \<Rightarrow> u8 \<Rightarrow> u8 \<Rightarrow> u8" where
  "copy_byte copy_bits src_bit_offset dst_bit_offset s d =
     (let write_mask = drop_bit (unat dst_bit_offset) (ucast (drop_bit (unat copy_bits) (0xFF00 :: u32)) :: u8);
          src_data = (ucast (drop_bit (unat dst_bit_offset)
                             (push_bit (unat src_bit_offset) (ucast s :: u32))) :: u8)
      in (d AND NOT write_mask) OR (src_data AND write_mask))"

definition bits_to_copy :: "u32 \<Rightarrow> u8 \<Rightarrow> u8 \<Rightarrow> u32" where
  "bits_to_copy left src_bit_offset dst_bit_offset =
     (let max_offset = max src_bit_offset dst_bit_offset in min left (8 - ucast max_offset))"

lemma mod8_less: "unat (ucast (x mod 8 :: u32) :: u8) < 8"
proof -
  have "unat (x mod 8) < 8" by (simp add: unat_mod)
  then show ?thesis by (simp add: unsigned_ucast_eq take_bit_eq_mod)
qed

lemma unat_mod8: "unat (ucast (x mod 8 :: u32) :: u8) = unat x mod 8"
  by (simp add: unsigned_ucast_eq take_bit_eq_mod unat_mod)

lemma unat_bits_to_copy:
  assumes "unat a < 8" and "unat b < 8"
  shows "unat (bits_to_copy left a b) = min (unat left) (8 - max (unat a) (unat b))"
proof -
  have m: "unat (max a b) = max (unat a) (unat b)"
    by (simp add: max_def word_le_nat_alt)
  have "unat (ucast (max a b) :: u32) = max (unat a) (unat b)"
    using m assms by (simp add: unsigned_ucast_eq take_bit_eq_mod)
  then have "unat (8 - ucast (max a b) :: u32) = 8 - max (unat a) (unat b)"
    using assms by (subst unat_sub) (simp_all add: word_le_nat_alt)
  then show ?thesis
    by (simp add: bits_to_copy_def min_def word_le_nat_alt)
qed

lemma copy_progress:
  fixes last_bit src_offset dst_offset :: u32
  assumes "last_bit - src_offset \<noteq> 0"
  shows "unat (last_bit - (src_offset + bits_to_copy (last_bit - src_offset) (ucast (src_offset mod 8))
    (ucast (dst_offset mod 8)))) < unat (last_bit - src_offset)"
proof -
  let ?c = "bits_to_copy (last_bit - src_offset) (ucast (src_offset mod 8)) (ucast (dst_offset mod 8))"
  have "unat ?c = min (unat (last_bit - src_offset)) (8 - max (unat src_offset mod 8) (unat dst_offset mod 8))"
    by (subst unat_bits_to_copy) (simp_all only: mod8_less unat_mod8)
  moreover have "0 < unat (last_bit - src_offset)" using assms by (simp only: unat_gt_0 simp_thms)
  ultimately have c: "0 < unat ?c" "unat ?c \<le> unat (last_bit - src_offset)" by auto
  have "unat (last_bit - (src_offset + ?c)) = unat (last_bit - src_offset) - unat ?c"
    unfolding diff_diff_add [symmetric] by (rule unat_sub) (simp only: word_le_nat_alt c(2))
  then show ?thesis using c by linarith
qed

function copyBits_loop ::
  "(nat \<rightharpoonup> u8) \<Rightarrow> u32 \<Rightarrow> u32 \<Rightarrow> u8 list \<Rightarrow> nat \<Rightarrow> u32 \<Rightarrow> u8 list option" where
  "copyBits_loop src last_bit src_offset dst base dst_offset =
     (if last_bit - src_offset = 0 then Some dst
      else do {
        let src_bit_offset = ucast (src_offset mod 8);
        let dst_bit_offset = ucast (dst_offset mod 8);
        let copy_bits = bits_to_copy (last_bit - src_offset) src_bit_offset dst_bit_offset;
        s \<leftarrow> src (unat (src_offset div 8));
        d \<leftarrow> nth_opt dst (base + unat (dst_offset div 8));
        dst \<leftarrow> upd_opt dst (base + unat (dst_offset div 8))
          (copy_byte copy_bits src_bit_offset dst_bit_offset s d);
        copyBits_loop src last_bit (src_offset + copy_bits) dst base (dst_offset + copy_bits)
      })"
  by pat_completeness auto
termination
  by (relation "measure (\<lambda>(src, last_bit, src_offset, dst, base, dst_offset). unat (last_bit - src_offset))")
     (simp, simp only: in_measure prod.case, rule copy_progress)

declare copyBits_loop.simps [simp del]


definition copyBitArray :: "(nat \<rightharpoonup> u8) \<Rightarrow> u32 \<Rightarrow> u32 \<Rightarrow> u8 list \<Rightarrow> u32 \<Rightarrow> u8 list option" where
  "copyBitArray src src_offset src_len dst dst_offset = do {
     canard_assert (src_len > 0);
     let src' = (\<lambda>i. src (unat (src_offset div 8) + i));
     let base = unat (dst_offset div 8);
     let src_offset = src_offset mod 8;
     let dst_offset = dst_offset mod 8;
     let last_bit = src_offset + src_len;
     copyBits_loop src' last_bit src_offset dst base dst_offset
   }"

section \<open>Bits of byte arrays\<close>

text \<open>Bit \<open>k\<close> of an array: the most significant bit of a byte comes first.\<close>

definition abit :: "u8 list \<Rightarrow> nat \<Rightarrow> bool" where
  "abit bs k \<longleftrightarrow> bit (bs ! (k div 8)) (7 - k mod 8)"

lemma bit_ff00: "bit (0xFF00 :: u32) k \<longleftrightarrow> 8 \<le> k \<and> k < 16"
proof -
  have "(0xFF00 :: u32) = push_bit 8 (mask 8)" by (simp add: mask_eq_exp_minus_1)
  then show ?thesis by (simp only: bit_push_bit_iff bit_mask_iff) auto
qed

lemma bit_write_mask:
  assumes "unat n + unat b \<le> 8" and "j < 8"
  shows "bit (drop_bit (unat b) (ucast (drop_bit (unat n) (0xFF00 :: u32)) :: u8)) (7 - j) \<longleftrightarrow>
    unat b \<le> j \<and> j < unat b + unat n"
  using assms by (auto simp: bit_drop_bit_eq bit_ucast_iff bit_ff00 simp del: bit_numeral_word_iff)

lemma bit_src_data:
  assumes "unat b \<le> j" and "j < 8" and "j + unat a < unat b + 8"
  shows "bit (ucast (drop_bit (unat b) (push_bit (unat a) (ucast (s :: u8) :: u32))) :: u8) (7 - j) \<longleftrightarrow>
    bit s (7 - (j - unat b + unat a))"
proof -
  have "7 - j + unat b - unat a = 7 - (j - unat b + unat a)" and "unat a \<le> 7 - j + unat b"
    and "7 - j < 8" and "7 - j + unat b < 32" and "7 - (j - unat b + unat a) < 32"
    using assms by arith+
  then show ?thesis
    by (simp add: bit_ucast_iff bit_drop_bit_eq bit_push_bit_iff add.commute)
qed

lemma bit_copy_byte:
  assumes "unat n + unat a \<le> 8" and "unat n + unat b \<le> 8" and "j < 8"
  shows "bit (copy_byte n a b s d) (7 - j) \<longleftrightarrow>
    (if unat b \<le> j \<and> j < unat b + unat n then bit s (7 - (j - unat b + unat a)) else bit d (7 - j))"
proof (cases "unat b \<le> j \<and> j < unat b + unat n")
  case True
  then have "j + unat a < unat b + 8" using assms(1) by simp
  then show ?thesis
    using True bit_write_mask [OF assms(2,3)] bit_src_data [of b j a s] assms(3)
    by (simp add: copy_byte_def Let_def bit_or_iff bit_and_iff bit_not_iff)
next
  case False
  then show ?thesis
    using bit_write_mask [OF assms(2,3)] assms(3)
    by (auto simp: copy_byte_def Let_def bit_or_iff bit_and_iff bit_not_iff)
qed


text \<open>
  \<open>copied src s dst d n dst'\<close>: \<open>n\<close> bits from position \<open>s\<close> of the source now are at position \<open>d\<close> of the
  destination, and every other bit of the destination is as before.
\<close>

definition sbit :: "(nat \<rightharpoonup> u8) \<Rightarrow> nat \<Rightarrow> bool" where
  "sbit src k \<longleftrightarrow> (\<exists>b. src (k div 8) = Some b \<and> bit b (7 - k mod 8))"

definition copied :: "(nat \<rightharpoonup> u8) \<Rightarrow> nat \<Rightarrow> u8 list \<Rightarrow> nat \<Rightarrow> nat \<Rightarrow> u8 list \<Rightarrow> bool" where
  "copied src s dst d n dst' \<longleftrightarrow> length dst' = length dst \<and>
     (\<forall>i < n. abit dst' (d + i) = sbit src (s + i)) \<and>
     (\<forall>k < 8 * length dst. k < d \<or> d + n \<le> k \<longrightarrow> abit dst' k = abit dst k)"

lemma copied_0: "copied src s dst d 0 dst"
  by (simp add: copied_def)

lemma copied_trans:
  assumes "copied src s dst d m dst1" and "copied src (s + m) dst1 (d + m) n dst2"
    and "d + m \<le> 8 * length dst"
  shows "copied src s dst d (m + n) dst2"
  unfolding copied_def
proof (intro conjI allI impI)
  show "length dst2 = length dst" using assms by (simp add: copied_def)
  fix i assume i: "i < m + n"
  show "abit dst2 (d + i) = sbit src (s + i)"
  proof (cases "i < m")
    case True
    then have "abit dst2 (d + i) = abit dst1 (d + i)"
      using assms by (simp add: copied_def)
    with True assms(1) show ?thesis by (simp add: copied_def)
  next
    case False
    then obtain j where "i = m + j" by (metis le_Suc_ex not_less)
    with i assms(2) show ?thesis by (simp add: copied_def flip: add.assoc)
  qed
next
  fix k assume "k < 8 * length dst" "k < d \<or> d + (m + n) \<le> k"
  with assms show "abit dst2 k = abit dst k" by (auto simp: copied_def)
qed

lemma byte_pos: "j < 8 \<Longrightarrow> (8 * q + j) div 8 = q \<and> (8 * q + j) mod 8 = (j :: nat)"
  by simp

lemma copied_byte:
  assumes "src (s div 8) = Some x" and "d div 8 < length dst" and "unat n + s mod 8 \<le> 8" and "unat n + d mod 8 \<le> 8"
    and "unat a = s mod 8" and "unat b = d mod 8"
  shows "copied src s dst d (unat n) (dst[d div 8 := copy_byte n a b x (dst ! (d div 8))])"
    (is "copied _ _ _ _ _ ?dst")
  unfolding copied_def
proof (intro conjI allI impI)
  note cb = bit_copy_byte [of n a b _ x "dst ! (d div 8)", unfolded assms(5,6), OF assms(3,4)]
  {
    fix i assume i: "i < unat n"
    have dq: "d + i = 8 * (d div 8) + (d mod 8 + i)" "d mod 8 + i < 8"
      using i assms(4) mult_div_mod_eq [of 8 d] by linarith+
    have sq: "s + i = 8 * (s div 8) + (s mod 8 + i)" "s mod 8 + i < 8"
      using i assms(3) mult_div_mod_eq [of 8 s] by linarith+
    have "(d + i) div 8 = d div 8" "(d + i) mod 8 = d mod 8 + i"
      using byte_pos [OF dq(2), of "d div 8"] dq(1) by metis+
    moreover have "(s + i) div 8 = s div 8" "(s + i) mod 8 = s mod 8 + i"
      using byte_pos [OF sq(2), of "s div 8"] sq(1) by metis+
    ultimately show "abit ?dst (d + i) = sbit src (s + i)"
      using cb [OF dq(2)] i assms(1,2) by (simp add: abit_def sbit_def add.commute)
  }
  fix k assume k: "k < 8 * length dst" "k < d \<or> d + unat n \<le> k"
  show "abit ?dst k = abit dst k"
  proof (cases "k div 8 = d div 8")
    case True
    then have "k mod 8 < d mod 8 \<or> d mod 8 + unat n \<le> k mod 8"
      using k(2) mult_div_mod_eq [of 8 k] mult_div_mod_eq [of 8 d] by linarith
    moreover have "k mod 8 < 8" by simp
    ultimately show ?thesis
      using cb [of "k mod 8"] True assms(2) by (auto simp: abit_def)
  qed (simp add: abit_def)
qed simp

lemma copyBits_loop_correct:
  assumes "unat src_offset \<le> unat last_bit"
    and "unat dst_offset + (unat last_bit - unat src_offset) < 2 ^ 32"
    and "8 * base + unat dst_offset + (unat last_bit - unat src_offset) \<le> 8 * length dst"
    and "\<And>i. unat src_offset div 8 \<le> i \<Longrightarrow> 8 * i < unat last_bit \<Longrightarrow> \<exists>b. src i = Some b"
  shows "returns (copyBits_loop src last_bit src_offset dst base dst_offset)
    (copied src (unat src_offset) dst (8 * base + unat dst_offset) (unat last_bit - unat src_offset))"
  using assms
proof (induction "unat last_bit - unat src_offset" arbitrary: src_offset dst dst_offset rule: less_induct)
  case less
  have left: "unat (last_bit - src_offset) = unat last_bit - unat src_offset"
    by (rule unat_sub) (simp only: word_le_nat_alt less(2))
  show ?case
  proof (cases "last_bit - src_offset = 0")
    case True
    then show ?thesis by (subst copyBits_loop.simps) (simp add: copied_0)
  next
    case False
    let ?a = "ucast (src_offset mod 8) :: u8" and ?b = "ucast (dst_offset mod 8) :: u8"
    let ?c = "bits_to_copy (last_bit - src_offset) ?a ?b"
    let ?so = "unat src_offset" and ?do = "unat dst_offset" and ?l = "unat last_bit"
    have lt: "?so < ?l" using False left less(2) by (metis diff_is_0_eq' le_neq_implies_less unat_eq_zero)
    have c: "unat ?c = min (?l - ?so) (8 - max (?so mod 8) (?do mod 8))"
      by (subst unat_bits_to_copy) (simp_all only: mod8_less unat_mod8 left)
    have c0: "0 < unat ?c" "unat ?c \<le> ?l - ?so" "unat ?c + ?so mod 8 \<le> 8" "unat ?c + ?do mod 8 \<le> 8"
      using lt unfolding c by auto
    have l32: "?l < 2 ^ 32" using unsigned_less [of last_bit] by simp
    have so': "unat (src_offset + ?c) = ?so + unat ?c" and do': "unat (dst_offset + ?c) = ?do + unat ?c"
      using c0(2) l32 less(2,3) by (intro unat_add_small; simp)+
    have dx: "base + ?do div 8 < length dst" using less(4) lt by simp
    have "8 * (?so div 8) < ?l" using lt mult_div_mod_eq [of 8 ?so] by linarith
    then obtain x where x: "src (?so div 8) = Some x"
      using less(5) [of "?so div 8"] by blast
    let ?D = "8 * base + ?do"
    have D: "?D div 8 = base + ?do div 8" "?D mod 8 = ?do mod 8" by simp_all
    let ?dst = "dst[base + ?do div 8 := copy_byte ?c ?a ?b x (dst ! (base + ?do div 8))]"
    have one: "copied src ?so dst ?D (unat ?c) ?dst"
      using copied_byte [of src ?so x ?D dst ?c ?a ?b] x dx c0(3,4) unfolding D by (simp only: unat_mod8 simp_thms)
    have rest: "returns (copyBits_loop src last_bit (src_offset + ?c) ?dst base (dst_offset + ?c))
      (copied src (unat (src_offset + ?c)) ?dst (8 * base + unat (dst_offset + ?c)) (?l - unat (src_offset + ?c)))"
    proof (rule less(1))
      show "?l - unat (src_offset + ?c) < ?l - ?so" unfolding so' using c0 lt by linarith
      show "unat (src_offset + ?c) \<le> ?l" unfolding so' using c0 lt by linarith
      show "unat (dst_offset + ?c) + (?l - unat (src_offset + ?c)) < 2 ^ 32"
        unfolding so' do' using c0(2) less(3) by linarith
      show "8 * base + unat (dst_offset + ?c) + (?l - unat (src_offset + ?c)) \<le> 8 * length ?dst"
        unfolding so' do' using c0(2) less(4) by simp
      show "\<exists>b. src i = Some b" if "unat (src_offset + ?c) div 8 \<le> i" "8 * i < ?l" for i
        using that less(5) [of i] unfolding so' by (meson div_le_mono le_add1 le_trans)
    qed
    have step: "copyBits_loop src last_bit src_offset dst base dst_offset =
        copyBits_loop src last_bit (src_offset + ?c) ?dst base (dst_offset + ?c)"
      using False x dx by (subst copyBits_loop.simps) (simp add: unat_div Let_def)
    show ?thesis
      unfolding step
    proof (rule returns_mono [OF rest])
      fix dst2
      assume "copied src (unat (src_offset + ?c)) ?dst (8 * base + unat (dst_offset + ?c)) (?l - unat (src_offset + ?c)) dst2"
      then have "copied src (?so + unat ?c) ?dst (?D + unat ?c) (?l - (?so + unat ?c)) dst2"
        unfolding so' do' by (simp only: add.assoc)
      moreover have "?D + unat ?c \<le> 8 * length dst" using c0(2) less(4) by linarith
      ultimately have "copied src ?so dst ?D (unat ?c + (?l - (?so + unat ?c))) dst2"
        using copied_trans [OF one] by blast
      moreover have "unat ?c + (?l - (?so + unat ?c)) = ?l - ?so" using c0(2) by linarith
      ultimately show "copied src ?so dst ?D (?l - ?so) dst2" by simp
    qed
  qed
qed


lemma sbit_shift: "sbit (\<lambda>i. src (q + i)) k = sbit src (8 * q + k)"
  by (simp add: sbit_def)

lemma copyBitArray_correct:
  assumes n: "0 < unat src_len" and s: "unat src_offset + unat src_len < 2 ^ 32"
    and d: "unat dst_offset + unat src_len \<le> 8 * length dst" "unat dst_offset + unat src_len < 2 ^ 32"
    and src: "\<And>i. unat src_offset div 8 \<le> i \<Longrightarrow> 8 * i < unat src_offset + unat src_len \<Longrightarrow> \<exists>b. src i = Some b"
  shows "returns (copyBitArray src src_offset src_len dst dst_offset)
    (copied src (unat src_offset) dst (unat dst_offset) (unat src_len))"
proof -
  let ?q = "unat (src_offset div 8)" and ?base = "unat (dst_offset div 8)"
  let ?so = "src_offset mod 8" and ?do = "dst_offset mod 8"
  have uq: "?q = unat src_offset div 8" "?base = unat dst_offset div 8"
      "unat ?so = unat src_offset mod 8" "unat ?do = unat dst_offset mod 8"
    by (simp_all add: unat_div unat_mod)
  have eqs: "8 * ?q + unat ?so = unat src_offset" "8 * ?base + unat ?do = unat dst_offset"
    unfolding uq by simp_all
  have last: "unat (?so + src_len) = unat ?so + unat src_len"
    using s eqs(1) by (intro unat_add_small) simp
  have "returns (copyBits_loop (\<lambda>i. src (?q + i)) (?so + src_len) ?so dst ?base ?do)
      (copied (\<lambda>i. src (?q + i)) (unat ?so) dst (8 * ?base + unat ?do) (unat (?so + src_len) - unat ?so))"
  proof (rule copyBits_loop_correct)
    show "unat ?so \<le> unat (?so + src_len)" unfolding last by simp
    show "unat ?do + (unat (?so + src_len) - unat ?so) < 2 ^ 32"
      unfolding last using d(2) eqs(2) by simp
    show "8 * ?base + unat ?do + (unat (?so + src_len) - unat ?so) \<le> 8 * length dst"
      unfolding last using d(1) eqs(2) by simp
    fix i assume "8 * i < unat (?so + src_len)"
    then have "8 * (?q + i) < unat src_offset + unat src_len" unfolding last using eqs(1) by simp
    moreover have "unat src_offset div 8 \<le> ?q + i" unfolding uq by simp
    ultimately show "\<exists>b. src (?q + i) = Some b" using src by blast
  qed
  moreover have "0 < src_len" using n by (simp add: word_less_nat_alt)
  moreover have "copied (\<lambda>i. src (?q + i)) (unat ?so) dst (unat dst_offset) (unat src_len) =
      copied src (unat src_offset) dst (unat dst_offset) (unat src_len)"
    by (simp add: fun_eq_iff copied_def sbit_shift eqs flip: add.assoc)
  ultimately show ?thesis
    unfolding copyBitArray_def Let_def by (simp only: eqs last add_diff_cancel_left' canard_assert_True Option.bind.bind_lunit)
qed

section \<open>Collecting the bits of a transfer\<close>

text \<open>
  The walk over the middle blocks. The cursor holds \<open>input_bit_offset\<close>, \<open>output_bit_offset\<close>,
  \<open>remaining_bit_length\<close> and the output buffer.
\<close>

record bit_cursor =
  input_bit_offset :: u32
  output_bit_offset :: u8
  remaining_bit_length :: u8
  output_bytes :: "u8 list"

text \<open>Copying \<open>amount\<close> bits and moving on.\<close>

definition take_bits :: "(nat \<rightharpoonup> u8) \<Rightarrow> u32 \<Rightarrow> u8 \<Rightarrow> bit_cursor \<Rightarrow> bit_cursor option" where
  "take_bits src offset amount c = do {
     out \<leftarrow> copyBitArray src offset (ucast amount) (output_bytes c) (ucast (output_bit_offset c));
     Some \<lparr>input_bit_offset = input_bit_offset c + ucast amount,
           output_bit_offset = output_bit_offset c + amount,
           remaining_bit_length = remaining_bit_length c - amount,
           output_bytes = out\<rparr>
   }"

partial_function (option) descatter_middle ::
  "CanardPoolAllocator \<Rightarrow> ptr \<Rightarrow> u32 \<Rightarrow> u32 \<Rightarrow> bit_cursor \<Rightarrow> (u32 \<times> u32 \<times> bit_cursor) option" where
  "descatter_middle al block remaining_bits block_bit_offset c =
     (case block of
        None \<Rightarrow> Some (remaining_bits, block_bit_offset, c)
      | Some a \<Rightarrow>
          if remaining_bit_length c > 0 then do {
            canard_assert (remaining_bits > 0);
            b \<leftarrow> get_buf al a;
            let block_end_bit_offset = block_bit_offset + min (of_nat CANARD_BUFFER_BLOCK_DATA_SIZE * 8) remaining_bits;
            c \<leftarrow> (if block_end_bit_offset > input_bit_offset c then do {
                let amount = ucast (min (ucast (remaining_bit_length c)) (block_end_bit_offset - input_bit_offset c));
                canard_assert (input_bit_offset c \<ge> block_bit_offset);
                take_bits (bb_data b) (input_bit_offset c - block_bit_offset) amount c
              } else Some c);
            canard_assert (block_end_bit_offset > block_bit_offset);
            descatter_middle al (bb_next b) (remaining_bits - (block_end_bit_offset - block_bit_offset))
              block_end_bit_offset c
          } else Some (remaining_bits, block_bit_offset, c))"

definition descatter_head :: "(nat \<rightharpoonup> u8) option \<Rightarrow> bit_cursor \<Rightarrow> bit_cursor option" where
  "descatter_head head c =
     (if input_bit_offset c < of_nat CANARD_MULTIFRAME_RX_PAYLOAD_HEAD_SIZE * 8 then do {
        let amount = ucast (min (ucast (remaining_bit_length c))
          (of_nat CANARD_MULTIFRAME_RX_PAYLOAD_HEAD_SIZE * 8 - input_bit_offset c));
        h \<leftarrow> head;
        take_bits h (input_bit_offset c) amount c
      } else Some c)"

definition descatter_tail :: "(nat \<rightharpoonup> u8) option \<Rightarrow> u32 \<Rightarrow> bit_cursor \<Rightarrow> bit_cursor option" where
  "descatter_tail tail block_bit_offset c =
     (case tail of
        None \<Rightarrow> Some c
      | Some t \<Rightarrow>
          if remaining_bit_length c > 0 then do {
            canard_assert (input_bit_offset c \<ge> block_bit_offset);
            take_bits t (input_bit_offset c - block_bit_offset) (remaining_bit_length c) c
          } else Some c)"

text \<open>The result is the number of bits and the output buffer.\<close>

definition descatterTransferPayload ::
  "CanardPoolAllocator \<Rightarrow> CanardRxTransfer \<Rightarrow> u32 \<Rightarrow> u8 \<Rightarrow> u8 list \<Rightarrow> (int \<times> u8 list) option" where
  "descatterTransferPayload al transfer bit_offset bit_length output =
     (let payload_bits = ucast (xfer_payload_len transfer) * 8
      in if bit_offset \<ge> payload_bits then Some (0, output)
      else do {
        let bit_length = (if bit_offset + ucast bit_length > payload_bits
                          then ucast (payload_bits - bit_offset) else bit_length);
        canard_assert (bit_length > 0);
        if xfer_payload_middle transfer \<noteq> None \<or> xfer_payload_tail transfer \<noteq> None then do {
          c \<leftarrow> descatter_head (xfer_payload_head transfer)
            \<lparr>input_bit_offset = bit_offset, output_bit_offset = 0,
             remaining_bit_length = bit_length, output_bytes = output\<rparr>;
          (remaining_bits, block_bit_offset, c) \<leftarrow> descatter_middle al (xfer_payload_middle transfer)
            (payload_bits - of_nat CANARD_MULTIFRAME_RX_PAYLOAD_HEAD_SIZE * 8)
            (of_nat CANARD_MULTIFRAME_RX_PAYLOAD_HEAD_SIZE * 8) c;
          canard_assert (ucast (remaining_bit_length c) \<le> remaining_bits);
          c \<leftarrow> descatter_tail (xfer_payload_tail transfer) block_bit_offset c;
          canard_assert (input_bit_offset c \<le> payload_bits);
          canard_assert (output_bit_offset c \<le> 64);
          canard_assert (remaining_bit_length c = 0);
          Some (uint bit_length, output_bytes c)
        } else do {
          h \<leftarrow> xfer_payload_head transfer;
          output \<leftarrow> copyBitArray h bit_offset (ucast bit_length) output 0;
          Some (uint bit_length, output)
        }
      })"


section \<open>What is collected\<close>

text \<open>
  The cursor after \<open>m\<close> of \<open>n\<close> bits from position \<open>start\<close> of the payload \<open>p\<close> were copied to the beginning of
  the buffer, which held \<open>out\<close>.
\<close>

definition cursor_at :: "u8 list \<Rightarrow> nat \<Rightarrow> nat \<Rightarrow> u8 list \<Rightarrow> nat \<Rightarrow> bit_cursor \<Rightarrow> bool" where
  "cursor_at p start n out m c \<longleftrightarrow> m \<le> n \<and> unat (input_bit_offset c) = start + m \<and>
     unat (output_bit_offset c) = m \<and> unat (remaining_bit_length c) = n - m \<and>
     copied (nth_opt p) start out 0 m (output_bytes c)"

lemma nat_less_8_div: "8 * i < m \<Longrightarrow> m \<le> 8 * e \<Longrightarrow> i < (e :: nat)"
  by simp

lemma take_bits_ok:
  assumes c: "cursor_at p start n out m c" and n: "n \<le> 64" "8 \<le> length out"
    and len: "length p < 65536"
    and off: "unat offset + 8 * B = start + m" and amount: "0 < unat amount" "m + unat amount \<le> n"
    and stop: "start + m + unat amount \<le> 8 * E" "E \<le> length p"
    and src: "\<And>i. B + i < E \<Longrightarrow> src i = Some (p ! (B + i))"
  shows "returns (take_bits src offset amount c) (cursor_at p start n out (m + unat amount))"
proof -
  have c': "unat (input_bit_offset c) = start + m" "unat (output_bit_offset c) = m"
      "unat (remaining_bit_length c) = n - m" "copied (nth_opt p) start out 0 m (output_bytes c)"
    using c by (simp_all add: cursor_at_def)
  have ua: "unat (ucast amount :: u32) = unat amount" "unat (ucast (output_bit_offset c) :: u32) = m"
    using c'(2) by simp_all
  have lo: "length (output_bytes c) = length out" using c'(4) by (simp add: copied_def)
  have "returns (copyBitArray src offset (ucast amount) (output_bytes c) (ucast (output_bit_offset c)))
      (copied src (unat offset) (output_bytes c) m (unat amount))"
  proof (rule copyBitArray_correct [of "ucast amount" offset "ucast (output_bit_offset c)", unfolded ua])
    show "0 < unat amount" by (fact amount(1))
    show "unat offset + unat amount < 2 ^ 32" using off stop len by simp
    show "m + unat amount \<le> 8 * length (output_bytes c)" "m + unat amount < 2 ^ 32"
      using amount n lo by simp_all
    fix i assume "8 * i < unat offset + unat amount"
    then have "B + i < E" using off stop(1) by simp
    then show "\<exists>b. src i = Some b" using src by blast
  qed
  then obtain out' where out': "copyBitArray src offset (ucast amount) (output_bytes c) (ucast (output_bit_offset c)) = Some out'"
      "copied src (unat offset) (output_bytes c) m (unat amount) out'"
    by (rule returnsE)
  have "copied (nth_opt p) (start + m) (output_bytes c) (0 + m) (unat amount) out'"
  proof -
    have "sbit src (unat offset + i) = sbit (nth_opt p) (start + m + i)" if "i < unat amount" for i
    proof -
      have e: "start + m + i = 8 * B + (unat offset + i)" using off by simp
      have "8 * ((unat offset + i) div 8) \<le> unat offset + i" by simp
      then have "B + (unat offset + i) div 8 < E" using that off stop(1) by simp
      then have "src ((unat offset + i) div 8) = nth_opt p (B + (unat offset + i) div 8)"
        using src stop(2) by simp
      then show ?thesis unfolding e by (simp add: sbit_def)
    qed
    with out'(2) show ?thesis by (simp add: copied_def)
  qed
  from copied_trans [OF c'(4) this] have "copied (nth_opt p) start out 0 (m + unat amount) out'"
    using amount n by simp
  moreover have "unat (input_bit_offset c + ucast amount) = start + (m + unat amount)"
    using ua(1) c'(1) stop len by (subst unat_add_small) simp_all
  moreover have "unat (output_bit_offset c + amount) = m + unat amount"
    using c'(2) amount n by (subst unat_add_small) simp_all
  moreover have "unat (remaining_bit_length c - amount) = n - (m + unat amount)"
    using c'(3) amount by (subst unat_sub) (simp_all add: word_le_nat_alt)
  ultimately show ?thesis
    using out'(1) amount(2) by (simp add: take_bits_def cursor_at_def)
qed

lemma descatter_head_ok:
  assumes c: "cursor_at p start n out 0 c" and n: "0 < n" "n \<le> 64" "8 \<le> length out"
    and len: "length p < 65536" "start + n \<le> 8 * length p"
    and head: "start < 48 \<Longrightarrow> \<exists>h. head = Some h \<and> (\<forall>i < min 6 (length p). h i = Some (p ! i))"
  shows "returns (descatter_head head c) (\<lambda>c'. \<exists>m. cursor_at p start n out m c' \<and> (m < n \<longrightarrow> 48 \<le> start + m))"
proof (cases "start < 48")
  case False
  then have "\<not> input_bit_offset c < 48" using c by (simp add: cursor_at_def word_less_nat_alt)
  then show ?thesis using False c by (auto simp: descatter_head_def)
next
  case True
  then obtain h where h: "head = Some h" "\<forall>i < min 6 (length p). h i = Some (p ! i)"
    using head by blast
  have c': "unat (input_bit_offset c) = start" "unat (remaining_bit_length c) = n"
    using c by (simp_all add: cursor_at_def)
  let ?amount = "ucast (min (ucast (remaining_bit_length c)) (48 - input_bit_offset c)) :: u8"
  have "unat (48 - input_bit_offset c) = 48 - start"
    using c' True by (subst unat_sub) (simp_all add: word_le_nat_alt)
  then have "unat (min (ucast (remaining_bit_length c)) (48 - input_bit_offset c)) = min n (48 - start)"
    using c' n by (simp add: unat_min)
  then have am: "unat ?amount = min n (48 - start)" by (subst unat_ucast_small) simp_all
  have "returns (take_bits h (input_bit_offset c) ?amount c) (cursor_at p start n out (0 + unat ?amount))"
    by (rule take_bits_ok [OF c n(2,3) len(1), where B = 0 and E = "min 6 (length p)"])
       (use am n True len h c' in simp_all)
  moreover have "input_bit_offset c < 48" using True c' by (simp add: word_less_nat_alt)
  ultimately show ?thesis
    using h am True by (auto simp: descatter_head_def elim!: returns_mono intro!: exI [of _ "unat ?amount"])
qed

lemma descatter_middle_ok:
  assumes "chain (buf_view (arena al)) block bs" and "cursor_at p start n out m c"
    and n: "n \<le> 64" "8 \<le> length out" and len: "length p < 65536" "start + n \<le> 8 * length p"
    and "m < n \<Longrightarrow> unat bbo = 48 + 224 * j \<and> unat bbo \<le> start + m \<and> unat rem = 8 * length p - unat bbo"
    and "\<And>k i. k < length bs \<Longrightarrow> i < 28 \<Longrightarrow> 6 + 28 * (j + k) + i < length p \<Longrightarrow>
      snd (bs ! k) i = Some (p ! (6 + 28 * (j + k) + i))"
  shows "returns (descatter_middle al block rem bbo c) (\<lambda>(rem', bbo', c'). \<exists>m'. cursor_at p start n out m' c' \<and>
    (m' < n \<longrightarrow> unat bbo' = 48 + 224 * (j + length bs) \<and> unat bbo' \<le> start + m' \<and>
       unat rem' = 8 * length p - unat bbo'))"
  using assms(1,2,7,8)
proof (induction bs arbitrary: block m c bbo rem j)
  case Nil
  then show ?case by (subst descatter_middle.simps) auto
next
  case (Cons x bs)
  obtain a d where x: "x = (a, d)" by (cases x)
  from Cons.prems(1) x obtain q where q: "block = Some a" "get_buf al a = Some \<lparr>bb_next = q, bb_data = d\<rparr>"
      "chain (buf_view (arena al)) q bs"
    by (auto simp: buf_view_get)
  have cm: "m \<le> n" "unat (input_bit_offset c) = start + m" "unat (remaining_bit_length c) = n - m"
    using Cons.prems(2) by (simp_all add: cursor_at_def)
  show ?case
  proof (cases "m < n")
    case False
    then have "remaining_bit_length c = 0" using cm by (simp add: unat_eq_zero [symmetric] del: unat_eq_zero)
    then show ?thesis
      using q(1) Cons.prems(2) False cm by (subst descatter_middle.simps) auto
  next
    case lt: True
    from Cons.prems(3) [OF lt] have w: "unat bbo = 48 + 224 * j" "unat bbo \<le> start + m"
        "unat rem = 8 * length p - unat bbo"
      by simp_all
    have room: "start + m < 8 * length p" using lt len by simp
    have rem0: "0 < unat rem" using w room by simp
    let ?step = "min (28 * 8) rem" and ?stop = "bbo + min (28 * 8) rem"
    have us: "unat ?step = min 224 (8 * length p - unat bbo)" using w by (simp add: unat_min)
    have ue: "unat ?stop = min (unat bbo + 224) (8 * length p)"
      using w room len us by (subst unat_add_small) simp_all
    have ur: "unat (rem - (?stop - bbo)) = unat rem - unat ?step"
      by (subst add_diff_cancel_left', subst unat_sub) (simp_all add: word_le_nat_alt unat_min)
    have flags: "remaining_bit_length c > 0" "rem > 0" "?stop > bbo"
      using lt cm rem0 w room ue by (simp_all add: word_less_nat_alt)
    define copy where "copy = (if ?stop > input_bit_offset c then do {
        let amount = ucast (min (ucast (remaining_bit_length c)) (?stop - input_bit_offset c));
        canard_assert (input_bit_offset c \<ge> bbo);
        take_bits d (input_bit_offset c - bbo) amount c
      } else Some c)"
    have copy: "returns copy (\<lambda>c'. \<exists>m'. cursor_at p start n out m' c' \<and>
        (m' < n \<longrightarrow> unat ?stop = 48 + 224 * Suc j \<and> unat ?stop \<le> start + m'))"
    proof (cases "?stop > input_bit_offset c")
      case False
      then have "unat ?stop \<le> start + m" using cm by (simp add: word_less_nat_alt)
      then show ?thesis
        using False Cons.prems(2) w ue room by (auto simp: copy_def intro!: exI [of _ m])
    next
      case True
      then have gt: "start + m < unat ?stop" using cm by (simp add: word_less_nat_alt)
      let ?amount = "ucast (min (ucast (remaining_bit_length c)) (?stop - input_bit_offset c)) :: u8"
      have "unat (?stop - input_bit_offset c) = unat ?stop - (start + m)"
        using gt cm by (subst unat_sub) (simp_all add: word_le_nat_alt)
      then have um: "unat (min (ucast (remaining_bit_length c)) (?stop - input_bit_offset c)) =
          min (n - m) (unat ?stop - (start + m))"
        using cm by (simp add: unat_min)
      then have am: "unat ?amount = min (n - m) (unat ?stop - (start + m))"
      proof -
        have "n - m < 256" using n by simp
        then show ?thesis using um by (subst unat_ucast_small) (simp_all add: min_less_iff_disj)
      qed
      have uo: "unat (input_bit_offset c - bbo) = start + m - unat bbo"
        using w(2) cm by (subst unat_sub) (simp_all add: word_le_nat_alt)
      have "returns (take_bits d (input_bit_offset c - bbo) ?amount c) (cursor_at p start n out (m + unat ?amount))"
      proof (rule take_bits_ok [OF Cons.prems(2) n len(1), where B = "6 + 28 * j" and E = "min (6 + 28 * j + 28) (length p)"])
        show "unat (input_bit_offset c - bbo) + 8 * (6 + 28 * j) = start + m" using uo w by simp
        show "0 < unat ?amount" "m + unat ?amount \<le> n" unfolding am using lt gt by (auto simp: min_def)
        show "start + m + unat ?amount \<le> 8 * min (6 + 28 * j + 28) (length p)"
          unfolding am using gt ue w by (auto simp: min_def)
        fix i assume "6 + 28 * j + i < min (6 + 28 * j + 28) (length p)"
        then show "d i = Some (p ! (6 + 28 * j + i))" using Cons.prems(4) [of 0 i] x by simp
      qed simp
      moreover have "input_bit_offset c \<ge> bbo" using w(2) cm by (simp add: word_le_nat_alt)
      moreover have "unat ?stop = 48 + 224 * Suc j \<and> unat ?stop \<le> start + (m + unat ?amount)" if "m + unat ?amount < n"
        using that am gt ue w len by simp
      ultimately show ?thesis
        using True by (auto simp: copy_def Let_def elim!: returns_mono intro!: exI [of _ "m + unat ?amount"])
    qed
    have step: "descatter_middle al block rem bbo c =
        do { c \<leftarrow> copy; descatter_middle al q (rem - (?stop - bbo)) ?stop c }"
      using q flags by (subst descatter_middle.simps) (simp add: copy_def Let_def)
    show ?thesis
      unfolding step
    proof (rule returns_then [OF copy], elim exE conjE)
      fix c' m'
      assume c': "cursor_at p start n out m' c'"
        "m' < n \<longrightarrow> unat ?stop = 48 + 224 * Suc j \<and> unat ?stop \<le> start + m'"
      have "returns (descatter_middle al q (rem - (?stop - bbo)) ?stop c') (\<lambda>(rem', bbo', c'). \<exists>m'.
          cursor_at p start n out m' c' \<and> (m' < n \<longrightarrow> unat bbo' = 48 + 224 * (Suc j + length bs) \<and>
            unat bbo' \<le> start + m' \<and> unat rem' = 8 * length p - unat bbo'))"
      proof (rule Cons.IH [OF q(3) c'(1)])
        show "m' < n \<Longrightarrow> unat ?stop = 48 + 224 * Suc j \<and> unat ?stop \<le> start + m' \<and>
            unat (rem - (?stop - bbo)) = 8 * length p - unat ?stop"
          using c'(2) ur us ue w by auto
        show "snd (bs ! k) i = Some (p ! (6 + 28 * (Suc j + k) + i))"
          if "k < length bs" "i < 28" "6 + 28 * (Suc j + k) + i < length p" for k i
          using Cons.prems(4) [of "Suc k" i] that by simp
      qed
      then show "returns (descatter_middle al q (rem - (?stop - bbo)) ?stop c') (\<lambda>(rem', bbo', c'). \<exists>m'.
          cursor_at p start n out m' c' \<and> (m' < n \<longrightarrow> unat bbo' = 48 + 224 * (j + length (x # bs)) \<and>
            unat bbo' \<le> start + m' \<and> unat rem' = 8 * length p - unat bbo'))"
        by simp
    qed
  qed
qed


lemma descatter_tail_ok:
  assumes c: "cursor_at p start n out m c" and n: "n \<le> 64" "8 \<le> length out"
    and len: "length p < 65536" "start + n \<le> 8 * length p"
    and more: "m < n \<Longrightarrow> unat bbo = 48 + 224 * j \<and> unat bbo \<le> start + m \<and>
      (\<exists>t. tail = Some t \<and> (\<forall>i. 6 + 28 * j + i < length p \<longrightarrow> t i = Some (p ! (6 + 28 * j + i))))"
  shows "returns (descatter_tail tail bbo c) (cursor_at p start n out n)"
proof -
  have cm: "m \<le> n" "unat (input_bit_offset c) = start + m" "unat (remaining_bit_length c) = n - m"
    using c by (simp_all add: cursor_at_def)
  show ?thesis
  proof (cases "m < n")
    case False
    then have "remaining_bit_length c = 0" using cm by (simp add: unat_eq_zero [symmetric] del: unat_eq_zero)
    moreover have "m = n" using False cm(1) by simp
    ultimately show ?thesis using c by (auto simp: descatter_tail_def split: option.split)
  next
    case True
    then obtain t where t: "tail = Some t" "\<forall>i. 6 + 28 * j + i < length p \<longrightarrow> t i = Some (p ! (6 + 28 * j + i))"
        and b: "unat bbo = 48 + 224 * j" "unat bbo \<le> start + m"
      using more by blast
    have uo: "unat (input_bit_offset c - bbo) = start + m - unat bbo"
      using b(2) cm by (subst unat_sub) (simp_all add: word_le_nat_alt)
    have "returns (take_bits t (input_bit_offset c - bbo) (remaining_bit_length c) c)
        (cursor_at p start n out (m + unat (remaining_bit_length c)))"
    proof (rule take_bits_ok [OF c n len(1), where B = "6 + 28 * j" and E = "length p"])
      show "unat (input_bit_offset c - bbo) + 8 * (6 + 28 * j) = start + m" using uo b by simp
    qed (use True cm len t(2) in simp_all)
    moreover have "remaining_bit_length c > 0" "input_bit_offset c \<ge> bbo"
      using True cm b by (simp_all add: word_less_nat_alt word_le_nat_alt)
    moreover have "m + unat (remaining_bit_length c) = n" using cm by simp
    ultimately show ?thesis using t(1) by (simp add: descatter_tail_def)
  qed
qed

lemma delivers_parts:
  assumes "delivers t bs p"
  shows "\<And>i. i < min 6 (length p) \<Longrightarrow> \<exists>h. xfer_payload_head t = Some h \<and> h i = Some (p ! i)"
    and "xfer_payload_middle t \<noteq> None \<or> xfer_payload_tail t \<noteq> None \<Longrightarrow> k < length bs \<Longrightarrow> i < 28 \<Longrightarrow>
      6 + 28 * k + i < length p \<Longrightarrow> snd (bs ! k) i = Some (p ! (6 + 28 * k + i))"
    and "xfer_payload_middle t \<noteq> None \<or> xfer_payload_tail t \<noteq> None \<Longrightarrow> 6 + 28 * length bs + j < length p \<Longrightarrow>
      \<exists>u. xfer_payload_tail t = Some u \<and> u j = Some (p ! (6 + 28 * length bs + j))"
    and "xfer_payload_middle t = None \<Longrightarrow> xfer_payload_tail t = None \<Longrightarrow> l < length p \<Longrightarrow>
      \<exists>h. xfer_payload_head t = Some h \<and> h l = Some (p ! l)"
proof -
  have d: "transfer_byte t bs i = Some (p ! i)" if "i < length p" for i
    using assms that by (simp add: delivers_def)
  show "\<exists>h. xfer_payload_head t = Some h \<and> h i = Some (p ! i)" if "i < min 6 (length p)" for i
    using d [of i] that by (auto simp: transfer_byte_def)
  show "snd (bs ! k) i = Some (p ! (6 + 28 * k + i))"
    if "xfer_payload_middle t \<noteq> None \<or> xfer_payload_tail t \<noteq> None" "k < length bs" "i < 28"
      "6 + 28 * k + i < length p"
  proof -
    have "28 * k + i < 28 * length bs" using that(2,3) by simp
    then show ?thesis using d [OF that(4)] that by (auto simp: transfer_byte_def)
  qed
  show "\<exists>u. xfer_payload_tail t = Some u \<and> u j = Some (p ! (6 + 28 * length bs + j))"
    if "xfer_payload_middle t \<noteq> None \<or> xfer_payload_tail t \<noteq> None" "6 + 28 * length bs + j < length p"
    using d [OF that(2)] that(1) by (auto simp: transfer_byte_def)
  show "\<exists>h. xfer_payload_head t = Some h \<and> h l = Some (p ! l)"
    if "xfer_payload_middle t = None" "xfer_payload_tail t = None" "l < length p"
    using d [OF that(3)] that(1,2) by (auto simp: transfer_byte_def)
qed

lemma descatter_correct:
  fixes bit_offset :: u32
  assumes d: "delivers t bs p" and ch: "chain (buf_view (arena al)) (xfer_payload_middle t) bs"
    and bl: "0 < unat bit_length" "unat bit_length \<le> 64" and out: "8 \<le> length out"
  defines "start \<equiv> unat bit_offset"
  defines "n \<equiv> min (unat bit_length) (8 * length p - start)"
  shows "returns (descatterTransferPayload al t bit_offset bit_length out) (\<lambda>(r, out').
    r = int n \<and> copied (nth_opt p) start out 0 n out')"
proof -
  let ?bits = "ucast (xfer_payload_len t) * 8 :: u32"
  have ul: "unat (xfer_payload_len t) = length p" using d by (simp add: delivers_def)
  have len: "length p < 65536" using ul unsigned_less [of "xfer_payload_len t", where 'a = nat] by simp
  have "unat (ucast (xfer_payload_len t) :: u32) = length p"
    using ul len by (subst unat_ucast_small) simp_all
  then have ub: "unat ?bits = 8 * length p"
    using len by (simp add: unat_word_ariths)
  show ?thesis
  proof (cases "bit_offset \<ge> ?bits")
    case True
    then have "n = 0" using ub by (simp add: n_def start_def word_le_nat_alt)
    then show ?thesis using True by (simp add: descatterTransferPayload_def copied_0)
  next
    case False
    then have lt: "start < 8 * length p" using ub by (simp add: start_def word_le_nat_alt)
    define bl' where "bl' = (if bit_offset + ucast bit_length > ?bits then ucast (?bits - bit_offset) else bit_length)"
    have us: "unat (?bits - bit_offset) = 8 * length p - start"
      using lt ub by (subst unat_sub) (simp_all add: start_def word_le_nat_alt)
    have ua: "unat (bit_offset + ucast bit_length) = start + unat bit_length"
      using lt len bl by (subst unat_add_small) (simp_all add: start_def)
    have ubl: "unat bl' = n"
    proof (cases "bit_offset + ucast bit_length > ?bits")
      case True
      then have "8 * length p < start + unat bit_length" using ua ub by (simp add: word_less_nat_alt)
      then have "unat bl' = 8 * length p - start"
        using True us bl by (simp add: bl'_def unat_ucast_small)
      then show ?thesis using \<open>8 * length p < start + unat bit_length\<close> by (simp add: n_def)
    next
      case False
      then show ?thesis using ua ub by (simp add: bl'_def n_def word_less_nat_alt)
    qed
    have n: "0 < n" "n \<le> 64" "start + n \<le> 8 * length p" using bl lt by (simp_all add: n_def)
    have pos: "bl' > 0" using ubl n(1) by (simp add: word_less_nat_alt)
    have ui: "uint bl' = int n" using ubl by (metis of_nat_unat)
    note unfold = descatterTransferPayload_def Let_def bl'_def [symmetric]
    show ?thesis
    proof (cases "xfer_payload_middle t \<noteq> None \<or> xfer_payload_tail t \<noteq> None")
      case single: False
      then have mt: "xfer_payload_middle t = None" "xfer_payload_tail t = None" by simp_all
      have "0 < length p" using lt by (cases p) simp_all
      then obtain h where h: "xfer_payload_head t = Some h"
        using delivers_parts(4) [OF d mt] by blast
      then have hp: "h i = Some (p ! i)" if "i < length p" for i
        using delivers_parts(4) [OF d mt that] by auto
      have hb: "\<exists>b. h i = Some b" if "8 * i < start + n" for i
        using hp [of i] that n(3) by simp
      have "returns (copyBitArray h bit_offset (ucast bl') out 0) (copied h start out 0 n)"
        using copyBitArray_correct [of "ucast bl'" bit_offset 0 out h] ubl n len out hb
        by (simp add: start_def)
      moreover have "copied h start out 0 n out' = copied (nth_opt p) start out 0 n out'" for out'
      proof -
        have "sbit h (start + i) = sbit (nth_opt p) (start + i)" if "i < n" for i
        proof -
          have "(start + i) div 8 < length p" using that n(3) by simp
          then show ?thesis using hp by (simp add: sbit_def)
        qed
        then show ?thesis by (simp add: copied_def)
      qed
      ultimately show ?thesis
        using False single pos h ui by (auto simp: unfold elim!: returnsE)
    next
      case multi: True
      let ?c0 = "\<lparr>input_bit_offset = bit_offset, output_bit_offset = 0, remaining_bit_length = bl', output_bytes = out\<rparr>"
      have c0: "cursor_at p start n out 0 ?c0"
        using ubl by (simp add: cursor_at_def start_def copied_0)
      have head: "\<exists>h. xfer_payload_head t = Some h \<and> (\<forall>i < min 6 (length p). h i = Some (p ! i))"
      proof -
        have "0 < min 6 (length p)" using lt by (cases p) simp_all
        then obtain h where "xfer_payload_head t = Some h" using delivers_parts(1) [OF d] by blast
        then show ?thesis using delivers_parts(1) [OF d] by fastforce
      qed
      obtain c1 m1 where c1: "descatter_head (xfer_payload_head t) ?c0 = Some c1" "cursor_at p start n out m1 c1"
          "m1 < n \<longrightarrow> 48 \<le> start + m1"
        using descatter_head_ok [OF c0 n(1,2) out len n(3) head] by (auto elim!: returnsE)
      have um: "unat (?bits - 48) = 8 * length p - 48" if "m1 < n"
        using c1(3) that n(3) ub by (subst unat_sub) (simp_all add: word_le_nat_alt)
      obtain rem bbo c2 m2 where c2: "descatter_middle al (xfer_payload_middle t) (?bits - 48) 48 c1 = Some (rem, bbo, c2)"
          "cursor_at p start n out m2 c2"
          "m2 < n \<longrightarrow> unat bbo = 48 + 224 * length bs \<and> unat bbo \<le> start + m2 \<and> unat rem = 8 * length p - unat bbo"
        using descatter_middle_ok [OF ch c1(2) n(2) out len n(3), of 48 0 "?bits - 48"] um c1(3)
          delivers_parts(2) [OF d multi]
        by (auto elim!: returnsE)
      have "\<exists>u. xfer_payload_tail t = Some u \<and> (\<forall>i. 6 + 28 * length bs + i < length p \<longrightarrow> u i = Some (p ! (6 + 28 * length bs + i)))"
        if "m2 < n"
      proof -
        have "6 + 28 * length bs + 0 < length p" using c2(3) that n(3) by simp
        then obtain u where "xfer_payload_tail t = Some u" using delivers_parts(3) [OF d multi] by blast
        then show ?thesis using delivers_parts(3) [OF d multi] by fastforce
      qed
      then obtain c3 where c3: "descatter_tail (xfer_payload_tail t) bbo c2 = Some c3" "cursor_at p start n out n c3"
        using descatter_tail_ok [OF c2(2) n(2) out len n(3), of bbo "length bs" "xfer_payload_tail t"] c2(3)
        by (auto elim!: returnsE)
      have "ucast (remaining_bit_length c2) \<le> rem"
      proof -
        have "unat (remaining_bit_length c2) = n - m2" "m2 \<le> n" using c2(2) by (simp_all add: cursor_at_def)
        then have "unat (remaining_bit_length c2) \<le> unat rem" using c2(3) n(3) by (cases "m2 < n") auto
        then show ?thesis by (simp add: word_le_nat_alt)
      qed
      moreover have "input_bit_offset c3 \<le> ?bits" "output_bit_offset c3 \<le> 64" "remaining_bit_length c3 = 0"
        using c3(2) n ub by (simp_all add: cursor_at_def word_le_nat_alt unat_eq_zero [symmetric] del: unat_eq_zero)
      moreover have "copied (nth_opt p) start out 0 n (output_bytes c3)" using c3(2) by (simp add: cursor_at_def)
      ultimately show ?thesis
        using False multi pos ui c1(1) c2(1) c3(1) by (simp add: unfold)
    qed
  qed
qed

end
