(* ===== verification/Canard_Scalar.thy ===== *)
theory Canard_Scalar
  imports Canard_Descatter
begin

text \<open>
  Scalars in payloads: \<open>canardDecodeScalar\<close> and \<open>canardEncodeScalar\<close> (\<open>canard.c\<close>). The byte order of
  the machine is a parameter, \<open>be\<close>; the results do not depend on it.
\<close>

section \<open>Objects and their bytes\<close>

text \<open>The bytes of an unsigned object of \<open>n\<close> bytes, and the object with given bytes.\<close>

definition to_object :: "bool \<Rightarrow> nat \<Rightarrow> u64 \<Rightarrow> u8 list" where
  "to_object be n v = (if be then rev (le_bytes n v) else le_bytes n v)"

definition from_object :: "bool \<Rightarrow> u8 list \<Rightarrow> u64" where
  "from_object be bs = le_value (if be then rev bs else bs)"

text \<open>The members of the union \<open>storage\<close>: the first \<open>n\<close> of its eight bytes.\<close>

definition load_as :: "bool \<Rightarrow> nat \<Rightarrow> u8 list \<Rightarrow> u64" where
  "load_as be n bytes = from_object be (take n bytes)"

definition store_as :: "bool \<Rightarrow> nat \<Rightarrow> u64 \<Rightarrow> u8 list \<Rightarrow> u8 list" where
  "store_as be n v bytes = to_object be n v @ drop n bytes"

definition isBigEndian :: "bool \<Rightarrow> bool" where
  "isBigEndian be \<longleftrightarrow> to_object be 2 1 ! 1 = 1"

partial_function (option) swap_loop :: "u8 list \<Rightarrow> u32 \<Rightarrow> u32 \<Rightarrow> u8 list option" where
  "swap_loop bytes fwd rv =
     (if fwd < rv then do {
        x \<leftarrow> nth_opt bytes (unat fwd);
        y \<leftarrow> nth_opt bytes (unat rv);
        bytes \<leftarrow> upd_opt bytes (unat fwd) y;
        bytes \<leftarrow> upd_opt bytes (unat rv) x;
        swap_loop bytes (fwd + 1) (rv - 1)
      } else Some bytes)"

definition swapByteOrder :: "u8 list \<Rightarrow> u32 \<Rightarrow> u8 list option" where
  "swapByteOrder bytes data_size = swap_loop bytes 0 (data_size - 1)"

text \<open>What \<open>out_value\<close> and \<open>value\<close> point to.\<close>

datatype CanardScalar =
  ScalarBool bool
| ScalarU8 u8 | ScalarS8 u8
| ScalarU16 u16 | ScalarS16 u16
| ScalarU32 u32 | ScalarS32 u32
| ScalarU64 u64 | ScalarS64 u64

section \<open>Decoding\<close>

definition std_byte_length :: "u8 \<Rightarrow> nat option" where
  "std_byte_length bit_length =
     (if bit_length = 1 then Some 1
      else if bit_length \<le> 8 then Some 1
      else if bit_length \<le> 16 then Some 2
      else if bit_length \<le> 32 then Some 4
      else if bit_length \<le> 64 then Some 8
      else None)"

text \<open>\<open>x |= ~((1 << bit_length) - 1)\<close> if the sign bit is set, on an integer of any width.\<close>

definition extend_sign :: "u8 \<Rightarrow> 'a::len word \<Rightarrow> 'a word" where
  "extend_sign bit_length x =
     (if x AND push_bit (unat (bit_length - 1)) 1 \<noteq> 0
      then x OR NOT (push_bit (unat bit_length) 1 - 1) else x)"

definition extend_storage :: "bool \<Rightarrow> u8 \<Rightarrow> u8 list \<Rightarrow> u8 list option" where
  "extend_storage be bit_length bytes =
     (if bit_length \<le> 8 then
        Some (store_as be 1 (ucast (extend_sign bit_length (ucast (load_as be 1 bytes) :: u8))) bytes)
      else if bit_length \<le> 16 then
        Some (store_as be 2 (ucast (extend_sign bit_length (ucast (load_as be 2 bytes) :: u16))) bytes)
      else if bit_length \<le> 32 then
        Some (store_as be 4 (ucast (extend_sign bit_length (ucast (load_as be 4 bytes) :: u32))) bytes)
      else if bit_length < 64 then
        Some (store_as be 8 (extend_sign bit_length (load_as be 8 bytes)) bytes)
      else None)"

definition copy_out :: "bool \<Rightarrow> u8 \<Rightarrow> bool \<Rightarrow> u8 list \<Rightarrow> CanardScalar option" where
  "copy_out be bit_length value_is_signed bytes =
     (if value_is_signed then
        (if bit_length \<le> 8 then Some (ScalarS8 (ucast (load_as be 1 bytes)))
         else if bit_length \<le> 16 then Some (ScalarS16 (ucast (load_as be 2 bytes)))
         else if bit_length \<le> 32 then Some (ScalarS32 (ucast (load_as be 4 bytes)))
         else if bit_length \<le> 64 then Some (ScalarS64 (load_as be 8 bytes))
         else None)
      else
        (if bit_length = 1 then Some (ScalarBool (load_as be 1 bytes \<noteq> 0))
         else if bit_length \<le> 8 then Some (ScalarU8 (ucast (load_as be 1 bytes)))
         else if bit_length \<le> 16 then Some (ScalarU16 (ucast (load_as be 2 bytes)))
         else if bit_length \<le> 32 then Some (ScalarU32 (ucast (load_as be 4 bytes)))
         else if bit_length \<le> 64 then Some (ScalarU64 (load_as be 8 bytes))
         else None))"

text \<open>
  \<open>out_value\<close> tells whether the caller passed storage for the result; the result holds the code and
  what was written there.
\<close>

definition canardDecodeScalar ::
  "bool \<Rightarrow> CanardPoolAllocator \<Rightarrow> CanardRxTransfer option \<Rightarrow> u32 \<Rightarrow> u8 \<Rightarrow> bool \<Rightarrow> bool \<Rightarrow>
     (int \<times> CanardScalar option) option" where
  "canardDecodeScalar be al transfer bit_offset bit_length value_is_signed out_value =
     (if transfer = None \<or> \<not> out_value then Some (- CANARD_ERROR_INVALID_ARGUMENT, None)
      else if bit_length < 1 \<or> bit_length > 64 then Some (- CANARD_ERROR_INVALID_ARGUMENT, None)
      else if bit_length = 1 \<and> value_is_signed then Some (- CANARD_ERROR_INVALID_ARGUMENT, None)
      else do {
        transfer \<leftarrow> transfer;
        (result, bytes) \<leftarrow> descatterTransferPayload al transfer bit_offset bit_length (replicate 8 0);
        if result \<le> 0 then Some (result, None)
        else do {
          canard_assert (result > 0 \<and> result \<le> 64 \<and> result \<le> uint bit_length);
          bytes \<leftarrow> (if bit_length mod 8 \<noteq> 0 then do {
              b \<leftarrow> nth_opt bytes (unat (bit_length div 8));
              upd_opt bytes (unat (bit_length div 8)) (drop_bit (unat ((8 - bit_length mod 8) AND 7)) b)
            } else Some bytes);
          n \<leftarrow> std_byte_length bit_length;
          bytes \<leftarrow> (if isBigEndian be then swapByteOrder bytes (of_nat n) else Some bytes);
          bytes \<leftarrow> (if value_is_signed \<and> n * 8 \<noteq> unat bit_length then extend_storage be bit_length bytes
                    else Some bytes);
          v \<leftarrow> copy_out be bit_length value_is_signed bytes;
          Some (result, Some v)
        }
      })"

section \<open>Encoding\<close>

text \<open>Reading through \<open>value\<close>: it must point to an object of the type the bit length asks for.\<close>

definition load_value :: "u8 \<Rightarrow> CanardScalar \<Rightarrow> (nat \<times> u64) option" where
  "load_value bit_length v =
     (if bit_length = 1 then (case v of ScalarBool b \<Rightarrow> Some (1, of_bool b) | _ \<Rightarrow> None)
      else if bit_length \<le> 8 then (case v of ScalarU8 x \<Rightarrow> Some (1, ucast x) | ScalarS8 x \<Rightarrow> Some (1, ucast x) | _ \<Rightarrow> None)
      else if bit_length \<le> 16 then (case v of ScalarU16 x \<Rightarrow> Some (2, ucast x) | ScalarS16 x \<Rightarrow> Some (2, ucast x) | _ \<Rightarrow> None)
      else if bit_length \<le> 32 then (case v of ScalarU32 x \<Rightarrow> Some (4, ucast x) | ScalarS32 x \<Rightarrow> Some (4, ucast x) | _ \<Rightarrow> None)
      else if bit_length \<le> 64 then (case v of ScalarU64 x \<Rightarrow> Some (8, x) | ScalarS64 x \<Rightarrow> Some (8, x) | _ \<Rightarrow> None)
      else None)"

definition canardEncodeScalar ::
  "bool \<Rightarrow> u8 list option \<Rightarrow> u32 \<Rightarrow> u8 \<Rightarrow> CanardScalar option \<Rightarrow> u8 list option" where
  "canardEncodeScalar be destination bit_offset bit_length value = do {
     destination \<leftarrow> destination;
     value \<leftarrow> value;
     canard_assert (\<not> bit_length > 64);
     canard_assert (\<not> bit_length < 1);
     (n, x) \<leftarrow> load_value bit_length value;
     let bytes = store_as be n x (replicate 8 0);
     bytes \<leftarrow> (if isBigEndian be then swapByteOrder bytes (of_nat n) else Some bytes);
     bytes \<leftarrow> (if bit_length mod 8 \<noteq> 0 then do {
         b \<leftarrow> nth_opt bytes (unat (bit_length div 8));
         upd_opt bytes (unat (bit_length div 8)) (push_bit (unat ((8 - bit_length mod 8) AND 7)) b)
       } else Some bytes);
     copyBitArray (nth_opt bytes) 0 (ucast bit_length) destination bit_offset
   }"


section \<open>The value on the wire\<close>

text \<open>
  Bit \<open>k\<close> of a scalar of \<open>n\<close> bits is at this position of the bit stream: the bytes of the scalar come
  lowest first, each with its most significant bit first; the last one may be partial.
\<close>

definition scalar_pos :: "nat \<Rightarrow> nat \<Rightarrow> nat" where
  "scalar_pos n k =
     (let q = k div 8 in 8 * q + (if q < n div 8 then 7 - k mod 8 else n mod 8 - 1 - k mod 8))"

text \<open>Bits past the end of the payload count as zero.\<close>

definition wire_bits :: "u8 list \<Rightarrow> nat \<Rightarrow> nat \<Rightarrow> bool list" where
  "wire_bits p start n =
     map (\<lambda>k. start + scalar_pos n k < 8 * length p \<and> abit p (start + scalar_pos n k)) [0..<n]"

definition wire_value :: "u8 list \<Rightarrow> nat \<Rightarrow> nat \<Rightarrow> int" where
  "wire_value p start n = horner_sum of_bool 2 (wire_bits p start n)"

lemma bit_wire_value: "bit (wire_value p start n) k \<longleftrightarrow>
    k < n \<and> start + scalar_pos n k < 8 * length p \<and> abit p (start + scalar_pos n k)"
  by (auto simp: wire_value_def wire_bits_def bit_horner_sum_bit_iff)

lemma scalar_pos_less: "k < n \<Longrightarrow> scalar_pos n k < n"
proof -
  assume k: "k < n"
  have "8 * (k div 8) + k mod 8 = k" "8 * (n div 8) + n mod 8 = n" by simp_all
  moreover have "k div 8 \<le> n div 8" using k by (simp add: div_le_mono)
  moreover have "k mod 8 < 8" by simp
  ultimately show ?thesis
    using k unfolding scalar_pos_def Let_def by (cases "k div 8 < n div 8") (simp only: if_True if_False; linarith)+
qed

section \<open>Bytes and values\<close>

lemma isBigEndian_eq [simp]: "isBigEndian be = be"
  by (cases be) (simp_all add: isBigEndian_def to_object_def le_bytes_def upt_rec)

lemma length_8: "length bs = 8 \<Longrightarrow> \<exists>a b c d e f g h. bs = [a, b, c, d, e, f, g, h]"
  by (auto simp: length_Suc_conv eval_nat_numeral)

lemma swapByteOrder_eq:
  assumes "length bs = 8" and "n \<in> {1, 2, 4, 8}"
  shows "swapByteOrder bs (of_nat n) = Some (rev (take n bs) @ drop n bs)"
proof -
  obtain a b c d e f g h where bs: "bs = [a, b, c, d, e, f, g, h]"
    using length_8 [OF assms(1)] by blast
  note u = swap_loop.simps
  show ?thesis
    using assms(2) unfolding bs swapByteOrder_def
    by (elim insertE emptyE) (simp add: u)+
qed

text \<open>With the swap the machine's byte order does not matter.\<close>

lemma load_swapped:
  assumes "length bs = 8" and "n \<in> {1, 2, 4, 8}"
  shows "returns (if isBigEndian be then swapByteOrder bs (of_nat n) else Some bs)
    (\<lambda>bs'. length bs' = 8 \<and> load_as be n bs' = le_value (take n bs))"
  using assms swapByteOrder_eq [OF assms] by (auto simp: load_as_def from_object_def)

lemma load_store: "8 * n \<le> 64 \<Longrightarrow> load_as be n (store_as be n v bs) = take_bit (8 * n) v"
  by (simp add: load_as_def store_as_def from_object_def to_object_def le_value_bytes)


section \<open>What is decoded\<close>

text \<open>The table of types in \<open>canard.h\<close>, and the number an object stands for.\<close>

fun scalar_type :: "u8 \<Rightarrow> bool \<Rightarrow> CanardScalar \<Rightarrow> bool" where
  "scalar_type n is_signed (ScalarBool _) \<longleftrightarrow> n = 1 \<and> \<not> is_signed"
| "scalar_type n is_signed (ScalarU8 _) \<longleftrightarrow> 2 \<le> n \<and> n \<le> 8 \<and> \<not> is_signed"
| "scalar_type n is_signed (ScalarS8 _) \<longleftrightarrow> 2 \<le> n \<and> n \<le> 8 \<and> is_signed"
| "scalar_type n is_signed (ScalarU16 _) \<longleftrightarrow> 9 \<le> n \<and> n \<le> 16 \<and> \<not> is_signed"
| "scalar_type n is_signed (ScalarS16 _) \<longleftrightarrow> 9 \<le> n \<and> n \<le> 16 \<and> is_signed"
| "scalar_type n is_signed (ScalarU32 _) \<longleftrightarrow> 17 \<le> n \<and> n \<le> 32 \<and> \<not> is_signed"
| "scalar_type n is_signed (ScalarS32 _) \<longleftrightarrow> 17 \<le> n \<and> n \<le> 32 \<and> is_signed"
| "scalar_type n is_signed (ScalarU64 _) \<longleftrightarrow> 33 \<le> n \<and> n \<le> 64 \<and> \<not> is_signed"
| "scalar_type n is_signed (ScalarS64 _) \<longleftrightarrow> 33 \<le> n \<and> n \<le> 64 \<and> is_signed"

fun scalar_int :: "CanardScalar \<Rightarrow> int" where
  "scalar_int (ScalarBool b) = of_bool b"
| "scalar_int (ScalarU8 x) = uint x"
| "scalar_int (ScalarS8 x) = sint x"
| "scalar_int (ScalarU16 x) = uint x"
| "scalar_int (ScalarS16 x) = sint x"
| "scalar_int (ScalarU32 x) = uint x"
| "scalar_int (ScalarS32 x) = sint x"
| "scalar_int (ScalarU64 x) = uint x"
| "scalar_int (ScalarS64 x) = sint x"

text \<open>Bits above the scalar are filled with its sign.\<close>

lemma sint_extend_sign:
  fixes x :: "'a::len word"
  assumes n: "0 < unat n" "unat n \<le> LENGTH('a)" and hi: "\<And>k. unat n \<le> k \<Longrightarrow> \<not> bit x k"
  shows "sint (extend_sign n x) = signed_take_bit (unat n - 1) (uint x)"
proof -
  have un: "unat (n - 1) = unat n - 1" by (rule unat_minus_1 [OF n(1)])
  have m: "push_bit (unat n) 1 - 1 = (mask (unat n) :: 'a word)" by (simp add: mask_eq_exp_minus_1)
  have flag: "x AND push_bit (unat n - 1) 1 \<noteq> 0 \<longleftrightarrow> bit x (unat n - 1)"
    by (rule and_flag_iff) (simp add: push_bit_eq_mult)
  have b: "bit (extend_sign n x) k \<longleftrightarrow> bit x (if k < unat n then k else unat n - 1)" if "k < LENGTH('a)" for k
    unfolding extend_sign_def un m flag using that hi n by (auto simp: bit_simps)
  show ?thesis
  proof (rule bit_eqI)
    fix k
    have "bit (sint (extend_sign n x)) k = bit (extend_sign n x) (min k (LENGTH('a) - 1))"
    proof -
      have "min k (LENGTH('a) - 1) < LENGTH('a)" by (simp add: min_less_iff_disj)
      then show ?thesis by (simp add: sint_uint bit_signed_take_bit_iff bit_uint_iff min.commute [of k])
    qed
    also have "\<dots> = bit x (min k (unat n - 1))"
      using n by (subst b) (auto simp: min_def intro!: arg_cong [where f = "bit x"])
    finally show "bit (sint (extend_sign n x)) k = bit (signed_take_bit (unat n - 1) (uint x)) k"
      using n bit_imp_le_length [of x] by (auto simp: bit_signed_take_bit_iff bit_uint_iff min_def)
  qed
qed

lemma decoded_bits:
  assumes c: "copied (nth_opt p) start (replicate 8 0) 0 (min n (8 * length p - start)) out" and n: "n \<le> 64"
    and q: "q < 8" "j < 8"
  shows "bit (out ! q) j \<longleftrightarrow> 8 * q + 7 - j < n \<and> start + (8 * q + 7 - j) < 8 * length p \<and>
    abit p (start + (8 * q + 7 - j))"
proof -
  let ?k = "8 * q + (7 - j)"
  have e: "8 * q + 7 - j = ?k" using q by simp
  have k: "?k div 8 = q" "?k mod 8 = 7 - j" "?k < 64"
    using byte_pos [of "7 - j" q] q by simp_all
  have "bit (out ! q) j = abit out ?k"
    using k q by (simp add: abit_def)
  also have "\<dots> \<longleftrightarrow> ?k < n \<and> start + ?k < 8 * length p \<and> abit p (start + ?k)"
  proof (cases "?k < min n (8 * length p - start)")
    case True
    then have "abit out ?k = sbit (nth_opt p) (start + ?k)" using c by (auto simp: copied_def)
    moreover have "(start + ?k) div 8 < length p"
      by (rule less_mult_imp_div_less) (use True in linarith)
    moreover have "start + ?k < 8 * length p" using True by linarith
    ultimately show ?thesis using True by (simp add: sbit_def abit_def)
  next
    case False
    then have "abit out ?k = abit (replicate 8 0) ?k"
    proof -
      have "\<forall>k < 8 * length (replicate 8 0 :: u8 list). k < 0 \<or> 0 + min n (8 * length p - start) \<le> k \<longrightarrow>
          abit out k = abit (replicate 8 0) k"
        using c unfolding copied_def by (elim conjE)
      moreover have "?k < 8 * length (replicate 8 0 :: u8 list)" using k(3) by simp
      moreover have "0 + min n (8 * length p - start) \<le> ?k" using False by (simp add: min_le_iff_disj not_less)
      ultimately show ?thesis by blast
    qed
    also have "\<dots> \<longleftrightarrow> False" using k q by (simp add: abit_def)
    finally show ?thesis using False by auto
  qed
  finally show ?thesis unfolding e .
qed

lemma shift_amount:
  fixes n :: u8
  assumes "unat n mod 8 \<noteq> 0"
  shows "unat ((8 - n mod 8) AND 7) = 8 - unat n mod 8"
proof -
  have "unat (8 - n mod 8) = 8 - unat n mod 8"
    by (subst unat_sub) (simp_all add: word_le_nat_alt unat_mod less_imp_le)
  moreover have "(8 - n mod 8) AND 7 = take_bit 3 (8 - n mod 8)"
    by (simp add: take_bit_eq_mask mask_eq_exp_minus_1)
  moreover have "8 - unat n mod 8 < 2 ^ 3" using assms by simp
  ultimately show ?thesis by (simp only: unsigned_take_bit_eq take_bit_nat_eq_self)
qed

lemma decoded_bits_value:
  assumes c: "copied (nth_opt p) start (replicate 8 0) 0 (min n (8 * length p - start)) out"
    and n: "0 < n" "n \<le> 64" and w: "n \<le> 8 * w" "w \<le> 8" and lb: "length bs = 8"
    and bs: "\<And>i. i < 8 \<Longrightarrow> bs ! i = (if i = n div 8 \<and> n mod 8 \<noteq> 0 then drop_bit (8 - n mod 8) (out ! i) else out ! i)"
  shows "uint (le_value (take w bs)) = wire_value p start n"
proof (rule bit_eqI)
  fix k :: nat
  define i where "i = k div 8"
  define j where "j = k mod 8"
  have kk: "k = 8 * i + j" "j < 8" by (simp_all add: i_def j_def)
  define q where "q = n div 8"
  define m where "m = n mod 8"
  have dm: "n = 8 * q + m" "m < 8" by (simp_all add: q_def m_def)
  have "bit (uint (le_value (take w bs))) k \<longleftrightarrow> k < 8 * w \<and> bit (bs ! i) j"
    using w lb by (auto simp: bit_uint_iff bit_le_value div_less_iff_less_mult mult.commute i_def j_def)
  moreover have "\<not> k < n" if "\<not> k < 8 * w" using that w by simp
  moreover have "bit (bs ! i) j \<longleftrightarrow> bit (wire_value p start n) k" if "k < 8 * w"
  proof -
    have i8: "i < 8" using that w unfolding i_def by simp
    note db = decoded_bits [OF c n(2) i8]
    have pos: "scalar_pos n k = 8 * i + (if i < q then 7 - j else m - 1 - j)"
      by (simp add: scalar_pos_def Let_def i_def j_def q_def m_def)
    consider (full) "i < q" | (part) "i = q" "m \<noteq> 0" | (beyond) "q < i \<or> i = q \<and> m = 0"
      by linarith
    then show ?thesis
    proof cases
      case full
      then have f: "8 * i + 7 - j < n" "k < n" using dm kk by linarith+
      have "bs ! i = out ! i" using bs [OF i8] full by (simp add: q_def)
      moreover have "scalar_pos n k = 8 * i + 7 - j" using pos full kk(2) by simp
      ultimately show ?thesis
        using f db [OF kk(2)] by (simp add: bit_wire_value)
    next
      case part
      have b: "bs ! i = drop_bit (8 - m) (out ! i)" using bs [OF i8] part by (simp add: q_def m_def)
      show ?thesis
      proof (cases "j < m")
        case True
        then have e: "8 * i + 7 - (8 - m + j) = 8 * i + (m - 1 - j)" "8 - m + j < 8" "8 * i + (m - 1 - j) < n" "k < n"
          using part(1) dm kk by linarith+
        have p: "scalar_pos n k = 8 * i + (m - 1 - j)" using pos part by simp
        show ?thesis
          unfolding b bit_wire_value p using db [OF e(2)] e unfolding e(1) by (simp add: bit_drop_bit_eq)
      next
        case False
        then have "\<not> k < n" using part(1) dm kk by linarith
        moreover have "\<not> bit (out ! i) (8 - m + j)"
          using False bit_imp_le_length [of "out ! i" "8 - m + j"] by auto
        ultimately show ?thesis unfolding b bit_wire_value by (simp add: bit_drop_bit_eq)
      qed
    next
      case beyond
      then have "\<not> 8 * i + 7 - j < n" "\<not> k < n" using dm kk by (elim disjE conjE; linarith)+
      moreover have "bs ! i = out ! i" using bs [OF i8] beyond by (auto simp: q_def m_def)
      ultimately show ?thesis using db [OF kk(2)] by (simp add: bit_wire_value)
    qed
  qed
  ultimately show "bit (uint (le_value (take w bs))) k = bit (wire_value p start n) k"
    by (auto simp: bit_wire_value)
qed

lemma decoded_value:
  fixes n :: u8
  assumes c: "copied (nth_opt p) start (replicate 8 0) 0 (min (unat n) (8 * length p - start)) out"
    and n: "0 < unat n" "unat n \<le> 64" and w: "unat n \<le> 8 * w" "w \<le> 8"
  shows "returns (if n mod 8 \<noteq> 0 then do {
      b \<leftarrow> nth_opt out (unat (n div 8));
      upd_opt out (unat (n div 8)) (drop_bit (unat ((8 - n mod 8) AND 7)) b)
    } else Some out)
    (\<lambda>bs. length bs = 8 \<and> uint (le_value (take w bs)) = wire_value p start (unat n))"
proof -
  let ?n = "unat n" and ?q = "unat n div 8" and ?m = "unat n mod 8"
  have len: "length out = 8" using c by (simp add: copied_def)
  have dm: "8 * ?q + ?m = ?n" "?m < 8" by simp_all
  define bs where "bs = (if n mod 8 \<noteq> 0 then out[?q := drop_bit (8 - ?m) (out ! ?q)] else out)"
  have nm: "n mod 8 \<noteq> 0 \<longleftrightarrow> ?m \<noteq> 0" by (simp add: unat_eq_zero [symmetric] unat_mod del: unat_eq_zero)
  note sh = shift_amount [of n]
  have q8: "?q < 8" if "?m \<noteq> 0"
  proof -
    have "?n \<noteq> 64" using that by auto
    then show ?thesis using n by simp
  qed
  have run: "(if n mod 8 \<noteq> 0 then do {
      b \<leftarrow> nth_opt out (unat (n div 8));
      upd_opt out (unat (n div 8)) (drop_bit (unat ((8 - n mod 8) AND 7)) b)
    } else Some out) = Some bs"
    using nm sh q8 len by (auto simp: bs_def unat_div)
  have lb: "length bs = 8" using len by (simp add: bs_def)
  have "uint (le_value (take w bs)) = wire_value p start ?n"
  proof (rule decoded_bits_value [OF c n w])
    show "length bs = 8" by (fact lb)
    show "bs ! i = (if i = ?q \<and> ?m \<noteq> 0 then drop_bit (8 - ?m) (out ! i) else out ! i)" if "i < 8" for i
      using that nm q8 len by (auto simp: bs_def)
  qed
  then show ?thesis unfolding run using lb by simp
qed


lemma std_byte_length_cases:
  assumes "0 < unat n" and "unat n \<le> 64"
  shows "\<exists>w \<in> {1, 2, 4, 8}. std_byte_length n = Some w \<and> unat n \<le> 8 * w"
  using assms by (auto simp: std_byte_length_def word_le_nat_alt)

lemma wire_value_bounds: "0 \<le> wire_value p start n" "wire_value p start n < 2 ^ n"
proof -
  have "take_bit n (wire_value p start n) = wire_value p start n"
    by (rule bit_eqI) (auto simp: bit_take_bit_iff bit_wire_value)
  then show "0 \<le> wire_value p start n" "wire_value p start n < 2 ^ n"
    by (metis take_bit_nonnegative, metis take_bit_int_less_exp)
qed

text \<open>The number that is decoded.\<close>

definition decoded :: "u8 list \<Rightarrow> nat \<Rightarrow> nat \<Rightarrow> bool \<Rightarrow> int" where
  "decoded p start n is_signed =
     (if is_signed then signed_take_bit (n - 1) (wire_value p start n) else wire_value p start n)"

lemma uint_ucast_of: "uint (v :: 'a::len word) < 2 ^ LENGTH('b) \<Longrightarrow> uint (ucast v :: 'b::len word) = uint v"
  by (simp add: unsigned_ucast_eq unsigned_take_bit_eq take_bit_int_eq_self)

lemma sint_full: "sint (x :: 'a::len word) = signed_take_bit (LENGTH('a) - 1) (uint x)"
  by (simp add: sint_uint)

lemma sint_extended:
  fixes v :: u64
  assumes v: "uint v = x" "x < 2 ^ unat n" and n: "0 < unat n" "unat n \<le> LENGTH('a)"
  shows "sint (extend_sign n (ucast v :: 'a::len word)) = signed_take_bit (unat n - 1) x"
proof -
  have le: "2 ^ unat n \<le> (2 :: int) ^ LENGTH('a)" using n(2) by (rule power_increasing) simp
  have u: "uint (ucast v :: 'a word) = x"
    using v(1) order.strict_trans2 [OF v(2) le] by (subst uint_ucast_of) simp_all
  have "\<not> bit (ucast v :: 'a word) k" if "unat n \<le> k" for k
  proof -
    have "take_bit (unat n) x = x" using v by (intro take_bit_int_eq_self) auto
    then have "\<not> bit (uint (ucast v :: 'a word)) k" using that u by (metis bit_take_bit_iff linorder_not_less)
    then show ?thesis using bit_imp_le_length [of "ucast v :: 'a word" k] by (auto simp: bit_uint_iff)
  qed
  from sint_extend_sign [OF n this] show ?thesis unfolding u .
qed

lemma ucast_stored [simp]:
  "ucast (take_bit 8 (ucast (a :: u8) :: u64)) = a"
  "ucast (take_bit 16 (ucast (b :: u16) :: u64)) = b"
  "ucast (take_bit 32 (ucast (c :: u32) :: u64)) = c"
  "take_bit 64 (d :: u64) = d"
  by (rule bit_word_eqI; simp add: bit_simps)+

lemma std_byte_length_eq:
  assumes "1 < unat n"
  shows "std_byte_length n = Some w \<longleftrightarrow>
    unat n \<le> 8 \<and> w = 1 \<or> 8 < unat n \<and> unat n \<le> 16 \<and> w = 2 \<or>
    16 < unat n \<and> unat n \<le> 32 \<and> w = 4 \<or> 32 < unat n \<and> unat n \<le> 64 \<and> w = 8"
proof -
  have "n \<noteq> 1" using assms by auto
  then show ?thesis by (auto simp: std_byte_length_def word_le_nat_alt)
qed

lemma signed_out:
  assumes v: "uint (load_as be w bs) = x" "x < 2 ^ unat n"
    and n: "1 < unat n" and w: "std_byte_length n = Some w"
  shows "returns (do {
      bytes \<leftarrow> (if w * 8 \<noteq> unat n then extend_storage be n bs else Some bs);
      copy_out be n True bytes
    }) (\<lambda>s. scalar_type n True s \<and> scalar_int s = signed_take_bit (unat n - 1) x)"
proof -
  have n0: "0 < unat n" using n by simp
  note defs = extend_storage_def copy_out_def word_le_nat_alt word_less_nat_alt load_store
  have "unat n < 8 \<and> w = 1 \<or> unat n = 8 \<and> w = 1 \<or> 8 < unat n \<and> unat n < 16 \<and> w = 2 \<or> unat n = 16 \<and> w = 2 \<or>
    16 < unat n \<and> unat n < 32 \<and> w = 4 \<or> unat n = 32 \<and> w = 4 \<or> 32 < unat n \<and> unat n < 64 \<and> w = 8 \<or>
    unat n = 64 \<and> w = 8"
    using w unfolding std_byte_length_eq [OF n] by (elim disjE conjE; simp; linarith)
  then show ?thesis
  proof (elim disjE conjE)
    assume "unat n < 8" "w = 1"
    then show ?thesis using n sint_extended [OF v n0, where 'a = 8] by (simp add: defs)
  next
    assume "unat n = 8" "w = 1"
    then show ?thesis using n v sint_full [of "ucast (load_as be 1 bs) :: u8"]
      by (simp add: defs uint_ucast_of)
  next
    assume "unat n < 16" "w = 2" "8 < unat n"
    then show ?thesis using n sint_extended [OF v n0, where 'a = 16] by (simp add: defs)
  next
    assume "unat n = 16" "w = 2"
    then show ?thesis using n v sint_full [of "ucast (load_as be 2 bs) :: u16"]
      by (simp add: defs uint_ucast_of)
  next
    assume "unat n < 32" "w = 4" "16 < unat n"
    then show ?thesis using n sint_extended [OF v n0, where 'a = 32] by (simp add: defs)
  next
    assume "unat n = 32" "w = 4"
    then show ?thesis using n v sint_full [of "ucast (load_as be 4 bs) :: u32"]
      by (simp add: defs uint_ucast_of)
  next
    assume "unat n < 64" "w = 8" "32 < unat n"
    then show ?thesis using n sint_extended [OF v n0, where 'a = 64] by (simp add: defs)
  next
    assume "unat n = 64" "w = 8"
    then show ?thesis using n v sint_full [of "load_as be 8 bs"] by (simp add: defs)
  qed
qed

lemma unsigned_out:
  assumes v: "uint (load_as be w bs) = x" "x < 2 ^ unat n"
    and n: "0 < unat n" and w: "std_byte_length n = Some w"
  shows "returns (copy_out be n False bs) (\<lambda>s. scalar_type n False s \<and> scalar_int s = x)"
proof (cases "unat n = 1")
  case True
  then have n1: "n = 1" by (metis unat_1 word_unat_eq_iff)
  have "w = 1" using w n1 by (simp add: std_byte_length_def)
  moreover have "x = 0 \<or> x = 1"
  proof -
    have "0 \<le> x" using v(1) by auto
    then show ?thesis using v(2) True by simp linarith
  qed
  moreover have "load_as be 1 bs \<noteq> 0 \<longleftrightarrow> x \<noteq> 0" using v \<open>w = 1\<close> by (metis uint_0_iff)
  ultimately show ?thesis using n1 by (auto simp: copy_out_def)
next
  case False
  then have n2: "1 < unat n" and ne: "n \<noteq> 1" using n by auto
  have small: "2 ^ unat n \<le> (2 :: int) ^ k" if "unat n \<le> k" for k
    using that by (intro power_increasing) simp_all
  consider "unat n \<le> 8" "w = 1" | "8 < unat n" "unat n \<le> 16" "w = 2"
    | "16 < unat n" "unat n \<le> 32" "w = 4" | "32 < unat n" "unat n \<le> 64" "w = 8"
    using w unfolding std_byte_length_eq [OF n2] by linarith
  then show ?thesis
  proof cases
    case 1
    with v small [of 8] ne n2 show ?thesis by (simp add: copy_out_def word_le_nat_alt uint_ucast_of)
  next
    case 2
    with v small [of 16] ne show ?thesis by (simp add: copy_out_def word_le_nat_alt uint_ucast_of)
  next
    case 3
    with v small [of 32] ne show ?thesis by (simp add: copy_out_def word_le_nat_alt uint_ucast_of)
  next
    case 4
    with v ne show ?thesis by (simp add: copy_out_def word_le_nat_alt)
  qed
qed


lemma decode_correct:
  assumes d: "delivers t bs p" and ch: "chain (buf_view (arena al)) (xfer_payload_middle t) bs"
    and n: "1 \<le> unat n" "unat n \<le> 64" and sg: "is_signed \<longrightarrow> unat n \<noteq> 1"
  shows "returns (canardDecodeScalar be al (Some t) bit_offset n is_signed True) (\<lambda>(ret, v).
    ret = int (min (unat n) (8 * length p - unat bit_offset)) \<and>
    (if unat bit_offset < 8 * length p
     then \<exists>s. v = Some s \<and> scalar_type n is_signed s \<and> scalar_int s = decoded p (unat bit_offset) (unat n) is_signed
     else v = None))"
proof -
  let ?start = "unat bit_offset" and ?k = "min (unat n) (8 * length p - unat bit_offset)"
  have n0: "0 < unat n" using n by simp
  have nz: "\<not> (n < 1 \<or> n > 64)" using n by (simp add: word_less_nat_alt word_le_nat_alt)
  have n1: "\<not> (n = 1 \<and> is_signed)" using sg by auto
  obtain out where out: "descatterTransferPayload al t bit_offset n (replicate 8 0) = Some (int ?k, out)"
      "copied (nth_opt p) ?start (replicate 8 0) 0 ?k out"
    using descatter_correct [OF d ch n0 n(2), of "replicate 8 0" bit_offset] by (auto elim!: returnsE)
  show ?thesis
  proof (cases "?start < 8 * length p")
    case False
    then have "canardDecodeScalar be al (Some t) bit_offset n is_signed True = Some (0, None)"
      using nz n1 out(1) by (simp add: canardDecodeScalar_def)
    then show ?thesis using False by simp
  next
    case True
    obtain w where w: "w \<in> {1, 2, 4, 8}" "std_byte_length n = Some w" "unat n \<le> 8 * w"
      using std_byte_length_cases [OF n0 n(2)] by blast
    have w8: "w \<le> 8" using w(1) by auto
    obtain bs1 where bs1: "(if n mod 8 \<noteq> 0 then do {
        b \<leftarrow> nth_opt out (unat (n div 8));
        upd_opt out (unat (n div 8)) (drop_bit (unat ((8 - n mod 8) AND 7)) b)
      } else Some out) = Some bs1" "length bs1 = 8" "uint (le_value (take w bs1)) = wire_value p ?start (unat n)"
      using decoded_value [OF out(2) n0 n(2) w(3) w8] by (auto elim!: returnsE)
    obtain bs2 where bs2: "(if isBigEndian be then swapByteOrder bs1 (of_nat w) else Some bs1) = Some bs2"
        "load_as be w bs2 = le_value (take w bs1)"
      using load_swapped [OF bs1(2) w(1), of be] by (auto elim!: returnsE)
    have val: "uint (load_as be w bs2) = wire_value p ?start (unat n)" using bs1(3) bs2(2) by simp
    note less = wire_value_bounds(2) [of p ?start "unat n"]
    have k0: "\<not> int ?k \<le> 0" using True n by simp
    have asrt: "canard_assert (int ?k > 0 \<and> int ?k \<le> 64 \<and> int ?k \<le> uint n) = Some ()"
    proof -
      have "int ?k \<le> uint n" by (metis min.cobounded1 of_nat_le_iff of_nat_unat)
      then show ?thesis using True n by simp
    qed
    have "canardDecodeScalar be al (Some t) bit_offset n is_signed True = do {
        bytes \<leftarrow> (if is_signed \<and> w * 8 \<noteq> unat n then extend_storage be n bs2 else Some bs2);
        v \<leftarrow> copy_out be n is_signed bytes;
        Some (int ?k, Some v)
      }"
      unfolding canardDecodeScalar_def using nz n1 out(1) k0 asrt
      by (simp only: bs1(1) bs2(1) w(2) if_False option.simps simp_thms Option.bind.bind_lunit prod.case)
    moreover have "returns (do {
        bytes \<leftarrow> (if is_signed \<and> w * 8 \<noteq> unat n then extend_storage be n bs2 else Some bs2);
        copy_out be n is_signed bytes
      }) (\<lambda>s. scalar_type n is_signed s \<and> scalar_int s = decoded p ?start (unat n) is_signed)"
    proof (cases is_signed)
      case sg': True
      then have "1 < unat n" using sg n by simp
      from signed_out [OF val less this w(2)] show ?thesis
        using sg' by (simp add: decoded_def)
    next
      case False
      then show ?thesis using unsigned_out [OF val less n0 w(2)] by (simp add: decoded_def)
    qed
    ultimately show ?thesis
      using True by (auto elim!: returnsE)
  qed
qed

lemma decode_refuses:
  "transfer = None \<or> \<not> out \<or> n < 1 \<or> n > 64 \<or> n = 1 \<and> is_signed \<Longrightarrow>
     canardDecodeScalar be al transfer bit_offset n is_signed out = Some (- CANARD_ERROR_INVALID_ARGUMENT, None)"
  by (auto simp: canardDecodeScalar_def)


section \<open>What is encoded\<close>

lemma stored_bytes:
  assumes "w \<in> {1, 2, 4, 8}"
  shows "(if isBigEndian be then swapByteOrder (store_as be w x (replicate 8 0)) (of_nat w)
      else Some (store_as be w x (replicate 8 0))) = Some (le_bytes w x @ replicate (8 - w) 0)"
proof -
  have "length (store_as be w x (replicate 8 0)) = 8"
    using assms by (auto simp: store_as_def to_object_def)
  from swapByteOrder_eq [OF this assms] show ?thesis
    by (cases be) (simp_all add: store_as_def to_object_def)
qed

lemma encoded_bits:
  fixes n :: nat and x :: u64
  assumes n: "0 < n" "n \<le> 64" and w: "n \<le> 8 * w" "w \<le> 8" and k: "k < n" and len: "length bs = 8"
    and bs: "\<And>i. i < w \<Longrightarrow> bs ! i = (if i = n div 8 \<and> n mod 8 \<noteq> 0
      then push_bit (8 - n mod 8) (ucast (drop_bit (8 * i) x)) else ucast (drop_bit (8 * i) x))"
  shows "sbit (nth_opt bs) (scalar_pos n k) \<longleftrightarrow> bit x k"
proof -
  define i where "i = k div 8"
  define j where "j = k mod 8"
  have kk: "k = 8 * i + j" "j < 8" by (simp_all add: i_def j_def)
  define q where "q = n div 8"
  define m where "m = n mod 8"
  have dm: "n = 8 * q + m" "m < 8" by (simp_all add: q_def m_def)
  have iw: "i < w" using k kk w by linarith
  have pos: "scalar_pos n k = 8 * i + (if i < q then 7 - j else m - 1 - j)"
    by (simp add: scalar_pos_def Let_def i_def j_def q_def m_def)
  have xb: "bit (ucast (drop_bit (8 * i) x) :: u8) j \<longleftrightarrow> bit x k"
    unfolding kk(1) using kk(2) by (simp add: bit_ucast_iff bit_drop_bit_eq)
  show ?thesis
  proof (cases "i < q")
    case True
    have "bs ! i = ucast (drop_bit (8 * i) x)" using bs [OF iw] True by (simp add: q_def)
    moreover have "scalar_pos n k div 8 = i" "scalar_pos n k mod 8 = 7 - j"
      unfolding pos using True byte_pos [of "7 - j" i] kk(2) by simp_all
    moreover have "7 - (7 - j) = j" using kk(2) by simp
    ultimately show ?thesis using xb iw w len by (simp add: sbit_def)
  next
    case False
    then have iq: "i = q" "j < m" using k kk dm by linarith+
    then have "bs ! i = push_bit (8 - m) (ucast (drop_bit (8 * i) x))" using bs [OF iw] by (simp add: q_def m_def)
    moreover have "bit (push_bit d y) (d + j) \<longleftrightarrow> bit y j" if "d + j < 8" for d and y :: u8
      using that by (simp add: bit_push_bit_iff)
    moreover have "8 - m + j < 8" using iq dm(2) by simp
    ultimately have "bit (bs ! i) (8 - m + j) \<longleftrightarrow> bit x k" using xb by simp
    moreover have "scalar_pos n k div 8 = i" "scalar_pos n k mod 8 = m - 1 - j"
      unfolding pos using False byte_pos [of "m - 1 - j" i] dm(2) by simp_all
    then have "sbit (nth_opt bs) (scalar_pos n k) \<longleftrightarrow> bit (bs ! i) (7 - (m - 1 - j))"
      using iw w len by (simp add: sbit_def)
    moreover have "7 - (m - 1 - j) = 8 - m + j" using iq dm(2) by simp
    ultimately show ?thesis by (simp only:)
  qed
qed

lemma encode_correct:
  assumes n: "1 \<le> unat n" "unat n \<le> 64" and v: "load_value n v = Some (w, x)" and w: "w \<in> {1, 2, 4, 8}" "unat n \<le> 8 * w"
    and dst: "unat bit_offset + unat n \<le> 8 * length dst" "unat bit_offset + unat n < 2 ^ 32"
  shows "returns (canardEncodeScalar be (Some dst) bit_offset n (Some v)) (\<lambda>dst'. length dst' = length dst \<and>
    (\<forall>k < unat n. abit dst' (unat bit_offset + scalar_pos (unat n) k) = bit x k) \<and>
    (\<forall>k < 8 * length dst. k < unat bit_offset \<or> unat bit_offset + unat n \<le> k \<longrightarrow> abit dst' k = abit dst k))"
proof -
  let ?n = "unat n" and ?q = "unat n div 8" and ?m = "unat n mod 8"
  let ?bs = "le_bytes w x @ replicate (8 - w) 0"
  have w8: "w \<le> 8" using w by auto
  define bs where "bs = (if n mod 8 \<noteq> 0 then ?bs[?q := push_bit (8 - ?m) (?bs ! ?q)] else ?bs)"
  have nm: "n mod 8 \<noteq> 0 \<longleftrightarrow> ?m \<noteq> 0" by (simp add: unat_eq_zero [symmetric] unat_mod del: unat_eq_zero)
  have q8: "?q < 8" if "?m \<noteq> 0"
  proof -
    have "?n \<noteq> 64" using that by auto
    then show ?thesis using n by simp
  qed
  have run: "(if n mod 8 \<noteq> 0 then do {
      b \<leftarrow> nth_opt ?bs (unat (n div 8));
      upd_opt ?bs (unat (n div 8)) (push_bit (unat ((8 - n mod 8) AND 7)) b)
    } else Some ?bs) = Some bs"
    using nm shift_amount q8 w8 by (auto simp: bs_def unat_div)
  have lb: "length bs = 8" using w8 by (simp add: bs_def)
  have bsi: "bs ! i = (if i = ?n div 8 \<and> ?n mod 8 \<noteq> 0
      then push_bit (8 - ?n mod 8) (ucast (drop_bit (8 * i) x)) else ucast (drop_bit (8 * i) x))" if "i < w" for i
    using that nm w8 by (auto simp: bs_def nth_append le_bytes_def nth_list_update)
  have n64: "\<not> n > 64" "\<not> n < 1" using n by (simp_all add: word_less_nat_alt)
  have enc: "canardEncodeScalar be (Some dst) bit_offset n (Some v) =
      copyBitArray (nth_opt bs) 0 (ucast n) dst bit_offset"
    unfolding canardEncodeScalar_def Let_def
    by (simp only: n64 v stored_bytes [OF w(1)] run Option.bind.bind_lunit prod.case canard_assert_True simp_thms)
  have "returns (copyBitArray (nth_opt bs) 0 (ucast n) dst bit_offset)
      (copied (nth_opt bs) 0 dst (unat bit_offset) ?n)"
    using copyBitArray_correct [of "ucast n" 0 bit_offset dst "nth_opt bs"] n dst lb by simp
  then show ?thesis
    unfolding enc
  proof (rule returns_mono)
    fix dst' assume c: "copied (nth_opt bs) 0 dst (unat bit_offset) ?n dst'"
    have "abit dst' (unat bit_offset + scalar_pos ?n k) = bit x k" if "k < ?n" for k
      using c scalar_pos_less [OF that] encoded_bits [OF _ n(2) w(2) w8 that lb bsi] n
      by (simp add: copied_def)
    with c show "length dst' = length dst \<and> (\<forall>k < ?n. abit dst' (unat bit_offset + scalar_pos ?n k) = bit x k) \<and>
        (\<forall>k < 8 * length dst. k < unat bit_offset \<or> unat bit_offset + ?n \<le> k \<longrightarrow> abit dst' k = abit dst k)"
      by (simp add: copied_def)
  qed
qed


section \<open>Round trip\<close>

definition fits :: "u8 \<Rightarrow> bool \<Rightarrow> CanardScalar \<Rightarrow> bool" where
  "fits n is_signed v \<longleftrightarrow> scalar_type n is_signed v \<and>
     (if is_signed then - (2 ^ (unat n - 1)) \<le> scalar_int v \<and> scalar_int v < 2 ^ (unat n - 1)
      else scalar_int v < 2 ^ unat n)"

lemma take_bit_sint: "n \<le> LENGTH('a) \<Longrightarrow> take_bit n (sint (x :: 'a::len word)) = take_bit n (uint x)"
  by (rule bit_eqI) (auto simp: bit_take_bit_iff bit_sint_iff bit_uint_iff)

lemma uint_u64 [simp]:
  "uint (ucast (a :: u8) :: u64) = uint a" "uint (ucast (b :: u16) :: u64) = uint b"
  "uint (ucast (c :: u32) :: u64) = uint c"
  by (rule bit_eqI; auto simp: bit_uint_iff bit_simps dest: bit_imp_le_length)+

lemma scalar_type_load:
  assumes "scalar_type n is_signed v"
  shows "\<exists>w x. load_value n v = Some (w, x) \<and> w \<in> {1, 2, 4, 8} \<and> unat n \<le> 8 * w \<and> 1 \<le> unat n \<and> unat n \<le> 64 \<and>
    (is_signed \<longrightarrow> unat n \<noteq> 1) \<and> take_bit (unat n) (uint x) = take_bit (unat n) (scalar_int v)"
proof (cases v)
  case (ScalarBool b)
  then show ?thesis using assms by (cases b) (auto simp: load_value_def)
qed (use assms in \<open>auto simp: load_value_def word_le_nat_alt take_bit_sint\<close>)

text \<open>The type an object must have is determined by the length and the signedness.\<close>

fun scalar_index :: "CanardScalar \<Rightarrow> nat \<times> bool" where
  "scalar_index (ScalarBool _) = (0, False)"
| "scalar_index (ScalarU8 _) = (1, False)"
| "scalar_index (ScalarS8 _) = (1, True)"
| "scalar_index (ScalarU16 _) = (2, False)"
| "scalar_index (ScalarS16 _) = (2, True)"
| "scalar_index (ScalarU32 _) = (4, False)"
| "scalar_index (ScalarS32 _) = (4, True)"
| "scalar_index (ScalarU64 _) = (8, False)"
| "scalar_index (ScalarS64 _) = (8, True)"

lemma scalar_type_index:
  "scalar_type n is_signed v \<Longrightarrow> scalar_index v =
     (if unat n \<le> 1 then 0 else if unat n \<le> 8 then 1 else if unat n \<le> 16 then 2 else if unat n \<le> 32 then 4 else 8,
      is_signed)"
  by (cases v) (simp_all add: word_le_nat_alt)

lemma scalar_index_eq: "scalar_index s = scalar_index v \<Longrightarrow> scalar_int s = scalar_int v \<Longrightarrow> s = v"
  by (cases s; cases v) (simp_all add: unsigned_word_eqI signed_word_eqI of_bool_eq_iff)

lemma scalar_eq:
  "scalar_type n is_signed s \<Longrightarrow> scalar_type n is_signed v \<Longrightarrow> scalar_int s = scalar_int v \<Longrightarrow> s = v"
  by (rule scalar_index_eq) (simp_all add: scalar_type_index)

lemma roundtrip_value:
  assumes v: "fits n is_signed v" and n: "1 \<le> unat n"
    and x: "take_bit (unat n) (uint x) = take_bit (unat n) (scalar_int v)"
    and room: "start + unat n \<le> 8 * length p"
    and b: "\<forall>k < unat n. abit p (start + scalar_pos (unat n) k) = bit (x :: u64) k"
  shows "decoded p start (unat n) is_signed = scalar_int v"
proof -
  have "wire_value p start (unat n) = take_bit (unat n) (uint x)"
  proof (rule bit_eqI)
    fix k
    show "bit (wire_value p start (unat n)) k = bit (take_bit (unat n) (uint x)) k"
    proof (cases "k < unat n")
      case True
      then have "start + scalar_pos (unat n) k < 8 * length p" using scalar_pos_less [of k "unat n"] room by simp
      then show ?thesis using True b bit_imp_le_length [of x k] by (auto simp: bit_wire_value bit_take_bit_iff bit_uint_iff)
    qed (simp add: bit_wire_value bit_take_bit_iff)
  qed
  then have w: "wire_value p start (unat n) = take_bit (unat n) (scalar_int v)" using x by simp
  show ?thesis
  proof (cases is_signed)
    case True
    then have "signed_take_bit (unat n - 1) (scalar_int v) = scalar_int v"
      using v by (intro signed_take_bit_int_eq_self) (auto simp: fits_def)
    moreover have "signed_take_bit (unat n - 1) (take_bit (unat n) (scalar_int v)) = signed_take_bit (unat n - 1) (scalar_int v)"
      using n by (intro bit_eqI) (auto simp: bit_signed_take_bit_iff bit_take_bit_iff min_def)
    ultimately show ?thesis using True w by (simp add: decoded_def)
  next
    case False
    then have "0 \<le> scalar_int v" using v by (cases v) (auto simp: fits_def)
    then have "take_bit (unat n) (scalar_int v) = scalar_int v"
      using v False by (intro take_bit_int_eq_self) (auto simp: fits_def)
    then show ?thesis using False w by (simp add: decoded_def)
  qed
qed


text \<open>
  What is encoded into a payload is decoded from any transfer that delivers the payload, whatever the
  byte orders of the two machines.
\<close>

lemma encode_decode:
  assumes v: "fits n is_signed v"
    and dst: "unat bit_offset + unat n \<le> 8 * length dst" "unat bit_offset + unat n < 2 ^ 32"
  shows "returns (canardEncodeScalar be (Some dst) bit_offset n (Some v)) (\<lambda>p. \<forall>t bs al be'.
    delivers t bs p \<and> chain (buf_view (arena al)) (xfer_payload_middle t) bs \<longrightarrow>
    canardDecodeScalar be' al (Some t) bit_offset n is_signed True = Some (uint n, Some v))"
proof -
  have st: "scalar_type n is_signed v" using v by (simp add: fits_def)
  obtain w x where x: "load_value n v = Some (w, x)" "w \<in> {1, 2, 4, 8}" "unat n \<le> 8 * w" "1 \<le> unat n" "unat n \<le> 64"
      "is_signed \<longrightarrow> unat n \<noteq> 1" "take_bit (unat n) (uint x) = take_bit (unat n) (scalar_int v)"
    using scalar_type_load [OF st] by blast
  show ?thesis
  proof (rule returns_mono [OF encode_correct [OF x(4,5,1,2,3) dst]], elim conjE, intro allI impI, elim conjE)
    fix p t bs and al :: CanardPoolAllocator and be'
    assume p: "length p = length dst" "\<forall>k < unat n. abit p (unat bit_offset + scalar_pos (unat n) k) = bit x k"
      and d: "delivers t bs p" "chain (buf_view (arena al)) (xfer_payload_middle t) bs"
    have room: "unat bit_offset + unat n \<le> 8 * length p" using dst(1) p(1) by simp
    have val: "decoded p (unat bit_offset) (unat n) is_signed = scalar_int v"
      by (rule roundtrip_value [OF v x(4,7) room p(2)])
    have lt: "unat bit_offset < 8 * length p" and all: "min (unat n) (8 * length p - unat bit_offset) = unat n"
      using room x(4) by simp_all
    obtain s where s: "canardDecodeScalar be' al (Some t) bit_offset n is_signed True = Some (int (unat n), Some s)"
        "scalar_type n is_signed s" "scalar_int s = scalar_int v"
      using decode_correct [OF d x(4,5,6), of be' bit_offset] lt all val by (auto elim!: returnsE)
    moreover have "s = v" by (rule scalar_eq [OF s(2) st s(3)])
    ultimately show "canardDecodeScalar be' al (Some t) bit_offset n is_signed True = Some (uint n, Some v)"
      by simp
  qed
qed

end
