(* ===== verification/Canard_Reception.thy ===== *)
theory Canard_Reception
  imports Canard_Publish Canard_Cleanup Canard_Scalar
begin

text \<open>
  What an application can rely on when it reads a received payload, writes one, and lets the library
  clean up: the properties of the scalar codec and of \<open>canardCleanupStaleTransfers\<close>, with examples.
\<close>

section \<open>A node that has received something\<close>

text \<open>Four blocks; two hold receive states, of which the one at the end of the list is stale.\<close>

definition demo_stale :: CanardRxState where
  "demo_stale = init_rx_state 7"

definition demo_fresh :: CanardRxState where
  "demo_fresh = (init_rx_state 9)\<lparr>rx_next := Some 0, rx_timestamp_usec := 3000000\<rparr>"

definition demo_receiver :: CanardInstance where
  "demo_receiver = demo_node
     \<lparr>allocator :=
        \<lparr>free_list = Some 2,
         statistics = \<lparr>capacity_blocks = 4, current_usage_blocks = 2, peak_usage_blocks = 2\<rparr>,
         arena = [0 \<mapsto> RxBlock demo_stale, 1 \<mapsto> RxBlock demo_fresh, 2 \<mapsto> FreeBlock (Some 3),
                  3 \<mapsto> FreeBlock None]\<rparr>,
      rx_states := Some 1, tx_queue := None\<rparr>"

definition demo_layout :: layout where
  "demo_layout = \<lparr>lay_free = [2, 3], lay_tx = [], lay_rx = [(1, demo_fresh, []), (0, demo_stale, [])],
     lay_held = []\<rparr>"

lemma demo_receiver_layout: "canard_inv demo_receiver demo_layout None"
  by (auto simp: canard_inv_def demo_receiver_def demo_layout_def used_blocks_def pool_inv_def view_defs
      demo_fresh_def demo_stale_def init_rx_state_def)

text \<open>A transfer of one frame with the given payload.\<close>

definition single_frame :: "u8 list \<Rightarrow> CanardRxTransfer" where
  "single_frame p =
     \<lparr>xfer_timestamp_usec = 0, xfer_payload_head = Some (nth_opt p), xfer_payload_middle = None,
      xfer_payload_tail = None, xfer_payload_len = of_nat (length p), xfer_data_type_id = 0,
      xfer_transfer_type = CanardTransferTypeBroadcast, xfer_transfer_id = 0, xfer_priority = 0, xfer_source_node_id = 0\<rparr>"

lemma single_frame_delivers: "length p \<le> 7 \<Longrightarrow> delivers (single_frame p) [] p"
  by (simp add: delivers_def single_frame_def transfer_byte_def unat_of_nat)

section \<open>Cleaning up\<close>

text \<open>
  C13. \<open>canardCleanupStaleTransfers\<close> is memory safe and returns; exactly the receive states whose time
  stamp lies further back than the timeout are gone, with their buffer blocks, and all of these blocks
  are free again; the other states keep their order and everything but the link to the next one, and
  the transmission queue is untouched.
\<close>

theorem cleanup_removes_exactly_stale:
  assumes "canard_inv ins L None"
  shows "\<exists>ins' L'. canardCleanupStaleTransfers ins now = Some ins' \<and> canard_inv ins' L' None \<and>
    lay_tx L' = lay_tx L \<and> node_id ins' = node_id ins \<and>
    map unlinked (lay_rx L') = map unlinked (filter (\<lambda>e. \<not> stale now e) (lay_rx L)) \<and>
    length (lay_free L') + length (used_blocks L') = length (lay_free L) + length (used_blocks L)"
  using cleanup_correct [OF assms, of now] by (auto simp: cleaned_def elim!: returnsE)

theorem cleanup_removes_exactly_stale_witness:
  "\<exists>ins' L'. canardCleanupStaleTransfers demo_receiver 3000001 = Some ins' \<and> canard_inv ins' L' None \<and>
    length (lay_free L') = 3 \<and> map fst (lay_rx L') = [1]"
proof -
  obtain ins' L' where *: "canardCleanupStaleTransfers demo_receiver 3000001 = Some ins'" "canard_inv ins' L' None"
      "lay_tx L' = []" "map unlinked (lay_rx L') = [unlinked (1, demo_fresh, [])]"
      "length (lay_free L') + length (used_blocks L') = 4"
    using cleanup_removes_exactly_stale [OF demo_receiver_layout, of 3000001]
    by (auto simp: demo_layout_def stale_def demo_fresh_def demo_stale_def init_rx_state_def used_blocks_def)
  then obtain r where rx: "lay_rx L' = [(1, r, [])]" by (auto simp: unlinked_def)
  have "lay_held L' = []" using *(2) by (simp add: canard_inv_def Let_def)
  then have "length (used_blocks L') = 1" using rx *(3) by (simp add: used_blocks_def)
  with * rx show ?thesis by auto
qed

section \<open>Scalars\<close>

text \<open>
  \<open>copyBitArray\<close> copies the bits: the \<open>src_len\<close> bits of the source from \<open>src_offset\<close> on become those
  of the destination from \<open>dst_offset\<close> on (the most significant bit of a byte first), all other bits
  of the destination stay, and nothing outside of the named bytes is read or written.
\<close>

theorem copyBitArray_copies_bits:
  assumes "0 < unat src_len" and "unat src_offset + unat src_len < 2 ^ 32"
    and "unat dst_offset + unat src_len \<le> 8 * length dst" and "unat dst_offset + unat src_len < 2 ^ 32"
    and "\<And>i. unat src_offset div 8 \<le> i \<Longrightarrow> 8 * i < unat src_offset + unat src_len \<Longrightarrow> src i \<noteq> None"
  shows "\<exists>dst'. copyBitArray src src_offset src_len dst dst_offset = Some dst' \<and> length dst' = length dst \<and>
    (\<forall>i < unat src_len. abit dst' (unat dst_offset + i) = sbit src (unat src_offset + i)) \<and>
    (\<forall>k < 8 * length dst. k < unat dst_offset \<or> unat dst_offset + unat src_len \<le> k \<longrightarrow> abit dst' k = abit dst k)"
  using copyBitArray_correct [OF assms(1-4), of src] assms(5) by (auto simp: copied_def elim!: returnsE)

theorem copyBitArray_copies_bits_witness:
  "\<exists>dst'. copyBitArray (nth_opt [0xAB, 0xCD]) 4 8 [0xFF, 0, 0xFF] 6 = Some dst' \<and> length dst' = 3 \<and> abit dst' 6"
proof -
  have "\<exists>dst'. copyBitArray (nth_opt [0xAB, 0xCD]) 4 8 [0xFF, 0, 0xFF] 6 = Some dst' \<and>
      length dst' = length [0xFF :: u8, 0, 0xFF] \<and>
      (\<forall>i < unat (8 :: u32). abit dst' (unat (6 :: u32) + i) = sbit (nth_opt [0xAB, 0xCD]) (unat (4 :: u32) + i)) \<and>
      (\<forall>k < 8 * length [0xFF :: u8, 0, 0xFF]. k < unat (6 :: u32) \<or> unat (6 :: u32) + unat (8 :: u32) \<le> k \<longrightarrow>
        abit dst' k = abit [0xFF, 0, 0xFF] k)"
    by (rule copyBitArray_copies_bits) (auto simp: nth_opt_def)
  then obtain dst' where "copyBitArray (nth_opt [0xAB, 0xCD]) 4 8 [0xFF, 0, 0xFF] 6 = Some dst'" "length dst' = 3"
      "abit dst' 6 = sbit (nth_opt [0xAB, 0xCD]) 4"
    by (auto dest: spec [of _ 0])
  moreover have "sbit (nth_opt [0xAB, 0xCD]) 4" by (simp add: sbit_def nth_opt_def bit_numeral_rec)
  ultimately show ?thesis by blast
qed

text \<open>
  C15. Decoding from a transfer, however its payload \<open>p\<close> is spread over head, blocks and tail: the
  result is the number of bits there are, up to the length asked for; when there is at least one, the
  object written has the type that belongs to the length, and its value is that of the little-endian
  bit string, sign-extended for signed types; when there is none, nothing is written.
\<close>

theorem decode_reads_payload:
  assumes "delivers t bs p" and "chain (buf_view (arena al)) (xfer_payload_middle t) bs"
    and "1 \<le> unat n" and "unat n \<le> 64" and "is_signed \<longrightarrow> unat n \<noteq> 1"
  shows "\<exists>ret v. canardDecodeScalar be al (Some t) bit_offset n is_signed True = Some (ret, v) \<and>
    ret = int (min (unat n) (8 * length p - unat bit_offset)) \<and>
    (if unat bit_offset < 8 * length p
     then \<exists>s. v = Some s \<and> scalar_type n is_signed s \<and> scalar_int s = decoded p (unat bit_offset) (unat n) is_signed
     else v = None)"
  using decode_correct [OF assms, of be bit_offset] by (auto elim!: returnsE)

theorem decode_reads_payload_witness:
  "\<exists>v. canardDecodeScalar True (allocator demo_node) (Some (single_frame [0x34, 0x12])) 0 16 False True
      = Some (16, v) \<and> v \<noteq> None"
  using decode_reads_payload [OF single_frame_delivers, of "[0x34, 0x12]" "allocator demo_node" 16 False True 0]
  by (auto simp: single_frame_def)

text \<open>
  C14. Round trip: a value that fits its length, encoded into a payload at any bit position, is decoded
  again from every transfer that delivers this payload, for any byte orders of the two machines.
\<close>

theorem encode_decode_roundtrip:
  assumes "fits n is_signed v" and "unat bit_offset + unat n \<le> 8 * length dst"
    and "unat bit_offset + unat n < 2 ^ 32"
  shows "\<exists>p. canardEncodeScalar be (Some dst) bit_offset n (Some v) = Some p \<and>
    (\<forall>t bs al be'. delivers t bs p \<and> chain (buf_view (arena al)) (xfer_payload_middle t) bs \<longrightarrow>
      canardDecodeScalar be' al (Some t) bit_offset n is_signed True = Some (uint n, Some v))"
  using encode_decode [OF assms, of be] by (auto elim!: returnsE)

theorem encode_decode_roundtrip_witness:
  "\<exists>p. canardEncodeScalar False (Some [0, 0, 0]) 3 12 (Some (ScalarS16 (- 77))) = Some p \<and>
    (\<forall>t bs al be'. delivers t bs p \<and> chain (buf_view (arena al)) (xfer_payload_middle t) bs \<longrightarrow>
      canardDecodeScalar be' al (Some t) 3 12 True True = Some (12, Some (ScalarS16 (- 77))))"
  using encode_decode_roundtrip [of 12 True "ScalarS16 (- 77)" 3 "[0, 0, 0]" False]
  by (simp add: fits_def)

text \<open>
  Arguments outside the contract of \<open>canardDecodeScalar\<close> give the code of an invalid argument and
  write nothing; \<open>canardEncodeScalar\<close> stops at an assertion for them.
\<close>

theorem scalar_codec_refuses:
  assumes "n < 1 \<or> n > 64"
  shows "canardDecodeScalar be al transfer bit_offset n is_signed out = Some (- CANARD_ERROR_INVALID_ARGUMENT, None) \<and>
    canardEncodeScalar be destination bit_offset n v = None"
  using assms by (auto simp: canardDecodeScalar_def canardEncodeScalar_def)

theorem scalar_codec_refuses_witness:
  "canardEncodeScalar True (Some [0]) 0 0 (Some (ScalarU8 1)) = None"
  using scalar_codec_refuses [of 0] by simp

end
