(* ===== verification/Image_Crc.thy ===== *)
theory Image_Crc
  imports Crc_Register
begin

text \<open>
  The CRC-64-WE of the bootloader (\<open>class CRC64WE\<close> in \<open>util.hpp\<close>), a second instance of the shift
  register contract, and its bit-serial reference.
\<close>

section \<open>The class\<close>

abbreviation (input) Poly :: u64 where "Poly \<equiv> 0x42F0E1EBA9EA3693"
abbreviation (input) Mask :: u64 where "Mask \<equiv> push_bit 63 1"

text \<open>One line of the unrolled loop, and the body for one byte.\<close>

definition crc64_step :: "u64 \<Rightarrow> u64" where
  "crc64_step crc = (if crc AND Mask \<noteq> 0 then push_bit 1 crc XOR Poly else push_bit 1 crc)"

definition crc64_byte :: "u64 \<Rightarrow> u8 \<Rightarrow> u64" where
  "crc64_byte crc b =
     (let crc = crc XOR push_bit 56 (ucast b);
          crc = crc64_step crc;
          crc = crc64_step crc;
          crc = crc64_step crc;
          crc = crc64_step crc;
          crc = crc64_step crc;
          crc = crc64_step crc;
          crc = crc64_step crc
      in crc64_step crc)"

primrec CRC64WE_add :: "u64 \<Rightarrow> u8 list \<Rightarrow> u64" where
  "CRC64WE_add crc [] = crc"
| "CRC64WE_add crc (b # bytes) = CRC64WE_add (crc64_byte crc b) bytes"

definition CRC64WE_init :: u64 where
  "CRC64WE_init = 0xFFFFFFFFFFFFFFFF"

definition CRC64WE_get :: "u64 \<Rightarrow> u64" where
  "CRC64WE_get crc = crc XOR 0xFFFFFFFFFFFFFFFF"

text \<open>The CRC of a block of memory.\<close>

definition CRC64WE :: "u8 list \<Rightarrow> u64" where
  "CRC64WE bytes = CRC64WE_get (CRC64WE_add CRC64WE_init bytes)"

section \<open>The shift register contract\<close>

lemma mask63: "crc AND Mask \<noteq> 0 \<longleftrightarrow> bit (crc :: u64) 63"
  by (rule and_flag_iff) (simp add: push_bit_eq_mult)

interpretation crc64: msb_crc "0x42F0E1EBA9EA3693 :: u64" crc64_step crc64_byte
proof unfold_locales
  fix c :: u64 and b :: u8
  show "crc64_step c = push_bit 1 c XOR (if bit c (LENGTH(64) - 1) then 0x42F0E1EBA9EA3693 else 0)"
    unfolding crc64_step_def mask63 by simp
  show "crc64_byte c b = (crc64_step ^^ 8) (c XOR push_bit (LENGTH(64) - 8) (ucast b))"
    by (simp add: crc64_byte_def Let_def eval_nat_numeral)
qed simp_all

lemma CRC64WE_add_foldl: "CRC64WE_add c bs = foldl crc64_byte c bs"
  by (induction bs arbitrary: c) simp_all

lemma CRC64WE_add_append [simp]: "CRC64WE_add c (xs @ ys) = CRC64WE_add (CRC64WE_add c xs) ys"
  by (simp add: CRC64WE_add_foldl)

text \<open>
  C12. Whatever bytes surround it, replacing up to eight consecutive bytes of a block by different
  ones changes its CRC-64-WE: an application image with such an error is never accepted.
\<close>

theorem crc64_detects_burst:
  assumes "length xs = length ys" and "length xs \<le> 8" and "xs \<noteq> ys"
  shows "CRC64WE (pre @ xs @ post) \<noteq> CRC64WE (pre @ ys @ post)"
proof -
  have "CRC64WE_add c (pre @ xs @ post) \<noteq> CRC64WE_add c (pre @ ys @ post)" for c
    using crc64.burst_detected [of xs ys c pre post] assms by (simp add: CRC64WE_add_foldl del: foldl_append)
  then show ?thesis by (simp add: CRC64WE_def CRC64WE_get_def)
qed

theorem crc64_detects_burst_witness:
  "CRC64WE ([1, 2] @ [3, 4, 5] @ [6]) \<noteq> CRC64WE ([1, 2] @ [3, 0, 5] @ [6])"
  by (rule crc64_detects_burst) simp_all

text \<open>The check value that the comment in \<open>util.hpp\<close> gives for the digits \<open>123456789\<close>.\<close>

lemma crc64_check_value:
  "CRC64WE [0x31, 0x32, 0x33, 0x34, 0x35, 0x36, 0x37, 0x38, 0x39] = 0x62EC59E3F1A4F00A"
  by (simp add: CRC64WE_def CRC64WE_get_def CRC64WE_init_def crc64_byte_def crc64_step_def)

end
