(* ===== verification/Bootloader.thy ===== *)
theory Bootloader
  imports Image_Crc
begin

text \<open>
  The bootloader proper (\<open>bootloader.hpp\<close>, \<open>bootloader.cpp\<close>, \<open>app_storage_backend.hpp\<close>): the search for a
  valid application image, the state machine, and the upgrade procedure. The storage is reached
  through the abstract class \<open>IAppStorageBackend\<close>, here a record of functions on a state; the mutex of
  the class makes each member function one atomic step. Time stamps are system ticks of 16 bits
  (\<open>CH_CFG_ST_RESOLUTION\<close>) at 10 kHz.
\<close>

section \<open>System time\<close>

abbreviation (input) CH_CFG_ST_FREQUENCY :: u32 where "CH_CFG_ST_FREQUENCY \<equiv> 10000"

definition MS2ST :: "u32 \<Rightarrow> u16" where
  "MS2ST msec = ucast ((msec * CH_CFG_ST_FREQUENCY + 999) div 1000)"

definition chVTTimeElapsedSinceX :: "u16 \<Rightarrow> u16 \<Rightarrow> u16" where
  "chVTTimeElapsedSinceX now start = now - start"

section \<open>Data\<close>

datatype State = NoAppToBoot | BootDelay | BootCancelled | AppUpgradeInProgress | ReadyToBoot

record AppInfo =
  image_crc :: u64
  image_size :: u32
  vcs_commit :: u32
  major_version :: u8
  minor_version :: u8

record AppDescriptor =
  signature :: "u8 list"
  app_info :: AppInfo

text \<open>The characters \<open>APDesc00\<close>.\<close>

definition getSignatureValue :: "u8 list" where
  "getSignatureValue = [0x41, 0x50, 0x44, 0x65, 0x73, 0x63, 0x30, 0x30]"

text \<open>The packed structure of 32 bytes as it lies in the image.\<close>

definition read_descriptor :: "u8 list \<Rightarrow> AppDescriptor" where
  "read_descriptor bs =
     \<lparr>signature = take 8 bs,
      app_info = \<lparr>image_crc = le_value (take 8 (drop 8 bs)),
                  image_size = ucast (le_value (take 4 (drop 16 bs))),
                  vcs_commit = ucast (le_value (take 4 (drop 20 bs))),
                  major_version = bs ! 24, minor_version = bs ! 25\<rparr>\<rparr>"

definition isValid :: "AppDescriptor \<Rightarrow> u32 \<Rightarrow> bool" where
  "isValid desc max_application_image_size \<longleftrightarrow>
     signature desc = getSignatureValue \<and> image_size (app_info desc) > 0 \<and>
     image_size (app_info desc) \<le> max_application_image_size \<and> image_size (app_info desc) mod 8 = 0"

section \<open>The storage backend\<close>

text \<open>
  \<open>backend_read s offset size\<close>: \<open>None\<close> is a negative code; otherwise the bytes read, whose number is the
  result. \<open>backend_write s offset data size\<close> is given a buffer that may be longer than \<open>size\<close>; \<open>None\<close> is
  a failed assertion.
\<close>

record 's backend =
  beginUpgrade :: "'s \<Rightarrow> int \<times> 's"
  backend_write :: "'s \<Rightarrow> u32 \<Rightarrow> u8 list \<Rightarrow> u32 \<Rightarrow> (int \<times> 's) option"
  endUpgrade :: "'s \<Rightarrow> bool \<Rightarrow> int \<times> 's"
  backend_read :: "'s \<Rightarrow> nat \<Rightarrow> nat \<Rightarrow> u8 list option"

section \<open>Looking for the application\<close>

text \<open>
  The CRC of the bytes from \<open>i\<close> up to \<open>stop\<close>, read in chunks of at most 1024 bytes; a failed read ends
  the loop. A chunk larger than the buffer has no meaning.
\<close>

function crc_chunks :: "(nat \<Rightarrow> nat \<Rightarrow> u8 list option) \<Rightarrow> nat \<Rightarrow> nat \<Rightarrow> u64 \<Rightarrow> u64 option" where
  "crc_chunks rd i stop crc =
     (if i < stop then
        (case rd i (min 1024 (stop - i)) of
           Some bs \<Rightarrow>
             if bs = [] then Some crc
             else if length bs > 1024 then None
             else crc_chunks rd (i + length bs) stop (CRC64WE_add crc bs)
         | None \<Rightarrow> Some crc)
      else Some crc)"
  by pat_completeness auto
termination
  by (relation "measure (\<lambda>(rd, i, stop, crc). stop - i)")
     (auto intro!: diff_less_mono2 simp: neq_Nil_conv)

declare crc_chunks.simps [simp del]

definition image_crc_of :: "(nat \<Rightarrow> nat \<Rightarrow> u8 list option) \<Rightarrow> nat \<Rightarrow> nat \<Rightarrow> u64 option" where
  "image_crc_of rd offset image_sz = do {
     let crc_offset = offset + 8;
     crc \<leftarrow> crc_chunks rd 0 crc_offset CRC64WE_init;
     let crc = CRC64WE_add crc (replicate 8 0);
     crc \<leftarrow> crc_chunks rd (crc_offset + 8) image_sz crc;
     Some (CRC64WE_get crc)
   }"

text \<open>\<open>None\<close> inside \<open>Some\<close>: the end of the storage was reached without finding anything.\<close>

partial_function (option) locate_loop ::
  "(nat \<Rightarrow> nat \<Rightarrow> u8 list option) \<Rightarrow> u32 \<Rightarrow> nat \<Rightarrow> AppDescriptor option option" where
  "locate_loop rd max_size offset =
     (case rd offset 8 of
        None \<Rightarrow> Some None
      | Some sig8 \<Rightarrow>
          if length sig8 \<noteq> 8 then Some None
          else if sig8 \<noteq> getSignatureValue then locate_loop rd max_size (offset + 8)
          else (case rd offset 32 of
              None \<Rightarrow> Some None
            | Some bytes \<Rightarrow>
                if length bytes \<noteq> 32 then Some None
                else if \<not> isValid (read_descriptor bytes) max_size then locate_loop rd max_size (offset + 8)
                else do {
                  crc \<leftarrow> image_crc_of rd offset (unat (image_size (app_info (read_descriptor bytes))));
                  if crc \<noteq> image_crc (app_info (read_descriptor bytes))
                  then locate_loop rd max_size (offset + 8)
                  else Some (Some (read_descriptor bytes))
                }))"

definition locateAppDescriptor ::
  "(nat \<Rightarrow> nat \<Rightarrow> u8 list option) \<Rightarrow> u32 \<Rightarrow> AppDescriptor option option" where
  "locateAppDescriptor rd max_size = locate_loop rd max_size 0"

section \<open>The class Bootloader\<close>

record 's Bootloader =
  bl_state :: State
  bl_storage :: 's
  bl_max_image_size :: u32
  bl_boot_delay_msec :: u32
  bl_boot_delay_started_at :: u16
  bl_cached_app_info :: "AppInfo option"

definition verifyAppAndUpdateState ::
  "'s backend \<Rightarrow> u16 \<Rightarrow> 's Bootloader \<Rightarrow> State \<Rightarrow> 's Bootloader option" where
  "verifyAppAndUpdateState be now bl state_on_success = do {
     found \<leftarrow> locateAppDescriptor (backend_read be (bl_storage bl)) (bl_max_image_size bl);
     case found of
       Some desc \<Rightarrow> Some (bl\<lparr>bl_cached_app_info := Some (app_info desc), bl_state := state_on_success,
                            bl_boot_delay_started_at := now\<rparr>)
     | None \<Rightarrow> Some (bl\<lparr>bl_cached_app_info := None, bl_state := NoAppToBoot\<rparr>)
   }"

definition Bootloader_new ::
  "'s backend \<Rightarrow> u16 \<Rightarrow> 's \<Rightarrow> u32 \<Rightarrow> u32 \<Rightarrow> 's Bootloader option" where
  "Bootloader_new be now s max_application_image_size boot_delay_msec =
     verifyAppAndUpdateState be now
       \<lparr>bl_state = NoAppToBoot, bl_storage = s, bl_max_image_size = max_application_image_size,
        bl_boot_delay_msec = boot_delay_msec, bl_boot_delay_started_at = 0, bl_cached_app_info = None\<rparr>
       BootDelay"

definition getState :: "u16 \<Rightarrow> 's Bootloader \<Rightarrow> State \<times> 's Bootloader" where
  "getState now bl =
     (let bl = (if bl_state bl = BootDelay \<and>
                   chVTTimeElapsedSinceX now (bl_boot_delay_started_at bl) \<ge> MS2ST (bl_boot_delay_msec bl)
                then bl\<lparr>bl_state := ReadyToBoot\<rparr> else bl)
      in (bl_state bl, bl))"

definition getAppInfo :: "'s Bootloader \<Rightarrow> AppInfo \<times> bool" where
  "getAppInfo bl =
     (case bl_cached_app_info bl of
        Some info \<Rightarrow> (info, True)
      | None \<Rightarrow> (\<lparr>image_crc = 0, image_size = 0, vcs_commit = 0, major_version = 0, minor_version = 0\<rparr>, False))"

definition cancelBoot :: "'s Bootloader \<Rightarrow> 's Bootloader" where
  "cancelBoot bl =
     (case bl_state bl of
        BootDelay \<Rightarrow> bl\<lparr>bl_state := BootCancelled\<rparr>
      | ReadyToBoot \<Rightarrow> bl\<lparr>bl_state := BootCancelled\<rparr>
      | NoAppToBoot \<Rightarrow> bl
      | BootCancelled \<Rightarrow> bl
      | AppUpgradeInProgress \<Rightarrow> bl)"

definition requestBoot :: "'s Bootloader \<Rightarrow> 's Bootloader" where
  "requestBoot bl =
     (case bl_state bl of
        BootDelay \<Rightarrow> bl\<lparr>bl_state := ReadyToBoot\<rparr>
      | BootCancelled \<Rightarrow> bl\<lparr>bl_state := ReadyToBoot\<rparr>
      | NoAppToBoot \<Rightarrow> bl
      | AppUpgradeInProgress \<Rightarrow> bl
      | ReadyToBoot \<Rightarrow> bl)"

abbreviation (input) ErrOK :: int where "ErrOK \<equiv> 0"
abbreviation (input) ErrInvalidState :: int where "ErrInvalidState \<equiv> 10001"
abbreviation (input) ErrAppImageTooLarge :: int where "ErrAppImageTooLarge \<equiv> 10002"
abbreviation (input) ErrAppStorageWriteFailure :: int where "ErrAppStorageWriteFailure \<equiv> 10003"

text \<open>
  \<open>upgradeApp\<close> holds the mutex in its first and in its last block, not while the downloader runs. The
  preparation either returns a code or goes on.
\<close>

definition upgradeApp_prepare ::
  "'s backend \<Rightarrow> u16 \<Rightarrow> 's Bootloader \<Rightarrow> (int option \<times> 's Bootloader) option" where
  "upgradeApp_prepare be now bl =
     (if bl_state bl = ReadyToBoot \<or> bl_state bl = AppUpgradeInProgress then Some (Some (- ErrInvalidState), bl)
      else do {
        let bl = bl\<lparr>bl_state := AppUpgradeInProgress, bl_cached_app_info := None\<rparr>;
        let (res, s) = beginUpgrade be (bl_storage bl);
        let bl = bl\<lparr>bl_storage := s\<rparr>;
        if res < 0 then do {
          bl \<leftarrow> verifyAppAndUpdateState be now bl BootCancelled;
          Some (Some res, bl)
        } else Some (None, bl)
      })"

text \<open>The class \<open>Sink\<close>: the offset is its own state.\<close>

definition handleNextDataChunk ::
  "'s backend \<Rightarrow> 's Bootloader \<Rightarrow> u32 \<Rightarrow> u8 list \<Rightarrow> u32 \<Rightarrow> (int \<times> u32 \<times> 's Bootloader) option" where
  "handleNextDataChunk be bl offset data data_size =
     (if offset + data_size \<le> bl_max_image_size bl then do {
        (res, s) \<leftarrow> backend_write be (bl_storage bl) offset data data_size;
        let bl = bl\<lparr>bl_storage := s\<rparr>;
        if res \<ge> 0 \<and> res \<noteq> sint data_size then Some (- ErrAppStorageWriteFailure, offset, bl)
        else Some (res, offset + data_size, bl)
      } else Some (- ErrAppImageTooLarge, offset, bl))"

definition upgradeApp_finish ::
  "'s backend \<Rightarrow> u16 \<Rightarrow> 's Bootloader \<Rightarrow> int \<Rightarrow> (int \<times> 's Bootloader) option" where
  "upgradeApp_finish be now bl res = do {
     canard_assert (bl_state bl = AppUpgradeInProgress);
     let bl = bl\<lparr>bl_state := NoAppToBoot\<rparr>;
     if res < 0 then do {
       let (_, s) = endUpgrade be (bl_storage bl) False;
       bl \<leftarrow> verifyAppAndUpdateState be now (bl\<lparr>bl_storage := s\<rparr>) BootCancelled;
       Some (res, bl)
     } else do {
       let (res, s) = endUpgrade be (bl_storage bl) True;
       let bl = bl\<lparr>bl_storage := s\<rparr>;
       if res < 0 then do {
         bl \<leftarrow> verifyAppAndUpdateState be now bl BootCancelled;
         Some (res, bl)
       } else do {
         bl \<leftarrow> verifyAppAndUpdateState be now bl BootDelay;
         Some (ErrOK, bl)
       }
     }
   }"

lemma length_getSignatureValue [simp]: "length getSignatureValue = 8"
  by (simp add: getSignatureValue_def)

section \<open>What the search finds\<close>

definition descriptor_at :: "u8 list \<Rightarrow> nat \<Rightarrow> AppDescriptor" where
  "descriptor_at img off = read_descriptor (take 32 (drop off img))"

text \<open>The bytes whose CRC the descriptor holds: the image, its CRC field taken as zero.\<close>

definition crc_coverage :: "u8 list \<Rightarrow> nat \<Rightarrow> nat \<Rightarrow> u8 list" where
  "crc_coverage img off sz =
     take (off + 8) img @ replicate 8 0 @ take (sz - (off + 16)) (drop (off + 16) img)"

definition app_at :: "u8 list \<Rightarrow> u32 \<Rightarrow> nat \<Rightarrow> bool" where
  "app_at img max_size off \<longleftrightarrow>
     off mod 8 = 0 \<and> off + 32 \<le> length img \<and> isValid (descriptor_at img off) max_size \<and>
     CRC64WE (crc_coverage img off (unat (image_size (app_info (descriptor_at img off)))))
       = image_crc (app_info (descriptor_at img off))"

definition first_app :: "u8 list \<Rightarrow> u32 \<Rightarrow> AppDescriptor option" where
  "first_app img max_size =
     (if \<exists>off. app_at img max_size off then Some (descriptor_at img (LEAST off. app_at img max_size off))
      else None)"

locale app_storage =
  fixes rd :: "nat \<Rightarrow> nat \<Rightarrow> u8 list option" and img :: "u8 list"
  assumes read_image: "off \<le> length img \<Longrightarrow> n \<le> 1024 \<Longrightarrow> rd off n = Some (take n (drop off img))"
begin

lemma crc_chunks_image:
  "i \<le> length img \<Longrightarrow> crc_chunks rd i stop crc = Some (CRC64WE_add crc (take (stop - i) (drop i img)))"
proof (induction "stop - i" arbitrary: i crc rule: less_induct)
  case less
  have read: "rd i (min 1024 (stop - i)) = Some (take (min 1024 (stop - i)) (drop i img))"
    using less.prems by (intro read_image) auto
  show ?case
  proof (cases "i < stop \<and> i < length img")
    case False
    then show ?thesis
      using less.prems read by (cases "i < stop") (subst crc_chunks.simps, simp)+
  next
    case True
    define n where "n = min (min 1024 (stop - i)) (length img - i)"
    have n: "0 < n" "n \<le> 1024" "n \<le> stop - i" "i + n \<le> length img"
      "take (min 1024 (stop - i)) (drop i img) = take n (drop i img)"
      using True by (auto simp: n_def min_def)
    then have chunk: "take n (drop i img) \<noteq> []" "min (length img - i) n = n" by auto
    have "crc_chunks rd i stop crc = crc_chunks rd (i + n) stop (CRC64WE_add crc (take n (drop i img)))"
      using True n(1,2) by (subst crc_chunks.simps) (simp add: read n(5) chunk)
    also have "\<dots> = Some (CRC64WE_add (CRC64WE_add crc (take n (drop i img)))
                                     (take (stop - (i + n)) (drop (i + n) img)))"
      using n by (intro less.hyps) auto
    also have "\<dots> = Some (CRC64WE_add crc (take (n + (stop - (i + n))) (drop i img)))"
      by (simp only: CRC64WE_add_append [symmetric] take_add drop_drop add.commute)
    also have "n + (stop - (i + n)) = stop - i" using n by simp
    finally show ?thesis .
  qed
qed

lemma image_crc_of_image:
  assumes "off + 32 \<le> length img"
  shows "image_crc_of rd off sz = Some (CRC64WE (crc_coverage img off sz))"
  using assms by (simp add: image_crc_of_def crc_chunks_image CRC64WE_def crc_coverage_def algebra_simps)

end

lemma no_app_past_end:
  assumes "length img < off + 32" and "\<And>o'. o' < off \<Longrightarrow> \<not> app_at img max_size o'"
  shows "first_app img max_size = None"
proof -
  have "\<not> app_at img max_size o'" for o'
    using assms by (cases "o' < off") (auto simp: app_at_def)
  then show ?thesis by (simp add: first_app_def)
qed

lemma first_app_at:
  assumes "app_at img max_size off" and "\<And>o'. o' < off \<Longrightarrow> \<not> app_at img max_size o'"
  shows "first_app img max_size = Some (descriptor_at img off)"
proof -
  have "(LEAST o'. app_at img max_size o') = off"
    using assms by (intro Least_equality) (auto simp: not_less [symmetric])
  then show ?thesis using assms(1) by (auto simp: first_app_def)
qed

lemma signature_of_descriptor:
  "signature (descriptor_at img off) = take 8 (drop off img)"
  by (simp add: descriptor_at_def read_descriptor_def)

context app_storage
begin

lemma locate_loop_image:
  assumes "off mod 8 = 0" and "off \<le> length img"
    and "\<And>o'. o' < off \<Longrightarrow> \<not> app_at img max_size o'"
  shows "locate_loop rd max_size off = Some (first_app img max_size)"
  using assms
proof (induction "length img - off" arbitrary: off rule: less_induct)
  case less
  let ?sig = "take 8 (drop off img)" and ?bytes = "take 32 (drop off img)"
  let ?d = "descriptor_at img off"
  have read8: "rd off 8 = Some ?sig" and read32: "rd off 32 = Some ?bytes"
    using less.prems by (simp_all add: read_image)
  have skip: "locate_loop rd max_size (off + 8) = Some (first_app img max_size)"
    if here: "\<not> app_at img max_size off" and len: "off + 8 \<le> length img"
  proof (rule less.hyps)
    show "\<not> app_at img max_size o'" if "o' < off + 8" for o'
    proof
      assume app: "app_at img max_size o'"
      then have "\<not> o' < off" "o' \<noteq> off" using less.prems here by auto
      then have "off < o'" by simp
      then have "off + 8 \<le> o'"
        using app less.prems(1) by (auto simp: app_at_def mod_eq_0_iff_dvd dvd_def)
      then show False using that by simp
    qed
  qed (use less.prems len in auto)
  consider (short) "length img < off + 8" | (other) "off + 8 \<le> length img" "?sig \<noteq> getSignatureValue"
    | (cut) "off + 8 \<le> length img" "length img < off + 32" "?sig = getSignatureValue"
    | (whole) "off + 32 \<le> length img" "?sig = getSignatureValue" by linarith
  then show ?case
  proof cases
    case short
    then show ?thesis
      using less.prems read8 no_app_past_end [of img off max_size]
      by (subst locate_loop.simps) (auto simp: min_def)
  next
    case other
    then have "\<not> app_at img max_size off" by (auto simp: app_at_def isValid_def signature_of_descriptor)
    with other skip show ?thesis by (subst locate_loop.simps) (simp add: read8)
  next
    case cut
    then show ?thesis
      using less.prems read8 read32 no_app_past_end [of img off max_size]
      by (subst locate_loop.simps) (auto simp: min_def)
  next
    case whole
    have crc: "image_crc_of rd off (unat (image_size (app_info ?d)))
        = Some (CRC64WE (crc_coverage img off (unat (image_size (app_info ?d)))))"
      using whole by (intro image_crc_of_image)
    have app: "app_at img max_size off \<longleftrightarrow> isValid ?d max_size \<and>
        CRC64WE (crc_coverage img off (unat (image_size (app_info ?d)))) = image_crc (app_info ?d)"
      using whole less.prems by (simp add: app_at_def)
    have eq: "locate_loop rd max_size off =
        (if app_at img max_size off then Some (Some ?d) else locate_loop rd max_size (off + 8))"
      using whole by (subst locate_loop.simps) (simp add: read8 read32 crc app flip: descriptor_at_def)
    show ?thesis
      using whole skip less.prems by (simp add: eq first_app_at)
  qed
qed

lemma locate_image: "locateAppDescriptor rd max_size = Some (first_app img max_size)"
  unfolding locateAppDescriptor_def by (rule locate_loop_image) auto

end

section \<open>The state machine\<close>

text \<open>
  The threads that share a bootloader: each call of a member function is one step, and so is each chunk
  the downloader hands over; \<open>p\<close> is the offset of the sink while an upgrade runs.
\<close>

inductive bl_step ::
  "'s backend \<Rightarrow> 's Bootloader \<times> u32 option \<Rightarrow> 's Bootloader \<times> u32 option \<Rightarrow> bool" for be where
  step_get: "getState now bl = (st, bl') \<Longrightarrow> bl_step be (bl, p) (bl', p)"
| step_cancel: "bl_step be (bl, p) (cancelBoot bl, p)"
| step_request: "bl_step be (bl, p) (requestBoot bl, p)"
| step_refuse: "upgradeApp_prepare be now bl = Some (Some code, bl') \<Longrightarrow> bl_step be (bl, p) (bl', p)"
| step_begin: "upgradeApp_prepare be now bl = Some (None, bl') \<Longrightarrow> bl_step be (bl, p) (bl', Some 0)"
| step_chunk: "handleNextDataChunk be bl offset data n = Some (res, offset', bl') \<Longrightarrow>
    bl_step be (bl, Some offset) (bl', Some offset')"
| step_finish: "upgradeApp_finish be now bl res = Some (code, bl') \<Longrightarrow>
    bl_step be (bl, Some offset) (bl', None)"

inductive bl_reachable ::
  "'s backend \<Rightarrow> 's Bootloader \<times> u32 option \<Rightarrow> bool" for be where
  start: "Bootloader_new be now s max_size delay = Some bl \<Longrightarrow> bl_reachable be (bl, None)"
| step: "bl_reachable be c \<Longrightarrow> bl_step be c c' \<Longrightarrow> bl_reachable be c'"

text \<open>
  What holds between steps, for a backend whose storage \<open>s\<close> has the contents \<open>img s\<close>: an upgrade runs
  exactly in the state \<open>AppUpgradeInProgress\<close>; in the states from which the application may be started,
  the storage holds an application, and its descriptor is the one in the cache.
\<close>

definition bl_inv :: "('s \<Rightarrow> u8 list) \<Rightarrow> 's Bootloader \<times> u32 option \<Rightarrow> bool" where
  "bl_inv img c \<longleftrightarrow> (case c of (bl, p) \<Rightarrow>
     (p \<noteq> None \<longleftrightarrow> bl_state bl = AppUpgradeInProgress) \<and>
     (if bl_state bl \<in> {BootDelay, BootCancelled, ReadyToBoot}
      then \<exists>desc. first_app (img (bl_storage bl)) (bl_max_image_size bl) = Some desc \<and>
                  bl_cached_app_info bl = Some (app_info desc)
      else bl_cached_app_info bl = None))"

locale storage_backend =
  fixes be :: "'s backend" and img :: "'s \<Rightarrow> u8 list"
  assumes storage: "app_storage (backend_read be s) (img s)"
begin

lemma locate: "locateAppDescriptor (backend_read be s) max_size = Some (first_app (img s) max_size)"
  by (rule app_storage.locate_image [OF storage])

lemma verify_returns: "\<exists>bl'. verifyAppAndUpdateState be now bl st = Some bl'"
  by (simp add: verifyAppAndUpdateState_def locate split: option.split)

lemma verify_inv:
  assumes "verifyAppAndUpdateState be now bl st = Some bl'" and "st \<in> {BootDelay, BootCancelled}"
  shows "bl_inv img (bl', None)"
  using assms
  by (auto simp: verifyAppAndUpdateState_def locate bl_inv_def split: option.splits)

lemma new_inv: "Bootloader_new be now s max_size delay = Some bl \<Longrightarrow> bl_inv img (bl, None)"
  unfolding Bootloader_new_def by (rule verify_inv) auto

lemma prepare_inv:
  assumes "upgradeApp_prepare be now bl = Some (r, bl')" and "bl_inv img (bl, p)"
  shows "bl_inv img (bl', if r = None then Some 0 else p)"
  using assms
  by (auto simp: upgradeApp_prepare_def Let_def bl_inv_def dest!: verify_inv
      split: if_splits prod.splits bind_splits)

lemma finish_inv:
  assumes "upgradeApp_finish be now bl res = Some (code, bl')"
  shows "bl_inv img (bl', None)"
  using assms
  by (auto simp: upgradeApp_finish_def Let_def canard_assert_def dest!: verify_inv
      split: if_splits prod.splits bind_splits)

lemma step_inv: "bl_step be c c' \<Longrightarrow> bl_inv img c \<Longrightarrow> bl_inv img c'"
proof (induction rule: bl_step.induct)
  case (step_get now bl st bl' p)
  then show ?case by (auto simp: getState_def bl_inv_def Let_def split: if_splits)
next
  case (step_cancel bl p)
  then show ?case by (auto simp: cancelBoot_def bl_inv_def split: State.splits)
next
  case (step_request bl p)
  then show ?case by (auto simp: requestBoot_def bl_inv_def split: State.splits)
next
  case (step_refuse now bl code bl' p)
  then show ?case using prepare_inv [of now bl "Some code" bl' p] by simp
next
  case (step_begin now bl bl' p)
  then show ?case using prepare_inv [of now bl None bl' p] by simp
next
  case (step_chunk bl offset data n res offset' bl')
  then show ?case
    by (auto simp: handleNextDataChunk_def bl_inv_def Let_def bind_eq_Some_conv split: if_splits prod.splits)
next
  case (step_finish now bl res code bl' offset)
  then show ?case by (simp add: finish_inv)
qed

lemma reachable_inv: "bl_reachable be c \<Longrightarrow> bl_inv img c"
  by (induction rule: bl_reachable.induct) (auto intro: new_inv step_inv)

text \<open>No step gets stuck: whatever the backend and the downloader return, the calls return.\<close>

lemma prepare_returns: "\<exists>r. upgradeApp_prepare be now bl = Some r"
proof -
  have "\<exists>bl'. verifyAppAndUpdateState be now b BootCancelled = Some bl'" for b
    by (rule verify_returns)
  then show ?thesis
    by (auto simp: upgradeApp_prepare_def Let_def bind_eq_Some_conv split: prod.splits)
qed

lemma finish_returns:
  assumes "bl_inv img (bl, Some offset)"
  shows "\<exists>r. upgradeApp_finish be now bl res = Some r"
proof -
  have "\<exists>bl'. verifyAppAndUpdateState be now b st = Some bl'" for b st
    by (rule verify_returns)
  then show ?thesis
    using assms
    by (auto simp: upgradeApp_finish_def Let_def bl_inv_def canard_assert_def split: prod.splits)
qed

end

end
