(* ===== verification/App_Storage.thy ===== *)
theory App_Storage
  imports Bootloader
begin

text \<open>
  The storage of the application: \<open>app_storage_backend.hpp\<close> and the flash writer it uses
  (\<open>flash_writer.hpp\<close>, the variant for page-erased parts). Memory maps addresses to bytes; what the
  flash controller does on a page erase and on programming a half word is an argument.
\<close>

type_synonym memory = "u32 \<Rightarrow> u8"

text \<open>\<open>program\<close> is \<open>None\<close> when an error flag is raised, on which \<open>waitReady\<close> asserts.\<close>

record fpec =
  erase_page :: "u32 \<Rightarrow> memory \<Rightarrow> memory"
  program :: "u32 \<Rightarrow> u8 \<Rightarrow> u8 \<Rightarrow> memory \<Rightarrow> memory option"

section \<open>The flash writer\<close>

abbreviation bytes_at :: "memory \<Rightarrow> u32 \<Rightarrow> nat \<Rightarrow> u8 list" where
  "bytes_at mem a n \<equiv> map (\<lambda>i. mem (a + of_nat i)) [0..<n]"

lemma unat_inc: "a < b \<Longrightarrow> unat (a + 1) = Suc (unat a)" for a b :: "'a::len word"
proof -
  assume "a < b"
  then have "Suc (unat a) \<le> unat b" by (simp add: word_less_nat_alt)
  also have "\<dots> < 2 ^ LENGTH('a)" by (rule unsigned_less)
  finally show ?thesis by (simp add: unat_add_small)
qed

function erase_loop :: "fpec \<Rightarrow> u32 \<Rightarrow> u32 \<Rightarrow> memory \<Rightarrow> bool \<times> memory" where
  "erase_loop hw blank_check_pos stop mem =
     (if blank_check_pos < stop then
        if mem blank_check_pos \<noteq> 0xFF then
          (let mem = erase_page hw blank_check_pos mem
           in if mem blank_check_pos \<noteq> 0xFF then (False, mem)
              else erase_loop hw (blank_check_pos + 1) stop mem)
        else erase_loop hw (blank_check_pos + 1) stop mem
      else (True, mem))"
  by pat_completeness auto
termination
  by (relation "measure (\<lambda>(hw, pos, stop, mem). unat stop - unat pos)")
     (auto simp: unat_inc word_less_nat_alt)

declare erase_loop.simps [simp del]

definition FlashWriter_erase :: "fpec \<Rightarrow> u32 \<Rightarrow> u32 \<Rightarrow> memory \<Rightarrow> bool \<times> memory" where
  "FlashWriter_erase hw where how_much mem =
     (let (ok, mem) = erase_loop hw where (where + how_much) mem
      in if \<not> ok then (False, mem)
         else (list_all (\<lambda>x. x = 0xFF) (bytes_at mem where (unat how_much)), mem))"

text \<open>The programming loop, by half words; reading beyond the buffer has no meaning.\<close>

fun program_loop :: "fpec \<Rightarrow> u32 \<Rightarrow> u8 list \<Rightarrow> nat \<Rightarrow> memory \<Rightarrow> memory option" where
  "program_loop hw where what 0 mem = Some mem"
| "program_loop hw where what (Suc n) mem = do {
     lo \<leftarrow> nth_opt what 0;
     hi \<leftarrow> nth_opt what 1;
     mem \<leftarrow> program hw where lo hi mem;
     program_loop hw (where + 2) (drop 2 what) n mem
   }"

text \<open>The source buffer is aligned and not null.\<close>

definition FlashWriter_write :: "fpec \<Rightarrow> u32 \<Rightarrow> u8 list \<Rightarrow> u32 \<Rightarrow> memory \<Rightarrow> (bool \<times> memory) option" where
  "FlashWriter_write hw where what how_much mem =
     (if where mod 2 \<noteq> 0 \<or> where = 0 then None
      else do {
        let num_halfwords = (how_much + 1) div 2;
        mem \<leftarrow> program_loop hw where what (unat num_halfwords) mem;
        Some (take (unat how_much) what = bytes_at mem where (unat how_much), mem)
      })"

section \<open>The class AppStorageBackend\<close>

abbreviation (input) FLASH_BASE :: u32 where "FLASH_BASE \<equiv> 0x08000000"
abbreviation (input) APPLICATION_OFFSET :: u32 where "APPLICATION_OFFSET \<equiv> 32768"
abbreviation (input) ApplicationAddress :: u32 where "ApplicationAddress \<equiv> 0x08008000"

text \<open>The flash size in KiB is a half word of the system memory.\<close>

definition getFlashSize :: "u16 \<Rightarrow> u32" where
  "getFlashSize size_register = 1024 * ucast size_register"

definition correctOffsetAndSize :: "u32 \<Rightarrow> u32 \<Rightarrow> u32 \<Rightarrow> (u32 \<times> u32) option" where
  "correctOffsetAndSize flash_size offset n =
     (let flash_end = FLASH_BASE + flash_size;
          offset = offset + ApplicationAddress
      in if offset \<ge> flash_end then None
         else Some (offset, if offset + n \<ge> flash_end then flash_end - offset else n))"

abbreviation (input) ErrEraseFailed :: int where "ErrEraseFailed \<equiv> 9001"
abbreviation (input) ErrWriteFailed :: int where "ErrWriteFailed \<equiv> 9002"

definition AppStorageBackend_write ::
  "u32 \<Rightarrow> fpec \<Rightarrow> memory \<Rightarrow> u32 \<Rightarrow> u8 list \<Rightarrow> u32 \<Rightarrow> (int \<times> memory) option" where
  "AppStorageBackend_write flash_size hw mem offset data n =
     (case correctOffsetAndSize flash_size offset n of
        None \<Rightarrow> Some (0, mem)
      | Some (offset, n) \<Rightarrow>
          (let (ok, mem) = FlashWriter_erase hw offset n mem
           in if \<not> ok then Some (- ErrEraseFailed, mem)
              else do {
                (ok, mem) \<leftarrow> FlashWriter_write hw offset data n mem;
                Some (if ok then sint n else - ErrWriteFailed, mem)
              }))"

definition AppStorageBackend_read :: "u32 \<Rightarrow> memory \<Rightarrow> nat \<Rightarrow> nat \<Rightarrow> u8 list option" where
  "AppStorageBackend_read flash_size mem offset n =
     (case correctOffsetAndSize flash_size (of_nat offset) (of_nat n) of
        None \<Rightarrow> Some []
      | Some (offset, n) \<Rightarrow> Some (bytes_at mem offset (unat n)))"

definition AppStorageBackend :: "u32 \<Rightarrow> fpec \<Rightarrow> memory backend" where
  "AppStorageBackend flash_size hw =
     \<lparr>beginUpgrade = (\<lambda>mem. (0, mem)), backend_write = AppStorageBackend_write flash_size hw,
      endUpgrade = (\<lambda>mem success. (0, mem)), backend_read = AppStorageBackend_read flash_size\<rparr>"

text \<open>The part of the flash that holds the application.\<close>

definition app_region :: "u32 \<Rightarrow> memory \<Rightarrow> u8 list" where
  "app_region flash_size mem = bytes_at mem ApplicationAddress (unat flash_size - 32768)"

lemma AppStorageBackend_read_region:
  assumes "off \<le> length (app_region (getFlashSize reg) mem)" and "n \<le> 1024"
  shows "AppStorageBackend_read (getFlashSize reg) mem off n
    = Some (take n (drop off (app_region (getFlashSize reg) mem)))"
proof -
  define F where "F = unat (getFlashSize reg)"
  have F: "F = 1024 * unat reg" "F < 1024 * 65536"
    using unsigned_less [where ?'a = nat, of reg]
    by (simp_all add: F_def getFlashSize_def unat_word_ariths unat_ucast_small)
  have off: "off \<le> F - 32768" using assms(1) by (simp add: app_region_def F_def)
  have ends: "unat (FLASH_BASE + getFlashSize reg) = 0x08000000 + F"
    using F by (simp add: F_def [symmetric] unat_word_ariths)
  have start: "unat (of_nat off + ApplicationAddress) = off + 0x08008000"
    using F off by (simp add: unat_word_ariths unat_of_nat)
  have sum: "unat (of_nat off + ApplicationAddress + of_nat n) = off + n + 0x08008000"
    using F off assms(2) by (simp add: unat_word_ariths unat_of_nat)
  have diff: "unat (FLASH_BASE + getFlashSize reg - (of_nat off + ApplicationAddress)) = F - 32768 - off"
    if "off + 0x08008000 < 0x08000000 + F"
    using that by (subst unat_sub) (simp_all add: word_le_nat_alt ends start)
  show ?thesis
  proof (cases "off + 32768 < F")
    case True
    then have "correctOffsetAndSize (getFlashSize reg) (of_nat off) (of_nat n)
      = Some (of_nat off + ApplicationAddress, if off + n + 32768 \<ge> F
          then FLASH_BASE + getFlashSize reg - (of_nat off + ApplicationAddress) else of_nat n)"
      by (simp add: correctOffsetAndSize_def Let_def word_le_nat_alt ends start sum)
    moreover have "unat (if off + n + 32768 \<ge> F
        then FLASH_BASE + getFlashSize reg - (of_nat off + ApplicationAddress) else of_nat n)
      = min n (F - 32768 - off)"
      using True diff assms(2) by (simp add: unat_of_nat)
    ultimately show ?thesis
      by (auto simp: AppStorageBackend_read_def app_region_def F_def [symmetric] algebra_simps
          intro!: nth_equalityI)
  next
    case False
    then have "correctOffsetAndSize (getFlashSize reg) (of_nat off) (of_nat n) = None"
      by (simp add: correctOffsetAndSize_def Let_def word_le_nat_alt ends start)
    with False show ?thesis
      by (simp add: AppStorageBackend_read_def app_region_def F_def [symmetric])
  qed
qed

interpretation flash: storage_backend "AppStorageBackend (getFlashSize reg) hw"
    "app_region (getFlashSize reg)" for reg hw
  by unfold_locales (simp add: AppStorageBackend_def AppStorageBackend_read_region)

section \<open>Properties\<close>

text \<open>
  C11. Looking for an application ends, on every content of the flash: the result is the first descriptor,
  at an offset that is a multiple of eight, that carries the signature and an acceptable size and whose
  CRC-64 is that of the image with the CRC field taken as zero; if there is none, nothing is found.
\<close>

theorem locate_finds_first_app:
  "locateAppDescriptor (backend_read (AppStorageBackend (getFlashSize reg) hw) mem) max_size
    = Some (first_app (app_region (getFlashSize reg) mem) max_size)"
  by (rule flash.locate)

text \<open>
  C9. Whatever the threads do, in any order and with any results of downloads and of the flash, the
  bootloader is ready to boot only when no upgrade runs and the flash holds a valid application, and
  then the information it reports is that of the first valid descriptor.
\<close>

theorem ready_means_valid_app:
  assumes "bl_reachable (AppStorageBackend (getFlashSize reg) hw) (bl, p)"
    and "bl_state bl = ReadyToBoot"
  shows "p = None \<and> (\<exists>off. app_at (app_region (getFlashSize reg) (bl_storage bl)) (bl_max_image_size bl) off) \<and>
    map_option app_info (first_app (app_region (getFlashSize reg) (bl_storage bl)) (bl_max_image_size bl))
      = Some (fst (getAppInfo bl)) \<and> snd (getAppInfo bl)"
proof -
  from flash.reachable_inv [OF assms(1)] assms(2) obtain desc where
    "first_app (app_region (getFlashSize reg) (bl_storage bl)) (bl_max_image_size bl) = Some desc"
    "bl_cached_app_info bl = Some (app_info desc)" "p = None"
    by (auto simp: bl_inv_def)
  then show ?thesis by (auto simp: getAppInfo_def first_app_def split: if_splits)
qed

text \<open>
  C10. In every reachable configuration with an upgrade under way, ending it succeeds: the assertion on
  the state holds, and afterwards the machine has left \<open>AppUpgradeInProgress\<close>, with a verified
  application that will be started after the boot delay when the download succeeded and its image is
  valid, in \<open>BootCancelled\<close> when it failed but a valid image is there, and without an application otherwise.
\<close>

theorem upgrade_finishes:
  assumes "bl_reachable (AppStorageBackend (getFlashSize reg) hw) (bl, Some offset)"
  shows "\<exists>bl'. upgradeApp_finish (AppStorageBackend (getFlashSize reg) hw) now bl res
      = Some (min res 0, bl') \<and>
    bl_state bl' = (if first_app (app_region (getFlashSize reg) (bl_storage bl)) (bl_max_image_size bl) = None
      then NoAppToBoot else if res < 0 then BootCancelled else BootDelay)"
proof -
  have "bl_state bl = AppUpgradeInProgress"
    using flash.reachable_inv [OF assms] by (auto simp: bl_inv_def)
  then show ?thesis
    using flash.locate [of _ hw]
    by (auto simp: upgradeApp_finish_def AppStorageBackend_def verifyAppAndUpdateState_def
        split: option.split)
qed

section \<open>An example\<close>

text \<open>A flash of 33 KiB with an application that consists of its descriptor only.\<close>

definition sample_image :: "u8 list" where
  "sample_image = [65, 80, 68, 101, 115, 99, 48, 48, 74, 206, 142, 201, 61, 59, 12, 161, 32, 0, 0, 0, 0, 0, 0, 0, 1, 0, 0, 0, 0, 0, 0, 0]"

definition sample_flash :: memory where
  "sample_flash a = (if a - 0x08008000 < 32 then sample_image ! unat (a - 0x08008000) else 0xFF)"

lemma sample_region: "take 32 (app_region (getFlashSize 33) sample_flash) = sample_image"
proof -
  have "take 32 (app_region (getFlashSize 33) sample_flash)
      = map (\<lambda>i. sample_flash (0x08008000 + of_nat i)) [0..<32]"
    by (simp add: app_region_def getFlashSize_def take_map)
  also have "\<dots> = map (\<lambda>i. sample_image ! i) [0..<32]"
    by (intro map_cong refl) (simp add: sample_flash_def word_less_nat_alt unat_of_nat)
  also have "\<dots> = sample_image" by (simp add: sample_image_def upt_rec)
  finally show ?thesis .
qed

lemma sample_crc: "CRC64WE (take 8 sample_image @ replicate 8 0 @ drop 16 sample_image) = 0xa10c3b3dc98ece4a"
proof -
  have "take 8 sample_image @ replicate 8 0 @ drop 16 sample_image
      = [65, 80, 68, 101, 115, 99, 48, 48] @ [0, 0, 0, 0, 0, 0, 0, 0] @ [32, 0, 0, 0, 0, 0, 0, 0] @
        [1, 0, 0, 0, 0, 0, 0, 0]"
    by (simp add: sample_image_def numeral_eq_Suc)
  moreover have "CRC64WE_add 0xffffffffffffffff [65, 80, 68, 101, 115, 99, 48, 48] = 0x42cb477283cb787b"
    by (simp add: crc64_byte_def crc64_step_def)
  moreover have "CRC64WE_add 0x42cb477283cb787b [0, 0, 0, 0, 0, 0, 0, 0] = 0xf2678fc0c233af8c"
    by (simp add: crc64_byte_def crc64_step_def)
  moreover have "CRC64WE_add 0xf2678fc0c233af8c [32, 0, 0, 0, 0, 0, 0, 0] = 0x7c24244356b7252c"
    by (simp add: crc64_byte_def crc64_step_def)
  moreover have "CRC64WE_add 0x7c24244356b7252c [1, 0, 0, 0, 0, 0, 0, 0] = 0x5ef3c4c2367131b5"
    by (simp add: crc64_byte_def crc64_step_def)
  ultimately show ?thesis
    by (simp only: CRC64WE_def CRC64WE_add_append CRC64WE_init_def) (simp add: CRC64WE_get_def)
qed

lemma sample_descriptor:
  "descriptor_at (app_region (getFlashSize 33) sample_flash) 0
    = \<lparr>signature = getSignatureValue,
       app_info = \<lparr>image_crc = 0xa10c3b3dc98ece4a, image_size = 32, vcs_commit = 0, major_version = 1,
                   minor_version = 0\<rparr>\<rparr>"
  by (simp add: descriptor_at_def sample_region read_descriptor_def sample_image_def getSignatureValue_def
      le_value_def)

lemma sample_app: "app_at (app_region (getFlashSize 33) sample_flash) 33792 0"
proof -
  let ?R = "app_region (getFlashSize 33) sample_flash"
  have len: "length ?R = 1024" by (simp add: app_region_def getFlashSize_def)
  have "crc_coverage ?R 0 32 = take 8 (take 32 ?R) @ replicate 8 0 @ drop 16 (take 32 ?R)"
    by (simp add: crc_coverage_def min_def drop_take)
  then have "CRC64WE (crc_coverage ?R 0 32) = 0xa10c3b3dc98ece4a"
    by (simp only: sample_region sample_crc)
  then show ?thesis
    by (simp add: app_at_def len sample_descriptor isValid_def)
qed

lemma sample_first: "first_app (app_region (getFlashSize 33) sample_flash) 33792
    = Some (descriptor_at (app_region (getFlashSize 33) sample_flash) 0)"
  by (rule first_app_at [OF sample_app]) simp

definition sample_backend :: "memory backend" where
  "sample_backend = AppStorageBackend (getFlashSize 33)
     \<lparr>erase_page = (\<lambda>p mem a. if a div 1024 = p div 1024 then 0xFF else mem a),
      program = (\<lambda>a lo hi mem. if mem a = 0xFF \<and> mem (a + 1) = 0xFF
                                then Some (mem(a := lo, a + 1 := hi)) else None)\<rparr>"

definition sample_boot :: "State \<Rightarrow> AppInfo option \<Rightarrow> memory Bootloader" where
  "sample_boot st info = \<lparr>bl_state = st, bl_storage = sample_flash, bl_max_image_size = 33792,
     bl_boot_delay_msec = 5000, bl_boot_delay_started_at = 0, bl_cached_app_info = info\<rparr>"

abbreviation sample_info :: AppInfo where
  "sample_info \<equiv> app_info (descriptor_at (app_region (getFlashSize 33) sample_flash) 0)"

lemma sample_start:
  "bl_reachable sample_backend (sample_boot BootDelay (Some sample_info), None)"
proof (rule bl_reachable.start)
  show "Bootloader_new sample_backend 0 sample_flash 33792 5000 = Some (sample_boot BootDelay (Some sample_info))"
    by (simp add: Bootloader_new_def verifyAppAndUpdateState_def sample_backend_def flash.locate
        sample_first sample_boot_def)
qed

lemma sample_ready:
  "bl_reachable sample_backend (sample_boot ReadyToBoot (Some sample_info), None)"
  by (rule bl_reachable.step [OF sample_start], rule step_get [of 50000])
     (simp add: getState_def sample_boot_def chVTTimeElapsedSinceX_def MS2ST_def)

lemma sample_upgrading:
  "bl_reachable sample_backend (sample_boot AppUpgradeInProgress None, Some 0)"
  by (rule bl_reachable.step [OF sample_start], rule step_begin [of _ 0])
     (simp add: upgradeApp_prepare_def sample_boot_def sample_backend_def AppStorageBackend_def)

theorem ready_means_valid_app_witness:
  "\<exists>off. app_at (app_region (getFlashSize 33) (bl_storage (sample_boot ReadyToBoot (Some sample_info)))) 33792 off"
  using ready_means_valid_app [OF sample_ready [unfolded sample_backend_def]]
  by (simp add: sample_boot_def)

theorem upgrade_finishes_witness:
  "\<exists>bl'. upgradeApp_finish sample_backend 7 (sample_boot AppUpgradeInProgress None) (- 5) = Some (- 5, bl') \<and>
     bl_state bl' = BootCancelled"
  using upgrade_finishes [OF sample_upgrading [unfolded sample_backend_def], of 7 "- 5"]
  by (simp add: sample_boot_def sample_backend_def sample_first)

definition write_twice :: "memory \<Rightarrow> (int \<times> int \<times> u8 list) option" where
  "write_twice mem = do {
     (r1, mem) \<leftarrow> backend_write sample_backend mem 0 [1, 2] 2;
     (r2, mem) \<leftarrow> backend_write sample_backend mem 2 [3, 4] 2;
     Some (r1, r2, bytes_at mem ApplicationAddress 4)
   }"

lemma upt_small: "[0..<2] = [0, 1]" "[0..<4] = [0, 1, 2, 3]"
  by (simp_all add: upt_rec)


end
