(* ===== verification/Timekeeper.thy ===== *)
theory Timekeeper
  imports Canard_Prelude
begin

text \<open>
  The time base of the UAVCAN loader (\<open>MonotonicTimekeeper\<close> in \<open>l_uavcan.hpp\<close>) over the system time of
  ChibiOS: 16 bits, 10 kHz. Arithmetic is that of the 32-bit target, where \<open>unsigned long\<close> has 32 bits.
\<close>

section \<open>Converting ticks\<close>

definition ST2US :: "u16 \<Rightarrow> u32" where
  "ST2US n = (ucast n * 1000000 + 10000 - 1) div 10000"

text \<open>The conversion is exact as long as the product fits into 32 bits.\<close>

lemma ST2US_exact:
  assumes "unat n \<le> 4294"
  shows "unat (ST2US n) = 100 * unat n"
proof -
  have u: "unat (ucast n :: u32) = unat n"
    using assms by (simp add: unat_ucast_small)
  have "unat (ucast n * 1000000 + 9999 :: u32) = unat n * 1000000 + 9999"
    using assms by (simp add: unat_word_ariths u)
  moreover have "unat (10000 :: u32) = 10000" by simp
  ultimately have "unat (ST2US n) = (unat n * 1000000 + 9999) div 10000"
    unfolding ST2US_def by (simp only: unat_div add_diff_eq [symmetric]) simp
  then show ?thesis by simp
qed

section \<open>The class\<close>

record MonotonicTimekeeper =
  prev_sample_at_st :: u16
  base_usec :: u64
  started_at_usec :: u64

definition getMicroseconds :: "u16 \<Rightarrow> MonotonicTimekeeper \<Rightarrow> u64 \<times> MonotonicTimekeeper" where
  "getMicroseconds now tk =
     (let increment_usec = ucast (ST2US (now - prev_sample_at_st tk));
          tk = tk\<lparr>prev_sample_at_st := now, base_usec := base_usec tk + increment_usec\<rparr>
      in (base_usec tk, tk))"

definition MonotonicTimekeeper_new :: "u16 \<Rightarrow> MonotonicTimekeeper" where
  "MonotonicTimekeeper_new now =
     (let tk = \<lparr>prev_sample_at_st = 0, base_usec = 0, started_at_usec = 0\<rparr>;
          (t, tk) = getMicroseconds now tk
      in tk\<lparr>started_at_usec := t\<rparr>)"

definition getUptimeMicroseconds :: "u16 \<Rightarrow> MonotonicTimekeeper \<Rightarrow> u64 \<times> MonotonicTimekeeper" where
  "getUptimeMicroseconds now tk =
     (let (t, tk) = getMicroseconds now tk in (t - started_at_usec tk, tk))"

section \<open>How time passes\<close>

text \<open>The timekeeper after queries at the given numbers of ticks since the system was started.\<close>

fun queried :: "nat list \<Rightarrow> MonotonicTimekeeper \<Rightarrow> MonotonicTimekeeper" where
  "queried [] tk = tk"
| "queried (n # ns) tk = queried ns (snd (getMicroseconds (of_nat n) tk))"

fun gaps_at_most :: "nat \<Rightarrow> nat \<Rightarrow> nat list \<Rightarrow> bool" where
  "gaps_at_most g t [] \<longleftrightarrow> True"
| "gaps_at_most g t (n # ns) \<longleftrightarrow> t \<le> n \<and> n - t \<le> g \<and> gaps_at_most g n ns"

lemma query_exact:
  assumes "prev_sample_at_st tk = of_nat t" and "base_usec tk = of_nat (100 * t)"
    and "t \<le> n" and "n - t \<le> 4294"
  shows "prev_sample_at_st (snd (getMicroseconds (of_nat n) tk)) = of_nat n"
    and "base_usec (snd (getMicroseconds (of_nat n) tk)) = of_nat (100 * n)"
proof -
  have d: "of_nat n - of_nat t = (of_nat (n - t) :: u16)" using assms(3) by (simp add: of_nat_diff)
  have "unat (of_nat (n - t) :: u16) = n - t"
    using assms(4) by (simp add: unat_of_nat)
  then have st: "unat (ST2US (of_nat (n - t))) = 100 * (n - t)"
    using ST2US_exact [of "of_nat (n - t)"] assms(4) by simp
  have "(ucast (ST2US (of_nat (n - t))) :: u64) = of_nat (unat (ST2US (of_nat (n - t))))"
    by simp
  then have "(ucast (ST2US (of_nat (n - t))) :: u64) = of_nat (100 * (n - t))"
    unfolding st .
  moreover have sum: "of_nat (100 * t) + of_nat (100 * (n - t)) = (of_nat (100 * n) :: u64)"
    unfolding of_nat_add [symmetric] using assms(3) by (simp add: distrib_left [symmetric] del: of_nat_mult)
  ultimately show "base_usec (snd (getMicroseconds (of_nat n) tk)) = of_nat (100 * n)"
    using assms(1,2) sum by (simp add: getMicroseconds_def Let_def d del: of_nat_mult)
  show "prev_sample_at_st (snd (getMicroseconds (of_nat n) tk)) = of_nat n"
    by (simp add: getMicroseconds_def Let_def)
qed

lemma queried_exact:
  "prev_sample_at_st tk = of_nat t \<Longrightarrow> base_usec tk = of_nat (100 * t) \<Longrightarrow> gaps_at_most 4294 t ns \<Longrightarrow>
     base_usec (queried ns tk) = of_nat (100 * last (t # ns))"
  by (induction ns arbitrary: t tk) (auto simp: query_exact)

text \<open>
  The loader's clock is exact as long as it is read at least every 4294 ticks (0.4294 seconds): after
  any such sequence of queries the base time is the elapsed time in microseconds.
\<close>

theorem timekeeper_exact_with_small_gaps:
  assumes "gaps_at_most 4294 0 ns"
  shows "base_usec (queried ns \<lparr>prev_sample_at_st = 0, base_usec = 0, started_at_usec = s\<rparr>)
    = of_nat (100 * last (0 # ns))"
  by (rule queried_exact) (use assms in simp_all)

theorem timekeeper_exact_with_small_gaps_witness:
  "base_usec (queried [4294, 8000, 70000 - 60000] \<lparr>prev_sample_at_st = 0, base_usec = 0, started_at_usec = 0\<rparr>)
    = 1000000"
  using timekeeper_exact_with_small_gaps [of "[4294, 8000, 70000 - 60000]" 0] by simp


end
