(* ===== verification/Loader.thy ===== *)
theory Loader
  imports Canard_Reception App_Storage Timekeeper
begin

text \<open>
  The UAVCAN node of the bootloader (\<open>UAVCANFirmwareUpdateNode\<close> in \<open>l_uavcan.hpp\<close>): the callbacks it
  gives to libcanard, the messages it sends, and its periodic work. The object that \<open>user_reference\<close>
  points to is the state threaded through the callbacks. The system time, the random numbers and the
  reboot request are members here: \<open>systime\<close> gives the successive values of the system timer. The
  machine is little-endian. What other threads do to the bootloader during a callback is not modelled.
\<close>

section \<open>Data types of the protocol\<close>

record data_type_info =
  DataTypeID :: u32
  DataTypeSignature :: u64

definition NodeStatus :: data_type_info where
  "NodeStatus = \<lparr>DataTypeID = 341, DataTypeSignature = 0x0f0868d0c1a7c6f1\<rparr>"
definition NodeIDAllocation :: data_type_info where
  "NodeIDAllocation = \<lparr>DataTypeID = 1, DataTypeSignature = 0x0b2a812620a11d40\<rparr>"
definition LogMessage :: data_type_info where
  "LogMessage = \<lparr>DataTypeID = 16383, DataTypeSignature = 0xd654a48e0c049d75\<rparr>"
definition GetNodeInfo :: data_type_info where
  "GetNodeInfo = \<lparr>DataTypeID = 1, DataTypeSignature = 0xee468a8121c46a9e\<rparr>"
definition BeginFirmwareUpdate :: data_type_info where
  "BeginFirmwareUpdate = \<lparr>DataTypeID = 40, DataTypeSignature = 0xb7d725df72724126\<rparr>"
definition FileRead :: data_type_info where
  "FileRead = \<lparr>DataTypeID = 48, DataTypeSignature = 0x8dcdca939f33f678\<rparr>"
definition RestartNode :: data_type_info where
  "RestartNode = \<lparr>DataTypeID = 5, DataTypeSignature = 0x569e05394a3017f0\<rparr>"

lemmas data_types = NodeStatus_def NodeIDAllocation_def LogMessage_def GetNodeInfo_def
  BeginFirmwareUpdate_def FileRead_def RestartNode_def

section \<open>The node\<close>

record HardwareInfo =
  hw_major :: u8
  hw_minor :: u8
  unique_id :: "u8 list"
  certificate_of_authenticity :: "u8 list"
  certificate_of_authenticity_length :: u8

record 's node =
  bootloader_ref :: "'s Bootloader"
  node_name :: "u8 list"
  hw_info :: HardwareInfo
  systime :: "nat \<Rightarrow> u16"
  systime_reads :: nat
  rand_values :: "nat \<Rightarrow> u32"
  random_calls :: nat
  reboot_requested :: bool
  timekeeper :: MonotonicTimekeeper
  next_1hz_task_invocation :: u64
  init_done :: bool
  remote_server_node_id :: u8
  firmware_file_path :: "u8 list"
  send_next_node_id_allocation_request_at :: u64
  node_id_allocation_unique_id_offset :: u8
  vendor_specific_status :: u16
  node_status_transfer_id :: u8
  file_read_transfer_id :: u8
  read_buffer :: "u8 list"
  read_result :: int

definition now :: "'s node \<Rightarrow> u16 \<times> 's node" where
  "now nd = (systime nd (systime_reads nd), nd\<lparr>systime_reads := Suc (systime_reads nd)\<rparr>)"

definition getMonotonicTimestampUSec :: "'s node \<Rightarrow> u64 \<times> 's node" where
  "getMonotonicTimestampUSec nd =
     (let (ts, nd) = now nd; (t, tk) = getMicroseconds ts (timekeeper nd) in (t, nd\<lparr>timekeeper := tk\<rparr>))"

definition getUptime :: "'s node \<Rightarrow> u64 \<times> 's node" where
  "getUptime nd =
     (let (ts, nd) = now nd; (t, tk) = getUptimeMicroseconds ts (timekeeper nd) in (t, nd\<lparr>timekeeper := tk\<rparr>))"

definition getRandomDurationMicrosecond :: "u64 \<Rightarrow> u64 \<Rightarrow> 's node \<Rightarrow> u64 \<times> 's node" where
  "getRandomDurationMicrosecond lower_bound_usec upper_bound_usec nd =
     (let rnd = ucast (rand_values nd (random_calls nd)) * 128
      in (lower_bound_usec + rnd mod (upper_bound_usec - lower_bound_usec),
          nd\<lparr>random_calls := Suc (random_calls nd)\<rparr>))"

definition bootloader_getState :: "'s node \<Rightarrow> State \<times> 's node" where
  "bootloader_getState nd =
     (let (ts, nd) = now nd; (st, bl) = getState ts (bootloader_ref nd) in (st, nd\<lparr>bootloader_ref := bl\<rparr>))"

section \<open>Messages\<close>

text \<open>Health (Ok 0, Warning 1, Error 2) and mode (Maintenance 2, SoftwareUpdate 3) of a state.\<close>

definition node_health_mode :: "State \<Rightarrow> u8 \<times> u8" where
  "node_health_mode st =
     (case st of
        NoAppToBoot \<Rightarrow> (2, 3)
      | AppUpgradeInProgress \<Rightarrow> (0, 3)
      | BootCancelled \<Rightarrow> (1, 2)
      | BootDelay \<Rightarrow> (0, 2)
      | ReadyToBoot \<Rightarrow> (0, 2))"

definition makeNodeStatusMessage :: "u8 list \<Rightarrow> 's node \<Rightarrow> (u8 list \<times> 's node) option" where
  "makeNodeStatusMessage buffer nd = do {
     let buffer = replicate 7 0 @ drop 7 buffer;
     let (uptime, nd) = getUptime nd;
     let uptime_sec = (ucast ((uptime + 500000) div 1000000) :: u32);
     let (st, nd) = bootloader_getState nd;
     let (node_health, node_mode) = node_health_mode st;
     buffer \<leftarrow> canardEncodeScalar False (Some buffer) 0 32 (Some (ScalarU32 uptime_sec));
     buffer \<leftarrow> canardEncodeScalar False (Some buffer) 32 2 (Some (ScalarU8 node_health));
     buffer \<leftarrow> canardEncodeScalar False (Some buffer) 34 3 (Some (ScalarU8 node_mode));
     buffer \<leftarrow> canardEncodeScalar False (Some buffer) 40 16 (Some (ScalarU16 (vendor_specific_status nd)));
     Some (buffer, nd)
   }"

definition sendNodeStatus :: "'s node \<Rightarrow> CanardInstance \<Rightarrow> ('s node \<times> CanardInstance) option" where
  "sendNodeStatus nd canard = do {
     (buffer, nd) \<leftarrow> makeNodeStatusMessage (replicate 7 0) nd;
     (res, tid, canard) \<leftarrow> canardBroadcast canard (DataTypeSignature NodeStatus) (ucast (DataTypeID NodeStatus))
       (Some (node_status_transfer_id nd)) 24 (Some buffer) 7;
     Some (nd\<lparr>node_status_transfer_id := case_option (node_status_transfer_id nd) id tid\<rparr>, canard)
   }"


definition handle1HzTasks :: "'s node \<Rightarrow> CanardInstance \<Rightarrow> ('s node \<times> CanardInstance) option" where
  "handle1HzTasks nd canard = do {
     let (t, nd) = getMonotonicTimestampUSec nd;
     canard \<leftarrow> canardCleanupStaleTransfers canard t;
     if init_done nd \<and> canardGetLocalNodeID canard > 0 then sendNodeStatus nd canard
     else Some (nd, canard)
   }"

section \<open>The callbacks\<close>

definition shouldAcceptTransfer ::
  "CanardInstance \<Rightarrow> u16 \<Rightarrow> CanardTransferType \<Rightarrow> u8 \<Rightarrow> bool \<times> u64" where
  "shouldAcceptTransfer canard data_type_id transfer_type source_node_id =
     (if canardGetLocalNodeID canard = CANARD_BROADCAST_NODE_ID then
        (if transfer_type = CanardTransferTypeBroadcast \<and> ucast data_type_id = DataTypeID NodeIDAllocation
         then (True, DataTypeSignature NodeIDAllocation) else (False, 0))
      else if transfer_type = CanardTransferTypeRequest \<and> ucast data_type_id = DataTypeID GetNodeInfo
        then (True, DataTypeSignature GetNodeInfo)
      else if transfer_type = CanardTransferTypeRequest \<and> ucast data_type_id = DataTypeID BeginFirmwareUpdate
        then (True, DataTypeSignature BeginFirmwareUpdate)
      else if transfer_type = CanardTransferTypeResponse \<and> ucast data_type_id = DataTypeID FileRead
        then (True, DataTypeSignature FileRead)
      else if transfer_type = CanardTransferTypeRequest \<and> ucast data_type_id = DataTypeID RestartNode
        then (True, DataTypeSignature RestartNode)
      else (False, 0))"

text \<open>Decoding into a variable that keeps its value when there is nothing to read.\<close>

definition decode_u8 :: "CanardInstance \<Rightarrow> CanardRxTransfer \<Rightarrow> u32 \<Rightarrow> u8 \<Rightarrow> u8 \<Rightarrow> u8 option" where
  "decode_u8 canard transfer bit_offset bit_length x = do {
     (res, v) \<leftarrow> canardDecodeScalar False (allocator canard) (Some transfer) bit_offset bit_length False True;
     Some (case v of Some (ScalarU8 y) \<Rightarrow> y | _ \<Rightarrow> x)
   }"

definition decode_u16 :: "CanardInstance \<Rightarrow> CanardRxTransfer \<Rightarrow> u32 \<Rightarrow> u8 \<Rightarrow> u16 \<Rightarrow> u16 option" where
  "decode_u16 canard transfer bit_offset bit_length x = do {
     (res, v) \<leftarrow> canardDecodeScalar False (allocator canard) (Some transfer) bit_offset bit_length False True;
     Some (case v of Some (ScalarU16 y) \<Rightarrow> y | _ \<Rightarrow> x)
   }"

definition decode_u64 :: "CanardInstance \<Rightarrow> CanardRxTransfer \<Rightarrow> u32 \<Rightarrow> u8 \<Rightarrow> u64 \<Rightarrow> u64 option" where
  "decode_u64 canard transfer bit_offset bit_length x = do {
     (res, v) \<leftarrow> canardDecodeScalar False (allocator canard) (Some transfer) bit_offset bit_length False True;
     Some (case v of Some (ScalarU64 y) \<Rightarrow> y | _ \<Rightarrow> x)
   }"

text \<open>Decoding consecutive bytes from byte \<open>first\<close> of the payload on.\<close>

primrec decode_bytes :: "CanardInstance \<Rightarrow> CanardRxTransfer \<Rightarrow> nat \<Rightarrow> u8 list \<Rightarrow> u8 list option" where
  "decode_bytes canard transfer first [] = Some []"
| "decode_bytes canard transfer first (x # xs) = do {
     y \<leftarrow> decode_u8 canard transfer (of_nat (8 * first)) 8 x;
     ys \<leftarrow> decode_bytes canard transfer (Suc first) xs;
     Some (y # ys)
   }"

text \<open>\<open>canardRequestOrRespond\<close> with \<open>CanardResponse\<close> and the identifier of the transfer answered.\<close>

definition respond ::
  "CanardInstance \<Rightarrow> CanardRxTransfer \<Rightarrow> data_type_info \<Rightarrow> u8 list \<Rightarrow> (CanardInstance \<times> CanardRxTransfer) option" where
  "respond canard transfer dt buffer = do {
     (res, tid, canard) \<leftarrow> canardRequestOrRespond canard (xfer_source_node_id transfer) (DataTypeSignature dt)
       (ucast (DataTypeID dt)) (Some (xfer_transfer_id transfer)) (xfer_priority transfer) CanardResponse
       (Some buffer) (of_nat (length buffer));
     Some (canard, transfer\<lparr>xfer_transfer_id := case_option (xfer_transfer_id transfer) id tid\<rparr>)
   }"

text \<open>The branch of the dynamic allocation of the node identifier.\<close>

definition on_allocation ::
  "'s node \<Rightarrow> CanardInstance \<Rightarrow> CanardRxTransfer \<Rightarrow> ('s node \<times> CanardInstance) option" where
  "on_allocation nd canard transfer = do {
     let (t, nd) = getMonotonicTimestampUSec nd;
     let (d, nd) = getRandomDurationMicrosecond 600000 1000000 nd;
     let nd = nd\<lparr>send_next_node_id_allocation_request_at := t + d\<rparr>;
     if xfer_source_node_id transfer = CANARD_BROADCAST_NODE_ID
     then Some (nd\<lparr>node_id_allocation_unique_id_offset := 0\<rparr>, canard)
     else do {
       let received_unique_id_len = unat (ucast (xfer_payload_len transfer) - 1 :: u32);
       canard_assert (received_unique_id_len \<le> 16);
       received_unique_id \<leftarrow> decode_bytes canard transfer 1 (replicate received_unique_id_len 0);
       if received_unique_id \<noteq> take received_unique_id_len (unique_id (hw_info nd))
       then Some (nd\<lparr>node_id_allocation_unique_id_offset := 0\<rparr>, canard)
       else if received_unique_id_len < 16 then do {
         let nd = nd\<lparr>node_id_allocation_unique_id_offset := of_nat received_unique_id_len\<rparr>;
         let (t, nd) = getMonotonicTimestampUSec nd;
         let (d, nd) = getRandomDurationMicrosecond 0 400000 nd;
         Some (nd\<lparr>send_next_node_id_allocation_request_at := t + d\<rparr>, canard)
       } else do {
         allocated_node_id \<leftarrow> decode_u8 canard transfer 0 7 0;
         canard_assert (allocated_node_id \<le> 127);
         canard \<leftarrow> canardSetLocalNodeID canard allocated_node_id;
         Some (nd, canard)
       }
     }
   }"

text \<open>\<open>memcpy(&buffer[i], xs.data(), n)\<close>, which must stay inside of both arrays.\<close>

definition put_bytes :: "u8 list \<Rightarrow> nat \<Rightarrow> u8 list \<Rightarrow> nat \<Rightarrow> u8 list option" where
  "put_bytes buffer i xs n =
     (if n \<le> length xs \<and> i + n \<le> length buffer
      then Some (take i buffer @ take n xs @ drop (i + n) buffer) else None)"

definition on_get_node_info ::
  "'s node \<Rightarrow> CanardInstance \<Rightarrow> CanardRxTransfer \<Rightarrow> ('s node \<times> CanardInstance \<times> CanardRxTransfer) option" where
  "on_get_node_info nd canard transfer = do {
     (buffer, nd) \<leftarrow> makeNodeStatusMessage (replicate 377 0) nd;
     let (sw, success) = getAppInfo (bootloader_ref nd);
     buffer \<leftarrow> (if success then do {
         buffer \<leftarrow> put_bytes buffer 7 [major_version sw, minor_version sw, 3] 3;
         buffer \<leftarrow> canardEncodeScalar False (Some buffer) 80 32 (Some (ScalarU32 (vcs_commit sw)));
         canardEncodeScalar False (Some buffer) 112 64 (Some (ScalarU64 (image_crc sw)))
       } else Some buffer);
     let hw = hw_info nd;
     let coa_length = unat (certificate_of_authenticity_length hw);
     buffer \<leftarrow> put_bytes buffer 22 [hw_major hw, hw_minor hw] 2;
     buffer \<leftarrow> put_bytes buffer 24 (unique_id hw) 16;
     buffer \<leftarrow> put_bytes buffer 40 [certificate_of_authenticity_length hw] 1;
     buffer \<leftarrow> put_bytes buffer 41 (certificate_of_authenticity hw) coa_length;
     buffer \<leftarrow> put_bytes buffer (41 + coa_length) (node_name nd) (length (node_name nd));
     let total_size = 41 + coa_length + length (node_name nd);
     canard_assert (total_size \<le> 377);
     (canard, transfer) \<leftarrow> respond canard transfer GetNodeInfo (take total_size buffer);
     Some (nd, canard, transfer)
   }"

definition on_restart_node ::
  "'s node \<Rightarrow> CanardInstance \<Rightarrow> CanardRxTransfer \<Rightarrow> ('s node \<times> CanardInstance \<times> CanardRxTransfer) option" where
  "on_restart_node nd canard transfer = do {
     magic_number \<leftarrow> decode_u64 canard transfer 0 40 0;
     let (response, nd) = (if magic_number = 0xACCE551B1E then (push_bit 7 1, nd\<lparr>reboot_requested := True\<rparr>)
                           else (0, nd));
     (canard, transfer) \<leftarrow> respond canard transfer RestartNode [response];
     Some (nd, canard, transfer)
   }"

abbreviation (input) firmware_file_path_capacity :: u32 where "firmware_file_path_capacity \<equiv> 200"

definition on_begin_firmware_update ::
  "'s node \<Rightarrow> CanardInstance \<Rightarrow> CanardRxTransfer \<Rightarrow> ('s node \<times> CanardInstance \<times> CanardRxTransfer) option" where
  "on_begin_firmware_update nd canard transfer = do {
     let (bl_state, nd) = bootloader_getState nd;
     (error, nd) \<leftarrow>
       (if bl_state = AppUpgradeInProgress \<or> remote_server_node_id nd \<noteq> 0 then Some (2, nd)
        else if bl_state = ReadyToBoot then Some (1, nd)
        else do {
          server \<leftarrow> decode_u8 canard transfer 0 8 (remote_server_node_id nd);
          let server = (if server = 0 \<or> server \<ge> CANARD_MAX_NODE_ID then xfer_source_node_id transfer else server);
          let n = min (ucast (xfer_payload_len transfer) - 1) firmware_file_path_capacity;
          path \<leftarrow> decode_bytes canard transfer 1 (replicate (unat n) 0);
          Some (0, nd\<lparr>remote_server_node_id := server, firmware_file_path := path\<rparr>)
        });
     (canard, transfer) \<leftarrow> canardReleaseRxTransferPayload canard transfer;
     (canard, transfer) \<leftarrow> respond canard transfer BeginFirmwareUpdate [error];
     Some (nd, canard, transfer)
   }"

definition on_file_read ::
  "'s node \<Rightarrow> CanardInstance \<Rightarrow> CanardRxTransfer \<Rightarrow> 's node option" where
  "on_file_read nd canard transfer = do {
     error \<leftarrow> decode_u16 canard transfer 0 16 0;
     if error \<noteq> 0 then Some (nd\<lparr>read_result := - uint error\<rparr>)
     else do {
       let n = min 256 (uint (xfer_payload_len transfer) - 2);
       data \<leftarrow> decode_bytes canard transfer 2 (take (nat n) (read_buffer nd));
       Some (nd\<lparr>read_result := n, read_buffer := data @ drop (nat n) (read_buffer nd)\<rparr>)
     }
   }"

text \<open>The callback: the branches in their order, each on what the one before left.\<close>

definition onTransferReception ::
  "'s node \<Rightarrow> CanardInstance \<Rightarrow> CanardRxTransfer \<Rightarrow> ('s node \<times> CanardInstance \<times> CanardRxTransfer) option" where
  "onTransferReception nd canard transfer =
     (let is_request = (\<lambda>t dt. xfer_transfer_type t = CanardTransferTypeRequest \<and>
                               ucast (xfer_data_type_id t) = DataTypeID dt)
      in if canardGetLocalNodeID canard = CANARD_BROADCAST_NODE_ID \<and>
            xfer_transfer_type transfer = CanardTransferTypeBroadcast \<and>
            ucast (xfer_data_type_id transfer) = DataTypeID NodeIDAllocation
         then do { (nd, canard) \<leftarrow> on_allocation nd canard transfer; Some (nd, canard, transfer) }
         else do {
           (nd, canard, transfer) \<leftarrow> (if is_request transfer GetNodeInfo
              then on_get_node_info nd canard transfer else Some (nd, canard, transfer));
           (nd, canard, transfer) \<leftarrow> (if is_request transfer RestartNode
              then on_restart_node nd canard transfer else Some (nd, canard, transfer));
           (nd, canard, transfer) \<leftarrow> (if is_request transfer BeginFirmwareUpdate
              then on_begin_firmware_update nd canard transfer else Some (nd, canard, transfer));
           if xfer_transfer_type transfer = CanardTransferTypeResponse \<and>
              ucast (xfer_data_type_id transfer) = DataTypeID FileRead \<and>
              (xfer_transfer_id transfer + 1) AND 31 = file_read_transfer_id nd
           then do { nd \<leftarrow> on_file_read nd canard transfer; Some (nd, canard, transfer) }
           else Some (nd, canard, transfer)
         })"

section \<open>A turn of the loop\<close>

text \<open>
  \<open>receive\<close> is the driver: its result is a code and a frame. At most \<open>n\<close> frames are handled.
\<close>

primrec poll_receive ::
  "('d \<Rightarrow> (int \<times> CanardCANFrame) \<times> 'd) \<Rightarrow> nat \<Rightarrow> 'd \<Rightarrow> 's node \<Rightarrow> CanardInstance \<Rightarrow>
     ('d \<times> 's node \<times> CanardInstance) option" where
  "poll_receive receive 0 d nd canard = Some (d, nd, canard)"
| "poll_receive receive (Suc n) d nd canard =
     (let ((res, frame), d) = receive d
      in if res < 1 then Some (d, nd, canard)
         else do {
           let (t, nd) = getMonotonicTimestampUSec nd;
           (nd, canard) \<leftarrow> canardHandleRxFrame shouldAcceptTransfer onTransferReception nd canard frame t;
           poll_receive receive n d nd canard
         })"

definition poll ::
  "('d \<Rightarrow> (int \<times> CanardCANFrame) \<times> 'd) \<Rightarrow> ('d \<Rightarrow> CanardCANFrame \<Rightarrow> int \<times> 'd) \<Rightarrow> 'd \<Rightarrow> 's node \<Rightarrow>
     CanardInstance \<Rightarrow> ('d \<times> 's node \<times> CanardInstance) option" where
  "poll receive send d nd canard = do {
     (d, nd, canard) \<leftarrow> poll_receive receive 10 d nd canard;
     (d, canard) \<leftarrow> poll_transmit send 10 d canard;
     let (t, nd) = getMonotonicTimestampUSec nd;
     (nd, canard) \<leftarrow> (if t \<ge> next_1hz_task_invocation nd
        then handle1HzTasks (nd\<lparr>next_1hz_task_invocation := next_1hz_task_invocation nd + 1000000\<rparr>) canard
        else Some (nd, canard));
     Some (d, nd, canard)
   }"

end
