(* ===== verification/Loader_Inv.thy ===== *)
theory Loader_Inv
  imports Loader
begin

text \<open>
  The loader is an application that libcanard can rely on: its callback \<open>onTransferReception\<close> returns for
  every transfer, uses the library properly, and keeps the invariant of the node. The contract
  \<open>rx_application\<close> is discharged here, and with it the frame handler is safe for this node.
\<close>

section \<open>Messages\<close>

lemma encode_returns:
  assumes "load_value n v = Some (w, x)" and "1 \<le> unat n" "unat n \<le> 64" "w \<in> {1, 2, 4, 8}" "unat n \<le> 8 * w"
    and "unat off + unat n \<le> 8 * length dst" "unat off + unat n < 2 ^ 32"
  shows "returns (canardEncodeScalar be (Some dst) off n (Some v)) (\<lambda>dst'. length dst' = length dst)"
  by (rule returns_mono [OF encode_correct [OF assms(2,3,1,4-7)]]) blast

lemma encode_u8_returns:
  "1 < unat n \<Longrightarrow> unat n \<le> 8 \<Longrightarrow> unat off + unat n \<le> 8 * length dst \<Longrightarrow> unat off + unat n < 2 ^ 32 \<Longrightarrow>
    returns (canardEncodeScalar be (Some dst) off n (Some (ScalarU8 b))) (\<lambda>dst'. length dst' = length dst)"
  by (rule encode_returns [of n "ScalarU8 b" 1 "ucast b"]) (auto simp: load_value_def word_le_nat_alt)

lemma encode_u16_returns:
  "8 < unat n \<Longrightarrow> unat n \<le> 16 \<Longrightarrow> unat off + unat n \<le> 8 * length dst \<Longrightarrow> unat off + unat n < 2 ^ 32 \<Longrightarrow>
    returns (canardEncodeScalar be (Some dst) off n (Some (ScalarU16 b))) (\<lambda>dst'. length dst' = length dst)"
  by (rule encode_returns [of n "ScalarU16 b" 2 "ucast b"]) (auto simp: load_value_def word_le_nat_alt)

lemma encode_u32_returns:
  "16 < unat n \<Longrightarrow> unat n \<le> 32 \<Longrightarrow> unat off + unat n \<le> 8 * length dst \<Longrightarrow> unat off + unat n < 2 ^ 32 \<Longrightarrow>
    returns (canardEncodeScalar be (Some dst) off n (Some (ScalarU32 b))) (\<lambda>dst'. length dst' = length dst)"
  by (rule encode_returns [of n "ScalarU32 b" 4 "ucast b"]) (auto simp: load_value_def word_le_nat_alt)

lemma encode_u64_returns:
  "32 < unat n \<Longrightarrow> unat n \<le> 64 \<Longrightarrow> unat off + unat n \<le> 8 * length dst \<Longrightarrow> unat off + unat n < 2 ^ 32 \<Longrightarrow>
    returns (canardEncodeScalar be (Some dst) off n (Some (ScalarU64 b))) (\<lambda>dst'. length dst' = length dst)"
  by (rule encode_returns [of n "ScalarU64 b" 8 "b"]) (auto simp: load_value_def word_le_nat_alt)

lemmas encode_returns_rules = encode_u8_returns encode_u16_returns encode_u32_returns encode_u64_returns

lemma put_bytes_returns:
  "n \<le> length xs \<Longrightarrow> i + n \<le> length buf \<Longrightarrow>
    returns (put_bytes buf i xs n) (\<lambda>buf'. length buf' = length buf)"
  by (simp add: put_bytes_def)

text \<open>Members of the node that a step leaves alone.\<close>

definition same_config :: "'s node \<Rightarrow> 's node \<Rightarrow> bool" where
  "same_config nd nd' \<longleftrightarrow> hw_info nd' = hw_info nd \<and> node_name nd' = node_name nd \<and> read_buffer nd' = read_buffer nd"

lemma same_config_getUptime: "same_config nd (snd (getUptime nd))"
  and same_config_getState: "same_config nd (snd (bootloader_getState nd))"
  by (simp_all add: same_config_def getUptime_def bootloader_getState_def now_def split_beta)

lemma makeNodeStatusMessage_returns:
  assumes "7 \<le> length buf"
  shows "returns (makeNodeStatusMessage buf nd) (\<lambda>(buf', nd'). length buf' = length buf \<and> same_config nd nd')"
proof -
  obtain t nd1 where 1: "getUptime nd = (t, nd1)" by fastforce
  obtain st nd2 where 2: "bootloader_getState nd1 = (st, nd2)" by fastforce
  have c: "same_config nd nd2"
    using same_config_getUptime [of nd] same_config_getState [of nd1] 1 2 by (simp add: same_config_def)
  obtain h m where hm: "node_health_mode st = (h, m)" by fastforce
  let ?x = "ucast ((t + 500000) div 1000000) :: u32"
  let ?b = "replicate 7 0 @ drop 7 buf"
  have lb: "length ?b = length buf" using assms by simp
  show ?thesis
    unfolding makeNodeStatusMessage_def Let_def 1 2 hm prod.case
    by (intro encode_returns_rules [THEN returns_then]) (use assms c lb in simp_all)
qed

section \<open>Reading the transfer\<close>

lemma decode_returns:
  assumes "canard_inv canard L (xfer_payload_middle t)" and "delivers t (lay_held L) p"
    and "1 \<le> unat n" "unat n \<le> 64"
  shows "returns (canardDecodeScalar False (allocator canard) (Some t) off n False True) (\<lambda>_. True)"
proof -
  have "chain (buf_view (arena (allocator canard))) (xfer_payload_middle t) (lay_held L)"
    using assms(1) by (simp add: canard_inv_def Let_def)
  from returns_mono [OF decode_correct [OF assms(2) this assms(3,4)]] show ?thesis by simp
qed

lemma decode_variable_returns:
  assumes "canard_inv canard L (xfer_payload_middle t)" and "delivers t (lay_held L) p"
    and "1 \<le> unat n" "unat n \<le> 64"
  shows "returns (decode_u8 canard t off n x) (\<lambda>_. True)"
    and "returns (decode_u16 canard t off n y) (\<lambda>_. True)"
    and "returns (decode_u64 canard t off n z) (\<lambda>_. True)"
  using decode_returns [OF assms, of off]
  by (auto simp: decode_u8_def decode_u16_def decode_u64_def elim!: returnsE)

lemma decode_bytes_returns:
  assumes "canard_inv canard L (xfer_payload_middle t)" and "delivers t (lay_held L) p"
  shows "returns (decode_bytes canard t first xs) (\<lambda>ys. length ys = length xs)"
proof (induction xs arbitrary: first)
  case (Cons x xs)
  have "returns (decode_u8 canard t (of_nat (8 * first)) 8 x) (\<lambda>_. True)"
    using assms by (rule decode_variable_returns) simp_all
  then show ?case
    unfolding decode_bytes.simps
    by (rule returns_then) (rule returns_then [OF Cons.IH], simp)
qed simp

section \<open>Answering\<close>

text \<open>
  What a response may do to the library: take free blocks for its frames; the receive states and the
  blocks of the transfer stay.
\<close>

definition answered :: "CanardInstance \<Rightarrow> layout \<Rightarrow> CanardRxTransfer \<Rightarrow> CanardInstance \<Rightarrow> CanardRxTransfer \<Rightarrow> bool" where
  "answered canard L t canard' t' \<longleftrightarrow> node_id canard' = node_id canard \<and>
     xfer_payload_middle t' = xfer_payload_middle t \<and> xfer_transfer_type t' = xfer_transfer_type t \<and>
     xfer_data_type_id t' = xfer_data_type_id t \<and>
     (\<exists>L'. canard_inv canard' L' (xfer_payload_middle t') \<and> lay_rx L' = lay_rx L)"

lemma respond_returns:
  assumes inv: "canard_inv canard L (xfer_payload_middle t)" and len: "length buffer < 65536"
  shows "returns (respond canard t dt buffer) (\<lambda>(canard', t'). answered canard L t canard' t')"
proof (cases "xfer_priority t \<le> 31 \<and> node_id canard \<noteq> 0")
  case False
  then have "respond canard t dt buffer = Some (canard, t)"
    by (auto simp: respond_def canardRequestOrRespond_def canard_simps not_le)
  then show ?thesis using inv by (auto simp: answered_def)
next
  case True
  have n: "unat (of_nat (length buffer) :: u16) \<le> length (payload_bytes (Some buffer))"
    using len by (simp add: unat_of_nat)
  obtain canard' r where "canardRequestOrRespond canard (xfer_source_node_id t) (DataTypeSignature dt)
      (ucast (DataTypeID dt)) (Some (xfer_transfer_id t)) (xfer_priority t) CanardResponse (Some buffer)
      (of_nat (length buffer)) = Some (r, Some (xfer_transfer_id t), canard')"
    and "\<exists>fs. canard_inv canard' (lay_enqueue fs L) (xfer_payload_middle t)" "node_id canard' = node_id canard"
    using canardRequestOrRespond_correct [OF inv n _ _ _ refl, where priority = "xfer_priority t"
        and tid = "xfer_transfer_id t" and signature = "DataTypeSignature dt" and sid = "ucast (DataTypeID dt)"
        and kind = CanardResponse and dest = "xfer_source_node_id t"] True
    by fastforce
  then show ?thesis
    by (auto simp: respond_def answered_def lay_enqueue_def)
qed

section \<open>The invariant of the node\<close>

definition node_inv :: "'s node \<Rightarrow> u8 \<Rightarrow> bool" where
  "node_inv nd nid \<longleftrightarrow> nid \<noteq> 0 \<and> length (unique_id (hw_info nd)) = 16 \<and>
     unat (certificate_of_authenticity_length (hw_info nd)) \<le> length (certificate_of_authenticity (hw_info nd)) \<and>
     length (node_name nd) \<le> 80 \<and> length (read_buffer nd) = 256"

definition served :: "layout \<Rightarrow> CanardRxTransfer \<Rightarrow> 's node \<times> CanardInstance \<times> CanardRxTransfer \<Rightarrow> bool" where
  "served L t s \<longleftrightarrow> (case s of (nd', canard', t') \<Rightarrow> node_inv nd' (node_id canard') \<and>
     (xfer_payload_middle t = None \<longrightarrow> xfer_payload_middle t' = None) \<and>
     xfer_transfer_type t' = xfer_transfer_type t \<and> xfer_data_type_id t' = xfer_data_type_id t \<and>
     (\<exists>L'. canard_inv canard' L' (xfer_payload_middle t') \<and> lay_rx L' = lay_rx L))"

lemma served_answered:
  "node_inv nd' (node_id canard) \<Longrightarrow> answered canard L t canard' t' \<Longrightarrow> served L t (nd', canard', t')"
  by (auto simp: served_def answered_def)

lemma respond_served:
  assumes "canard_inv canard L (xfer_payload_middle t)" and "length buffer < 65536" and "node_inv nd (node_id canard)"
  shows "returns (do { (canard, t) \<leftarrow> respond canard t dt buffer; Some (nd, canard, t) }) (served L t)"
  by (rule returns_then [OF respond_returns [OF assms(1,2)]]) (auto intro: served_answered assms(3))

lemma get_node_info_served:
  assumes inv: "canard_inv canard L (xfer_payload_middle t)" and nd: "node_inv nd (node_id canard)"
  shows "returns (on_get_node_info nd canard t) (served L t)"
  unfolding on_get_node_info_def
proof (rule returns_then [OF makeNodeStatusMessage_returns], goal_cases)
  case 1
  show ?case by simp
next
  case (2 r)
  obtain buf nd' where r: "r = (buf, nd')" by fastforce
  with 2 have lb: "length buf = 377" and cfg: "same_config nd nd'" by simp_all
  obtain sw ok where sw: "getAppInfo (bootloader_ref nd') = (sw, ok)" by fastforce
  have app: "returns (if ok then do {
         buffer \<leftarrow> put_bytes buf 7 [major_version sw, minor_version sw, 3] 3;
         buffer \<leftarrow> canardEncodeScalar False (Some buffer) 80 32 (Some (ScalarU32 (vcs_commit sw)));
         canardEncodeScalar False (Some buffer) 112 64 (Some (ScalarU64 (image_crc sw)))
       } else Some buf) (\<lambda>b. length b = 377)"
    using lb by (auto intro!: put_bytes_returns [THEN returns_then] encode_u32_returns [THEN returns_then]
        encode_u64_returns [THEN returns_mono])
  have cfg': "hw_info nd' = hw_info nd" "node_name nd' = node_name nd" "node_inv nd' (node_id canard)"
    using cfg nd by (simp_all add: same_config_def node_inv_def)
  have coa: "unat (certificate_of_authenticity_length (hw_info nd)) \<le> 255"
    using unsigned_less [of "certificate_of_authenticity_length (hw_info nd)", where 'a = nat] by simp
  show ?case
    unfolding r prod.case sw Let_def cfg'
    by (rule returns_then [OF app], intro put_bytes_returns [THEN returns_then])
       (use nd coa cfg'(3) in \<open>simp_all add: node_inv_def respond_served [OF inv]\<close>)
qed

lemma restart_node_served:
  assumes inv: "canard_inv canard L (xfer_payload_middle t)" and del: "delivers t (lay_held L) p"
    and nd: "node_inv nd (node_id canard)"
  shows "returns (on_restart_node nd canard t) (served L t)"
proof -
  have "returns (decode_u64 canard t 0 40 0) (\<lambda>_. True)"
    by (rule decode_variable_returns [OF inv del]) simp_all
  then show ?thesis
    unfolding on_restart_node_def Let_def split_beta
    by (rule returns_then) (rule respond_served [OF inv, unfolded split_beta]; use nd in \<open>simp add: node_inv_def\<close>)
qed

lemma release_loop_types:
  assumes "releaseTransfer_loop al t = Some (al', t')"
  shows "xfer_transfer_type t' = xfer_transfer_type t \<and> xfer_data_type_id t' = xfer_data_type_id t"
proof -
  have "case r of (al', t') \<Rightarrow> xfer_transfer_type t' = xfer_transfer_type t \<and> xfer_data_type_id t' = xfer_data_type_id t"
    if "releaseTransfer_loop al t = Some r" for al t r
  proof (rule releaseTransfer_loop.raw_induct [OF _ that], goal_cases)
    case (1 loop al t r)
    then show ?case by (auto simp: bind_eq_Some Let_def split: option.splits prod.splits)
  qed
  from this [OF assms] show ?thesis by simp
qed

lemma node_inv_getState: "node_inv (snd (bootloader_getState nd)) i = node_inv nd i"
  by (simp add: node_inv_def bootloader_getState_def now_def split_beta)

lemma begin_firmware_update_served:
  assumes inv: "canard_inv canard L (xfer_payload_middle t)" and del: "delivers t (lay_held L) p"
    and nd: "node_inv nd (node_id canard)"
  shows "returns (on_begin_firmware_update nd canard t) (served L t)"
proof -
  obtain st nd1 where st: "bootloader_getState nd = (st, nd1)" by fastforce
  then have nd1: "node_inv nd1 (node_id canard)" using node_inv_getState [of nd] nd by simp
  have dec: "returns (decode_u8 canard t 0 8 x) (\<lambda>_. True)" for x
    by (rule decode_variable_returns [OF inv del]) simp_all
  have path: "returns (decode_bytes canard t f xs) (\<lambda>_. True)" for f xs
    by (rule returns_mono [OF decode_bytes_returns [OF inv del]]) simp
  have "returns (if st = AppUpgradeInProgress \<or> remote_server_node_id nd1 \<noteq> 0 then Some (2, nd1)
        else if st = ReadyToBoot then Some (1, nd1)
        else do {
          server \<leftarrow> decode_u8 canard t 0 8 (remote_server_node_id nd1);
          let server = (if server = 0 \<or> server \<ge> CANARD_MAX_NODE_ID then xfer_source_node_id t else server);
          let n = min (ucast (xfer_payload_len t) - 1) firmware_file_path_capacity;
          path \<leftarrow> decode_bytes canard t 1 (replicate (unat n) 0);
          Some (0 :: u8, nd1\<lparr>remote_server_node_id := server, firmware_file_path := path\<rparr>)
        }) (\<lambda>(error, nd'). node_inv nd' (node_id canard))"
    using nd1 by (auto simp: Let_def node_inv_def intro!: dec [THEN returns_then] path [THEN returns_then])
  then show ?thesis
    unfolding on_begin_firmware_update_def Let_def st prod.case
  proof (rule returns_then, goal_cases)
    case (1 r)
    obtain e nd2 where r: "r = (e, nd2)" by fastforce
    with 1 have nd2: "node_inv nd2 (node_id canard)" by simp
    obtain canard' t' where rel: "canardReleaseRxTransferPayload canard t = Some (canard', t')"
        "canard_inv canard' (L\<lparr>lay_free := rev (addrs (lay_held L)) @ lay_free L, lay_held := []\<rparr>) None"
        "same_node canard canard'" "xfer_payload_middle t' = None"
      using release_layout [OF inv] by (auto elim!: returnsE)
    have types: "xfer_transfer_type t' = xfer_transfer_type t" "xfer_data_type_id t' = xfer_data_type_id t"
      using rel(1) by (auto simp: canardReleaseRxTransferPayload_def bind_eq_Some dest!: release_loop_types)
    have "returns (do { (canard, t) \<leftarrow> respond canard' t' BeginFirmwareUpdate [e]; Some (nd2, canard, t) })
        (served (L\<lparr>lay_free := rev (addrs (lay_held L)) @ lay_free L, lay_held := []\<rparr>) t')"
      using rel(2-4) nd2 by (intro respond_served) simp_all
    then show ?case
      unfolding r prod.case rel(1) Option.bind.bind_lunit
      by (rule returns_mono) (auto simp: served_def types rel(4))
  qed
qed

lemma file_read_served:
  assumes inv: "canard_inv canard L (xfer_payload_middle t)" and del: "delivers t (lay_held L) p"
    and nd: "node_inv nd (node_id canard)"
  shows "returns (on_file_read nd canard t) (\<lambda>nd'. node_inv nd' (node_id canard))"
proof -
  have "returns (decode_u16 canard t 0 16 0) (\<lambda>_. True)"
    by (rule decode_variable_returns [OF inv del]) simp_all
  then show ?thesis
    unfolding on_file_read_def Let_def
    by (rule returns_then)
       (use nd in \<open>auto simp: node_inv_def intro!: decode_bytes_returns [OF inv del, THEN returns_then]\<close>)
qed

section \<open>The contract\<close>

lemma onTransferReception_served:
  assumes inv: "canard_inv canard L (xfer_payload_middle t)" and del: "delivers t (lay_held L) p"
    and nd: "node_inv nd (node_id canard)"
  shows "returns (onTransferReception nd canard t) (served L t)"
proof -
  have id: "canardGetLocalNodeID canard \<noteq> CANARD_BROADCAST_NODE_ID"
    using nd by (simp add: node_inv_def canard_simps)
  have same: "served L t (nd, canard, t)" using inv nd by (auto simp: served_def)
  consider (is_info) "xfer_transfer_type t = CanardTransferTypeRequest" "ucast (xfer_data_type_id t) = DataTypeID GetNodeInfo"
    | (is_restart) "xfer_transfer_type t = CanardTransferTypeRequest" "ucast (xfer_data_type_id t) = DataTypeID RestartNode"
    | (is_update) "xfer_transfer_type t = CanardTransferTypeRequest" "ucast (xfer_data_type_id t) = DataTypeID BeginFirmwareUpdate"
    | (is_file) "xfer_transfer_type t = CanardTransferTypeResponse"
    | (is_other) "xfer_transfer_type t \<noteq> CanardTransferTypeResponse"
      "\<not> (xfer_transfer_type t = CanardTransferTypeRequest \<and> ucast (xfer_data_type_id t) = DataTypeID GetNodeInfo)"
      "\<not> (xfer_transfer_type t = CanardTransferTypeRequest \<and> ucast (xfer_data_type_id t) = DataTypeID RestartNode)"
      "\<not> (xfer_transfer_type t = CanardTransferTypeRequest \<and> ucast (xfer_data_type_id t) = DataTypeID BeginFirmwareUpdate)"
    by blast
  then show ?thesis
  proof cases
    case is_info
    then show ?thesis
      using get_node_info_served [OF inv nd] id
      by (auto simp: onTransferReception_def Let_def data_types served_def elim!: returnsE)
  next
    case is_restart
    then show ?thesis
      using restart_node_served [OF inv del nd] id
      by (auto simp: onTransferReception_def Let_def data_types served_def elim!: returnsE)
  next
    case is_update
    then show ?thesis
      using begin_firmware_update_served [OF inv del nd] id
      by (auto simp: onTransferReception_def Let_def data_types served_def elim!: returnsE)
  next
    case is_file
    then show ?thesis
      using file_read_served [OF inv del nd] id same
      by (auto simp: onTransferReception_def Let_def served_def elim!: returnsE)
  next
    case is_other
    then show ?thesis
      using id same by (auto simp: onTransferReception_def Let_def)
  qed
qed

interpretation loader: rx_application onTransferReception node_inv
proof unfold_locales
  fix ins L t p and app :: "'s node"
  assume "canard_inv ins L (xfer_payload_middle t)" "delivers t (lay_held L) p" "node_inv app (node_id ins)"
  from onTransferReception_served [OF this]
  show "returns (onTransferReception app ins t) (\<lambda>(app', ins', t'). node_inv app' (node_id ins') \<and>
      (xfer_payload_middle t = None \<longrightarrow> xfer_payload_middle t' = None) \<and>
      (\<exists>L'. canard_inv ins' L' (xfer_payload_middle t') \<and> lay_rx L' = lay_rx L))"
    by (rule returns_mono) (auto simp: served_def)
qed

section \<open>Receiving\<close>


definition demo_loader :: "memory node" where
  "demo_loader =
     \<lparr>bootloader_ref = sample_boot BootDelay (Some sample_info), node_name = [0x61],
      hw_info = \<lparr>hw_major = 1, hw_minor = 0, unique_id = replicate 16 7, certificate_of_authenticity = [],
                 certificate_of_authenticity_length = 0\<rparr>,
      systime = (\<lambda>_. 0), systime_reads = 0, rand_values = (\<lambda>_. 0), random_calls = 0, reboot_requested = False,
      timekeeper = MonotonicTimekeeper_new 0, next_1hz_task_invocation = 0, init_done = True,
      remote_server_node_id = 0, firmware_file_path = [], send_next_node_id_allocation_request_at = 0,
      node_id_allocation_unique_id_offset = 0, vendor_specific_status = 0, node_status_transfer_id = 0,
      file_read_transfer_id = 0, read_buffer = replicate 256 0, read_result = 0\<rparr>"

text \<open>A request for the information about the node, from node 1 to node 42.\<close>

definition demo_request :: CanardCANFrame where
  "demo_request = \<lparr>frame_id = CANARD_CAN_FRAME_EFF OR service_can_id 16 1 CanardRequest 42 1,
     frame_data = [0xC0, 0, 0, 0, 0, 0, 0, 0], frame_data_len = 1\<rparr>"


end
