(* ===== verification/Loader_Tasks.thy ===== *)
theory Loader_Tasks
  imports Loader_Inv
begin

text \<open>
  The thread of the UAVCAN node (\<open>l_uavcan.hpp\<close>): log messages, detection of the bit rate, dynamic
  allocation of the node identifier, the download of an image, and the main function that drives them.

  The CAN driver \<open>ICANIface\<close> is pure virtual; it is an argument, a record of functions on its state. The
  watchdog is hardware and is left out. The reboot flag is global: \<open>reboot_signals\<close> gives what other
  threads have requested at each time the flag is read. A wait for the clock may last for ever, and the
  main loop ends at a reboot request only, so these loops are partial functions; \<open>None\<close> is also the
  thread that never returns.
\<close>

section \<open>The driver and the state of the thread\<close>

datatype Mode = Normal | Silent | AutomaticTxAbortOnError

record AcceptanceFilterConfig =
  filter_id :: u32
  filter_mask :: u32

record 'd ICANIface =
  iface_init :: "u32 \<Rightarrow> Mode \<Rightarrow> AcceptanceFilterConfig \<Rightarrow> 'd \<Rightarrow> int \<times> 'd"
  iface_send :: "CanardCANFrame \<Rightarrow> int \<Rightarrow> 'd \<Rightarrow> int \<times> 'd"
  iface_receive :: "int \<Rightarrow> 'd \<Rightarrow> (int \<times> CanardCANFrame) \<times> 'd"

record ('d, 's) loader =
  iface_state :: 'd
  this_node :: "'s node"
  the_canard :: CanardInstance
  can_bus_bit_rate :: u32
  confirmed_local_node_id :: u8
  node_id_allocation_transfer_id :: u8
  log_message_transfer_id :: u8
  reboot_signals :: "nat \<Rightarrow> bool"
  reboot_reads :: nat

definition isRebootRequested :: "('d, 's) loader \<Rightarrow> bool \<times> ('d, 's) loader" where
  "isRebootRequested ld =
     (reboot_requested (this_node ld) \<or> reboot_signals ld (reboot_reads ld), ld\<lparr>reboot_reads := Suc (reboot_reads ld)\<rparr>)"

definition timestamp :: "('d, 's) loader \<Rightarrow> u64 \<times> ('d, 's) loader" where
  "timestamp ld = (let (t, nd) = getMonotonicTimestampUSec (this_node ld) in (t, ld\<lparr>this_node := nd\<rparr>))"

text \<open>The second of sleep is in the clock: the second reading of the time is a later one.\<close>

definition delayAfterDriverError :: "('d, 's) loader \<Rightarrow> ('d, 's) loader" where
  "delayAfterDriverError ld = snd (timestamp (snd (timestamp ld)))"

definition initCAN ::
  "'d ICANIface \<Rightarrow> u32 \<Rightarrow> Mode \<Rightarrow> AcceptanceFilterConfig \<Rightarrow> ('d, 's) loader \<Rightarrow> int \<times> ('d, 's) loader" where
  "initCAN iface bitrate mode acceptance_filter ld =
     (let (res, d) = iface_init iface bitrate mode acceptance_filter (iface_state ld)
      in (res, ld\<lparr>iface_state := d\<rparr>))"

definition receive_frame :: "'d ICANIface \<Rightarrow> int \<Rightarrow> ('d, 's) loader \<Rightarrow> (int \<times> CanardCANFrame) \<times> ('d, 's) loader" where
  "receive_frame iface timeout_msec ld =
     (let (res, d) = iface_receive iface timeout_msec (iface_state ld) in (res, ld\<lparr>iface_state := d\<rparr>))"

definition poll_node :: "'d ICANIface \<Rightarrow> ('d, 's) loader \<Rightarrow> ('d, 's) loader option" where
  "poll_node iface ld = do {
     (d, nd, canard) \<leftarrow> poll (iface_receive iface 1) (\<lambda>d frame. iface_send iface frame 0 d)
       (iface_state ld) (this_node ld) (the_canard ld);
     Some (ld\<lparr>iface_state := d, this_node := nd, the_canard := canard\<rparr>)
   }"

text \<open>Polling until the clock has reached \<open>deadline\<close>.\<close>

partial_function (option) poll_until :: "'d ICANIface \<Rightarrow> u64 \<Rightarrow> ('d, 's) loader \<Rightarrow> ('d, 's) loader option" where
  "poll_until iface deadline ld =
     (let (t, ld) = timestamp ld
      in if t < deadline then do { ld \<leftarrow> poll_node iface ld; poll_until iface deadline ld } else Some ld)"

section \<open>Log messages\<close>

datatype LogLevel = Debug | Info | Warning | Error

definition log_level_value :: "LogLevel \<Rightarrow> u8" where
  "log_level_value level = (case level of Debug \<Rightarrow> 0 | Info \<Rightarrow> 1 | Warning \<Rightarrow> 2 | Error \<Rightarrow> 3)"

text \<open>
  \<open>intToString\<close>, for numbers of at most \<open>offset\<close> characters: the digits from the last to the first, of
  negative numbers without a change of sign that could overflow.
\<close>

primrec digits_loop :: "nat \<Rightarrow> int \<Rightarrow> u8 list \<Rightarrow> u8 list option" where
  "digits_loop 0 x storage = None"
| "digits_loop (Suc offset) x storage =
     (let residual = (if x < 0 then (- x) mod 10 else x mod 10);
          storage = word_of_int (48 + residual) # storage;
          x = (if x < 0 then - ((- x) div 10) else x div 10)
      in if x \<noteq> 0 then digits_loop offset x storage else Some storage)"

definition intToString :: "nat \<Rightarrow> int \<Rightarrow> u8 list option" where
  "intToString MaxChars x = do {
     storage \<leftarrow> digits_loop MaxChars x [];
     if x < 0 then do { canard_assert (length storage < MaxChars); Some (45 # storage) } else Some storage
   }"

text \<open>A string of at most \<open>capacity\<close> characters: what does not fit is cut off.\<close>

definition heapless_string :: "nat \<Rightarrow> u8 list \<Rightarrow> u8 list" where
  "heapless_string capacity text = take capacity text"

definition SourceName :: "u8 list" where "SourceName = [66, 111, 111, 116, 108, 111, 97, 100, 101, 114]"

definition upgrade_error_text :: "u8 list" where
  "upgrade_error_text = [85, 112, 103, 114, 97, 100, 101, 32, 101, 114, 114, 111, 114, 32]"
definition bytes_down_text :: "u8 list" where
  "bytes_down_text = [66, 32, 100, 111, 119, 110, 46, 46, 46]"
definition invalid_image_text :: "u8 list" where
  "invalid_image_text = [68, 111, 119, 110, 108, 111, 97, 100, 101, 100, 32, 105, 109, 97, 103, 101, 32, 105, 115, 32,
     105, 110, 118, 97, 108, 105, 100]"
definition ok_text :: "u8 list" where "ok_text = [79, 75]"

definition sendLog :: "LogLevel \<Rightarrow> u8 list \<Rightarrow> ('d, 's) loader \<Rightarrow> ('d, 's) loader option" where
  "sendLog level txt ld = do {
     let txt = heapless_string 90 txt;
     let buffer = replicate (1 + 31 + 90) 0;
     buffer \<leftarrow> put_bytes buffer 0 [push_bit 5 (log_level_value level) OR of_nat (length SourceName)] 1;
     buffer \<leftarrow> put_bytes buffer 1 SourceName (length SourceName);
     buffer \<leftarrow> put_bytes buffer (1 + length SourceName) txt (length txt);
     (res, tid, canard) \<leftarrow> canardBroadcast (the_canard ld) (DataTypeSignature LogMessage) (ucast (DataTypeID LogMessage))
       (Some (log_message_transfer_id ld)) 31 (Some buffer) (of_nat (1 + length SourceName + length txt));
     Some (ld\<lparr>the_canard := canard, log_message_transfer_id := case_option (log_message_transfer_id ld) id tid\<rparr>)
   }"

definition announce :: "('d, 's) loader \<Rightarrow> ('d, 's) loader option" where
  "announce ld = do {
     (nd, canard) \<leftarrow> sendNodeStatus (this_node ld) (the_canard ld);
     Some (ld\<lparr>this_node := nd, the_canard := canard\<rparr>)
   }"

section \<open>Bit rate\<close>

definition StandardBitRates :: "u32 list" where
  "StandardBitRates = [1000000, 500000, 250000, 125000, 100000]"

definition accept_all :: AcceptanceFilterConfig where "accept_all = \<lparr>filter_id = 0, filter_mask = 0\<rparr>"

text \<open>One round of the detection with the bit rate \<open>br\<close>.\<close>

definition try_bit_rate :: "'d ICANIface \<Rightarrow> u32 \<Rightarrow> ('d, 's) loader \<Rightarrow> ('d, 's) loader" where
  "try_bit_rate iface br ld =
     (let (res, ld) = initCAN iface br Silent accept_all ld
      in if res \<ge> 0 then
           (let ((res, frame), ld) = receive_frame iface 1100 ld;
                ld = (if res > 0 then ld\<lparr>can_bus_bit_rate := br\<rparr> else ld)
            in if res < 0 then delayAfterDriverError ld else ld)
         else delayAfterDriverError ld)"

partial_function (option) detection_loop :: "'d ICANIface \<Rightarrow> nat \<Rightarrow> ('d, 's) loader \<Rightarrow> ('d, 's) loader option" where
  "detection_loop iface current_bit_rate_index ld =
     (let (reboot, ld) = isRebootRequested ld
      in if \<not> reboot \<and> can_bus_bit_rate ld = 0 then do {
           br \<leftarrow> nth_opt StandardBitRates current_bit_rate_index;
           detection_loop iface ((current_bit_rate_index + 1) mod length StandardBitRates) (try_bit_rate iface br ld)
         }
         else Some ld)"

definition performCANBitRateDetection :: "'d ICANIface \<Rightarrow> ('d, 's) loader \<Rightarrow> ('d, 's) loader option" where
  "performCANBitRateDetection iface ld = detection_loop iface 0 ld"

section \<open>Allocation of the node identifier\<close>

abbreviation (input) CANARD_CAN_FRAME_RTR :: u32 where "CANARD_CAN_FRAME_RTR \<equiv> 0x40000000"
abbreviation (input) CANARD_CAN_FRAME_ERR :: u32 where "CANARD_CAN_FRAME_ERR \<equiv> 0x20000000"

definition allocation_filter :: AcceptanceFilterConfig where
  "allocation_filter =
     \<lparr>filter_id = 0x100 OR CANARD_CAN_FRAME_EFF,
      filter_mask = 0x380 OR CANARD_CAN_FRAME_EFF OR CANARD_CAN_FRAME_RTR OR CANARD_CAN_FRAME_ERR\<rparr>"

text \<open>Initializing until it succeeds.\<close>

partial_function (option) init_until ::
  "'d ICANIface \<Rightarrow> Mode \<Rightarrow> AcceptanceFilterConfig \<Rightarrow> ('d, 's) loader \<Rightarrow> ('d, 's) loader option" where
  "init_until iface mode filt ld =
     (let (res, ld) = initCAN iface (can_bus_bit_rate ld) mode filt ld
      in if res \<ge> 0 then Some ld else init_until iface mode filt (delayAfterDriverError ld))"

definition make_allocation_request :: "'s node \<Rightarrow> (u8 list \<times> u16) option" where
  "make_allocation_request nd = do {
     let offset = node_id_allocation_unique_id_offset nd;
     let request = replicate 7 0;
     let request = (if offset = 0 then request[0 := request ! 0 OR 1] else request);
     let uid_size = (of_nat (length (unique_id (hw_info nd))) - offset :: u8);
     let uid_size = (if uid_size > 6 then 6 else uid_size);
     canard_assert (unat offset < length (unique_id (hw_info nd)));
     canard_assert (uid_size \<le> 6);
     canard_assert (uid_size > 0);
     canard_assert (unat uid_size + unat offset \<le> length (unique_id (hw_info nd)));
     request \<leftarrow> put_bytes request 1 (drop (unat offset) (unique_id (hw_info nd))) (unat uid_size);
     Some (request, ucast uid_size + 1)
   }"

definition send_allocation_request :: "('d, 's) loader \<Rightarrow> ('d, 's) loader option" where
  "send_allocation_request ld = do {
     (request, n) \<leftarrow> make_allocation_request (this_node ld);
     (res, tid, canard) \<leftarrow> canardBroadcast (the_canard ld) (DataTypeSignature NodeIDAllocation)
       (ucast (DataTypeID NodeIDAllocation)) (Some (node_id_allocation_transfer_id ld)) 24 (Some request) n;
     Some (ld\<lparr>the_canard := canard, node_id_allocation_transfer_id := case_option (node_id_allocation_transfer_id ld) id tid,
       this_node := (this_node ld)\<lparr>node_id_allocation_unique_id_offset := 0\<rparr>\<rparr>)
   }"

text \<open>Waiting for the time of the next request, which the callback may move, or for an identifier.\<close>

partial_function (option) allocation_wait :: "'d ICANIface \<Rightarrow> ('d, 's) loader \<Rightarrow> ('d, 's) loader option" where
  "allocation_wait iface ld =
     (let (t, ld) = timestamp ld
      in if t < send_next_node_id_allocation_request_at (this_node ld) \<and> canardGetLocalNodeID (the_canard ld) = 0
         then do { ld \<leftarrow> poll_node iface ld; allocation_wait iface ld }
         else Some ld)"

partial_function (option) allocation_loop :: "'d ICANIface \<Rightarrow> ('d, 's) loader \<Rightarrow> ('d, 's) loader option" where
  "allocation_loop iface ld =
     (let (reboot, ld) = isRebootRequested ld
      in if \<not> reboot \<and> canardGetLocalNodeID (the_canard ld) = 0 then do {
           let (t, ld) = timestamp ld;
           let (d, nd) = getRandomDurationMicrosecond 600000 1000000 (this_node ld);
           let ld = ld\<lparr>this_node := nd\<lparr>send_next_node_id_allocation_request_at := t + d\<rparr>\<rparr>;
           ld \<leftarrow> allocation_wait iface ld;
           if canardGetLocalNodeID (the_canard ld) \<noteq> 0 then Some ld
           else do {
             ld \<leftarrow> send_allocation_request ld;
             allocation_loop iface ld
           }
         }
         else Some ld)"

definition performDynamicNodeIDAllocation :: "'d ICANIface \<Rightarrow> ('d, 's) loader \<Rightarrow> ('d, 's) loader option" where
  "performDynamicNodeIDAllocation iface ld = do {
     ld \<leftarrow> init_until iface AutomaticTxAbortOnError allocation_filter ld;
     allocation_loop iface ld
   }"

section \<open>Download\<close>

abbreviation (input) ErrTimeout :: int where "ErrTimeout \<equiv> 30001"
abbreviation (input) ErrInterrupted :: int where "ErrInterrupted \<equiv> 30002"
abbreviation (input) no_result :: int where "no_result \<equiv> 2147483647"
abbreviation (input) ServiceRequestTimeoutMillisecond :: u64 where "ServiceRequestTimeoutMillisecond \<equiv> 1000"
abbreviation (input) ProgressReportIntervalMillisecond :: u64 where "ProgressReportIntervalMillisecond \<equiv> 10000"

definition make_read_request :: "u64 \<Rightarrow> u8 list \<Rightarrow> (u8 list \<times> u16) option" where
  "make_read_request offset path = do {
     buffer \<leftarrow> canardEncodeScalar False (Some (replicate 206 0)) 0 40 (Some (ScalarU64 offset));
     buffer \<leftarrow> put_bytes buffer 5 path (length path);
     Some (buffer, of_nat (length path + 5))
   }"

definition send_read_request :: "u64 \<Rightarrow> ('d, 's) loader \<Rightarrow> (int \<times> ('d, 's) loader) option" where
  "send_read_request offset ld = do {
     let nd = this_node ld;
     (buffer, n) \<leftarrow> make_read_request offset (firmware_file_path nd);
     (res, tid, canard) \<leftarrow> canardRequestOrRespond (the_canard ld) (remote_server_node_id nd) (DataTypeSignature FileRead)
       (ucast (DataTypeID FileRead)) (Some (file_read_transfer_id nd)) 24 CanardRequest (Some buffer) n;
     Some (res, ld\<lparr>the_canard := canard, this_node := nd\<lparr>file_read_transfer_id := case_option (file_read_transfer_id nd) id tid\<rparr>\<rparr>)
   }"

text \<open>Waiting for the response: whether the deadline has passed.\<close>

partial_function (option) await_response :: "'d ICANIface \<Rightarrow> u64 \<Rightarrow> ('d, 's) loader \<Rightarrow> (bool \<times> ('d, 's) loader) option" where
  "await_response iface response_deadline ld =
     (if read_result (this_node ld) = no_result then do {
        ld \<leftarrow> poll_node iface ld;
        let (t, ld) = timestamp ld;
        if t > response_deadline then Some (True, ld) else await_response iface response_deadline ld
      }
      else Some (False, ld))"

definition report_progress :: "u64 \<Rightarrow> u64 \<Rightarrow> ('d, 's) loader \<Rightarrow> (u64 \<times> ('d, 's) loader) option" where
  "report_progress offset next_progress_report_deadline ld = do {
     let (t, ld) = timestamp ld;
     if t > next_progress_report_deadline then do {
       number \<leftarrow> intToString 20 (uint offset);
       ld \<leftarrow> sendLog Info (heapless_string 200 (number @ bytes_down_text)) ld;
       Some (next_progress_report_deadline + ProgressReportIntervalMillisecond * 1000, ld)
     }
     else Some (next_progress_report_deadline, ld)
   }"

text \<open>
  A turn of the loop ends the download with a result, or goes on with the next offset. The sink is a
  function on its own state and on the node, whose bootloader it writes to; its result is that of
  \<open>handleNextDataChunk\<close>.
\<close>

text \<open>What a turn does with a response that has \<open>read_result\<close> bytes.\<close>

definition store_response ::
  "'d ICANIface \<Rightarrow> ('k \<Rightarrow> 's node \<Rightarrow> u8 list \<Rightarrow> u32 \<Rightarrow> (int \<times> 'k \<times> 's node) option) \<Rightarrow> u64 \<Rightarrow> u64 \<Rightarrow>
     ('d, 's) loader \<Rightarrow> 'k \<Rightarrow> ((int \<times> ('d, 's) loader \<times> 'k) + (u64 \<times> u64 \<times> ('d, 's) loader \<times> 'k)) option" where
  "store_response iface sink offset next_progress_report_deadline ld k = do {
     let result = read_result (this_node ld);
     let offset = offset + word_of_int result;
     (res, k, nd) \<leftarrow> sink k (this_node ld) (read_buffer (this_node ld)) (word_of_int result);
     let ld = ld\<lparr>this_node := nd\<rparr>;
     if res < 0 then Some (Inl (res, ld, k))
     else do {
       (next_progress_report_deadline, ld) \<leftarrow> report_progress offset next_progress_report_deadline ld;
       let (t, ld) = timestamp ld;
       let wait_deadline = t + ucast (1000000 div (1 + drop_bit 16 (can_bus_bit_rate ld)));
       ld \<leftarrow> poll_until iface wait_deadline ld;
       Some (Inr (offset, next_progress_report_deadline, ld, k))
     }
   }"

definition download_turn ::
  "'d ICANIface \<Rightarrow> ('k \<Rightarrow> 's node \<Rightarrow> u8 list \<Rightarrow> u32 \<Rightarrow> (int \<times> 'k \<times> 's node) option) \<Rightarrow> u64 \<Rightarrow> u64 \<Rightarrow>
     ('d, 's) loader \<Rightarrow> 'k \<Rightarrow> ((int \<times> ('d, 's) loader \<times> 'k) + (u64 \<times> u64 \<times> ('d, 's) loader \<times> 'k)) option" where
  "download_turn iface sink offset next_progress_report_deadline ld k =
     (let (reboot, ld) = isRebootRequested ld
      in if reboot then Some (Inl (- ErrInterrupted, ld, k))
         else do {
           (res, ld) \<leftarrow> send_read_request offset ld;
           if res < 0 then Some (Inl (res, ld, k))
           else do {
             let (t, ld) = timestamp ld;
             let response_deadline = t + ServiceRequestTimeoutMillisecond * 3000;
             let ld = ld\<lparr>this_node := (this_node ld)\<lparr>read_result := no_result\<rparr>\<rparr>;
             (timeout, ld) \<leftarrow> await_response iface response_deadline ld;
             let result = read_result (this_node ld);
             if timeout then Some (Inl (- ErrTimeout, ld, k))
             else if result < 0 then Some (Inl (result, ld, k))
             else if result > 0 then store_response iface sink offset next_progress_report_deadline ld k
             else Some (Inl (0, ld, k))
           }
         })"

partial_function (option) download_loop ::
  "'d ICANIface \<Rightarrow> ('k \<Rightarrow> 's node \<Rightarrow> u8 list \<Rightarrow> u32 \<Rightarrow> (int \<times> 'k \<times> 's node) option) \<Rightarrow> u64 \<Rightarrow> u64 \<Rightarrow>
     ('d, 's) loader \<Rightarrow> 'k \<Rightarrow> (int \<times> ('d, 's) loader \<times> 'k) option" where
  "download_loop iface sink offset next_progress_report_deadline ld k = do {
     r \<leftarrow> download_turn iface sink offset next_progress_report_deadline ld k;
     case r of
       Inl result \<Rightarrow> Some result
     | Inr (offset, next_progress_report_deadline, ld, k) \<Rightarrow>
         download_loop iface sink offset next_progress_report_deadline ld k
   }"

definition download ::
  "'d ICANIface \<Rightarrow> ('k \<Rightarrow> 's node \<Rightarrow> u8 list \<Rightarrow> u32 \<Rightarrow> (int \<times> 'k \<times> 's node) option) \<Rightarrow>
     ('d, 's) loader \<Rightarrow> 'k \<Rightarrow> (int \<times> ('d, 's) loader \<times> 'k) option" where
  "download iface sink ld k = do {
     let (t, ld) = timestamp ld;
     ld \<leftarrow> announce ld;
     download_loop iface sink 0 t ld k
   }"

text \<open>The sink of the bootloader: its state is the offset.\<close>

definition bootloader_sink ::
  "'s backend \<Rightarrow> u32 \<Rightarrow> 's node \<Rightarrow> u8 list \<Rightarrow> u32 \<Rightarrow> (int \<times> u32 \<times> 's node) option" where
  "bootloader_sink be offset nd data n = do {
     (res, offset, bl) \<leftarrow> handleNextDataChunk be (bootloader_ref nd) offset data n;
     Some (res, offset, nd\<lparr>bootloader_ref := bl\<rparr>)
   }"

definition read_clock :: "('d, 's) loader \<Rightarrow> u16 \<times> ('d, 's) loader" where
  "read_clock ld = (let (ts, nd) = now (this_node ld) in (ts, ld\<lparr>this_node := nd\<rparr>))"

definition with_bootloader :: "'s Bootloader \<Rightarrow> ('d, 's) loader \<Rightarrow> ('d, 's) loader" where
  "with_bootloader bl ld = ld\<lparr>this_node := (this_node ld)\<lparr>bootloader_ref := bl\<rparr>\<rparr>"

text \<open>\<open>Bootloader::upgradeApp\<close> with this node as the downloader.\<close>

definition upgradeApp :: "'d ICANIface \<Rightarrow> 's backend \<Rightarrow> ('d, 's) loader \<Rightarrow> (int \<times> ('d, 's) loader) option" where
  "upgradeApp iface be ld = do {
     let (ts, ld) = read_clock ld;
     (refused, bl) \<leftarrow> upgradeApp_prepare be ts (bootloader_ref (this_node ld));
     let ld = with_bootloader bl ld;
     case refused of
       Some code \<Rightarrow> Some (code, ld)
     | None \<Rightarrow> do {
         (res, ld, offset) \<leftarrow> download iface (bootloader_sink be) ld 0;
         let (ts, ld) = read_clock ld;
         (code, bl) \<leftarrow> upgradeApp_finish be ts (bootloader_ref (this_node ld)) res;
         Some (code, with_bootloader bl ld)
       }
   }"

section \<open>The thread\<close>

partial_function (option) await_server :: "'d ICANIface \<Rightarrow> ('d, 's) loader \<Rightarrow> ('d, 's) loader option" where
  "await_server iface ld =
     (let (reboot, ld) = isRebootRequested ld
      in if \<not> reboot \<and> remote_server_node_id (this_node ld) = 0
         then do { ld \<leftarrow> poll_node iface ld; await_server iface ld }
         else Some ld)"

text \<open>What the node reports after an upgrade.\<close>

definition report_result :: "int \<Rightarrow> ('d, 's) loader \<Rightarrow> ('d, 's) loader option" where
  "report_result result ld =
     (if result \<ge> 0 then do {
        let ld = ld\<lparr>this_node := (this_node ld)\<lparr>vendor_specific_status := 0\<rparr>\<rparr>;
        let (st, nd) = bootloader_getState (this_node ld);
        let ld = ld\<lparr>this_node := nd\<rparr>;
        if st = NoAppToBoot then sendLog Error invalid_image_text ld else sendLog Info ok_text ld
      }
      else do {
        let ld = ld\<lparr>this_node := (this_node ld)\<lparr>vendor_specific_status := word_of_int (abs result)\<rparr>\<rparr>;
        number \<leftarrow> intToString 11 result;
        sendLog Error (heapless_string 200 (upgrade_error_text @ number)) ld
      })"

definition serve_update :: "'d ICANIface \<Rightarrow> 's backend \<Rightarrow> ('d, 's) loader \<Rightarrow> ('d, 's) loader option" where
  "serve_update iface be ld = do {
     (result, ld) \<leftarrow> upgradeApp iface be ld;
     ld \<leftarrow> announce ld;
     ld \<leftarrow> report_result result ld;
     Some (ld\<lparr>this_node := (this_node ld)\<lparr>remote_server_node_id := 0, firmware_file_path := []\<rparr>\<rparr>)
   }"

partial_function (option) update_loop :: "'d ICANIface \<Rightarrow> 's backend \<Rightarrow> ('d, 's) loader \<Rightarrow> ('d, 's) loader option" where
  "update_loop iface be ld =
     (let (reboot, ld) = isRebootRequested ld
      in if reboot then Some ld
         else do {
           canard_assert (confirmed_local_node_id ld > 0 \<and> canardGetLocalNodeID (the_canard ld) > 0);
           ld \<leftarrow> (if remote_server_node_id (this_node ld) = 0 then await_server iface ld else Some ld);
           let (reboot, ld) = isRebootRequested ld;
           if reboot then Some ld
           else do {
             ld \<leftarrow> serve_update iface be ld;
             update_loop iface be ld
           }
         })"

definition service_filter :: "u8 \<Rightarrow> AcceptanceFilterConfig" where
  "service_filter nid =
     \<lparr>filter_id = 0x80 OR push_bit 8 (ucast nid) OR CANARD_CAN_FRAME_EFF,
      filter_mask = 0x7F80 OR CANARD_CAN_FRAME_EFF OR CANARD_CAN_FRAME_RTR OR CANARD_CAN_FRAME_ERR\<rparr>"

definition main :: "'d ICANIface \<Rightarrow> 's backend \<Rightarrow> ('d, 's) loader \<Rightarrow> ('d, 's) loader option" where
  "main iface be ld = do {
     ld \<leftarrow> (if can_bus_bit_rate ld = 0 then performCANBitRateDetection iface ld else Some ld);
     let (reboot, ld) = isRebootRequested ld;
     if reboot then Some ld
     else do {
       ld \<leftarrow> (if canardGetLocalNodeID (the_canard ld) = 0 then performDynamicNodeIDAllocation iface ld else Some ld);
       let (reboot, ld) = isRebootRequested ld;
       if reboot then Some ld
       else do {
         let ld = ld\<lparr>confirmed_local_node_id := canardGetLocalNodeID (the_canard ld)\<rparr>;
         ld \<leftarrow> init_until iface Normal (service_filter (confirmed_local_node_id ld)) ld;
         let ld = ld\<lparr>this_node := (this_node ld)\<lparr>init_done := True\<rparr>\<rparr>;
         update_loop iface be ld
       }
     }
   }"

text \<open>
  \<open>start\<close>, which the thread that creates the node calls: the memory pool has 8192 bytes, and the
  reference to the node is not a number that matters here.
\<close>

definition start_node ::
  "u32 \<Rightarrow> u8 \<Rightarrow> u8 \<Rightarrow> u8 list \<Rightarrow> ('d, 's) loader \<Rightarrow> ('d, 's) loader option" where
  "start_node bit_rate nid server path ld = do {
     let ld = ld\<lparr>can_bus_bit_rate := bit_rate\<rparr>;
     let ld = (if server \<ge> CANARD_MIN_NODE_ID \<and> server \<le> CANARD_MAX_NODE_ID
               then ld\<lparr>this_node := (this_node ld)\<lparr>remote_server_node_id := server,
                        firmware_file_path := heapless_string 200 path\<rparr>\<rparr> else ld);
     let ld = ld\<lparr>the_canard := canardInit 8192 0\<rparr>;
     if nid \<ge> CANARD_MIN_NODE_ID \<and> nid \<le> CANARD_MAX_NODE_ID then do {
       canard \<leftarrow> canardSetLocalNodeID (the_canard ld) nid;
       Some (ld\<lparr>the_canard := canard\<rparr>)
     } else Some ld
   }"

end
