(* ===== verification/Loader_Tasks_Inv.thy ===== *)
theory Loader_Tasks_Inv
  imports Loader_Tasks
begin

text \<open>
  Properties of the thread: the bit rate of a living bus is found, the requests for a node identifier
  carry the right part of the unique identifier, and a download writes every chunk where it asked for it.
\<close>

section \<open>Bit rate detection\<close>

lemma timestamp_keeps [simp]:
  "can_bus_bit_rate (snd (timestamp ld)) = can_bus_bit_rate ld" "the_canard (snd (timestamp ld)) = the_canard ld"
  "reboot_signals (snd (timestamp ld)) = reboot_signals ld" "iface_state (snd (timestamp ld)) = iface_state ld"
  by (simp_all add: timestamp_def split_beta)

lemma timestamp_node [simp]:
  "reboot_requested (this_node (snd (timestamp ld))) = reboot_requested (this_node ld)"
  by (simp add: timestamp_def getMonotonicTimestampUSec_def now_def split_beta Let_def)

lemma standard_rate_at: "i < 5 \<Longrightarrow> nth_opt StandardBitRates i = Some (StandardBitRates ! i)"
  by (simp add: nth_opt_def StandardBitRates_def)

lemma length_standard_rates: "length StandardBitRates = 5"
  by (simp add: StandardBitRates_def)

lemma standard_rates_nonzero: "j < 5 \<Longrightarrow> StandardBitRates ! j \<noteq> 0"
proof -
  assume "j < 5"
  then have "StandardBitRates ! j \<in> set StandardBitRates" by (simp add: length_standard_rates)
  moreover have "0 \<notin> set StandardBitRates" by (simp add: StandardBitRates_def)
  ultimately show ?thesis by metis
qed

lemma standard_rates_distinct: "i < 5 \<Longrightarrow> j < 5 \<Longrightarrow> StandardBitRates ! i = StandardBitRates ! j \<longleftrightarrow> i = j"
  using nth_eq_iff_index_eq [of StandardBitRates i j] by (simp add: StandardBitRates_def)

definition quiet :: "('d, 's) loader \<Rightarrow> bool" where
  "quiet ld \<longleftrightarrow> \<not> reboot_requested (this_node ld) \<and> (\<forall>n. \<not> reboot_signals ld n)"

lemma try_wrong_rate:
  assumes "\<And>b f d. \<exists>d'. iface_init iface b Silent f d = (0, d') \<and> tuned d' = b"
    and "\<And>t d. \<exists>r f d'. iface_receive iface t d = ((r, f), d') \<and> 0 \<le> r \<and> (0 < r \<longleftrightarrow> tuned d = rate)"
    and "quiet ld"
  shows "quiet (try_bit_rate iface br ld)"
    and "can_bus_bit_rate (try_bit_rate iface br ld) = (if br = rate then br else can_bus_bit_rate ld)"
proof -
  obtain d1 where d1: "iface_init iface br Silent accept_all (iface_state ld) = (0, d1)" "tuned d1 = br" using assms(1) by blast
  obtain r f d2 where d2: "iface_receive iface 1100 d1 = ((r, f), d2)" "0 \<le> r" "0 < r \<longleftrightarrow> br = rate"
    using assms(2) [of 1100 d1] d1(2) by auto
  have "try_bit_rate iface br ld =
      (if br = rate then ld\<lparr>iface_state := d2, can_bus_bit_rate := br\<rparr> else ld\<lparr>iface_state := d2\<rparr>)"
    using d1 d2 by (auto simp: try_bit_rate_def initCAN_def receive_frame_def)
  then show "quiet (try_bit_rate iface br ld)"
    and "can_bus_bit_rate (try_bit_rate iface br ld) = (if br = rate then br else can_bus_bit_rate ld)"
    using assms(3) by (simp_all add: quiet_def)
qed

lemma detection_continues:
  assumes "quiet ld"
  shows "detection_loop iface i ld =
    (if can_bus_bit_rate ld = 0 then do {
       br \<leftarrow> nth_opt StandardBitRates i;
       detection_loop iface ((i + 1) mod 5) (try_bit_rate iface br (snd (isRebootRequested ld)))
     } else Some (snd (isRebootRequested ld)))"
  using assms by (subst detection_loop.simps) (simp add: isRebootRequested_def quiet_def StandardBitRates_def)

lemma isRebootRequested_keeps [simp]:
  "quiet (snd (isRebootRequested ld)) = quiet ld" "can_bus_bit_rate (snd (isRebootRequested ld)) = can_bus_bit_rate ld"
  by (simp_all add: isRebootRequested_def quiet_def)

lemma detection_reaches:
  assumes bus: "\<And>b f d. \<exists>d'. iface_init iface b Silent f d = (0, d') \<and> tuned d' = b"
      "\<And>t d. \<exists>r f d'. iface_receive iface t d = ((r, f), d') \<and> 0 \<le> r \<and> (0 < r \<longleftrightarrow> tuned d = StandardBitRates ! j)"
    and j: "j < 5"
  shows "i \<le> j \<Longrightarrow> quiet ld \<Longrightarrow> can_bus_bit_rate ld = 0 \<Longrightarrow>
    \<exists>ld'. detection_loop iface i ld = Some ld' \<and> can_bus_bit_rate ld' = StandardBitRates ! j"
proof (induction "j - i" arbitrary: i ld)
  case 0
  then have i: "i = j" by simp
  let ?ld1 = "try_bit_rate iface (StandardBitRates ! j) (snd (isRebootRequested ld))"
  have q: "quiet ?ld1" "can_bus_bit_rate ?ld1 = StandardBitRates ! j"
    using try_wrong_rate [OF bus, of "snd (isRebootRequested ld)"] 0 by simp_all
  have "StandardBitRates ! j \<noteq> 0" by (rule standard_rates_nonzero [OF j])
  with q 0 i j show ?case
    by (simp add: detection_continues [of ld] standard_rate_at) (simp add: detection_continues [of ?ld1])
next
  case (Suc k)
  then have i: "i < j" "i < 5" "StandardBitRates ! i \<noteq> StandardBitRates ! j"
    using j standard_rates_distinct [of i j] by auto
  let ?ld1 = "try_bit_rate iface (StandardBitRates ! i) (snd (isRebootRequested ld))"
  have q: "quiet ?ld1" "can_bus_bit_rate ?ld1 = 0"
    using try_wrong_rate [OF bus, of "snd (isRebootRequested ld)"] Suc.prems i by simp_all
  have "(i + 1) mod 5 = Suc i" using i j by simp
  with Suc.hyps(1) [of "Suc i" ?ld1] Suc.hyps(2) i q Suc.prems show ?case
    by (simp add: detection_continues [of ld] standard_rate_at)
qed


definition demo_iface :: "u32 ICANIface" where
  "demo_iface =
     \<lparr>iface_init = (\<lambda>b m f d. (0, b)), iface_send = (\<lambda>f t d. (1, d)),
      iface_receive = (\<lambda>t d. ((if d = 125000 then 1 else 0, demo_request), d))\<rparr>"

definition demo_task :: "(u32, memory) loader" where
  "demo_task =
     \<lparr>iface_state = 0, this_node = demo_loader, the_canard = demo_node\<lparr>node_id := 0\<rparr>, can_bus_bit_rate = 0,
      confirmed_local_node_id = 0, node_id_allocation_transfer_id = 0, log_message_transfer_id = 0,
      reboot_signals = (\<lambda>_. False), reboot_reads = 0\<rparr>"


section \<open>Allocation requests\<close>

lemma allocation_request:
  assumes "length (unique_id (hw_info nd)) = 16" and "unat (node_id_allocation_unique_id_offset nd) < 16"
  shows "\<exists>n. make_allocation_request nd =
      Some ((if node_id_allocation_unique_id_offset nd = 0 then 1 else 0) #
              take 6 (drop (unat (node_id_allocation_unique_id_offset nd)) (unique_id (hw_info nd))) @
              replicate (6 - (16 - unat (node_id_allocation_unique_id_offset nd))) 0, n) \<and>
    unat n = Suc (min 6 (16 - unat (node_id_allocation_unique_id_offset nd)))"
proof -
  define off where "off = node_id_allocation_unique_id_offset nd"
  define uid where "uid = unique_id (hw_info nd)"
  define k where "k = (if 16 - off > 6 then 6 else 16 - off :: u8)"
  have off: "unat off < 16" "length uid = 16" using assms by (simp_all add: off_def uid_def)
  then have le: "off \<le> 16" by (simp add: word_le_nat_alt)
  have s: "unat (16 - off) = 16 - unat off" using unat_sub [OF le] by simp
  have k: "unat k = min 6 (16 - unat off)" using s by (auto simp: k_def word_less_nat_alt)
  have k1: "k \<le> 6" "0 < k" "unat k + unat off \<le> 16" using k off by (simp_all add: word_le_nat_alt word_less_nat_alt)
  define flags where "flags = (if off = 0 then 1 else 0 :: u8)"
  have req: "(if off = 0 then (replicate 7 0)[0 := replicate 7 0 ! 0 OR 1] else replicate 7 (0 :: u8)) = flags # replicate 6 0"
    by (simp add: flags_def numeral_eq_Suc)
  have put: "put_bytes (flags # replicate 6 0) 1 (drop (unat off) uid) (unat k) =
      Some (flags # take 6 (drop (unat off) uid) @ replicate (6 - (16 - unat off)) 0)"
    using k off by (auto simp: put_bytes_def min_def)
  have n: "unat (ucast k + 1 :: u16) = Suc (unat k)"
    using k by (simp add: unat_word_ariths unat_ucast_small)
  show ?thesis
    using off k1 n put [simplified k, simplified]
    by (simp add: make_allocation_request_def Let_def off_def [symmetric] uid_def [symmetric] req
        k_def [symmetric] flags_def [symmetric] k)
qed

text \<open>
  C39. A request for a node identifier: as long as the part of the unique identifier that the allocator
  has confirmed is not the whole of it, no assertion fails and the copy stays inside of its arrays. An
  anonymous frame is queued with the next six bytes or what is left, marked as the first part if nothing
  is confirmed, and the next request starts from the beginning again.
\<close>

theorem allocation_request_sends_unique_id:
  assumes "canard_inv (the_canard ld) L h" and "node_id (the_canard ld) = 0"
    and "length (unique_id (hw_info (this_node ld))) = 16"
    and "node_id_allocation_unique_id_offset (this_node ld) = off" and "unat off < 16"
    and "payload = (if off = 0 then 1 else 0) # take 6 (drop (unat off) (unique_id (hw_info (this_node ld))))"
  shows "returns (send_allocation_request ld) (\<lambda>ld'. node_id_allocation_unique_id_offset (this_node ld') = 0 \<and>
    canard_inv (the_canard ld')
      (lay_enqueue (transfer_frames (anonymous_can_id 24 (crcAdd 0xFFFF payload AND 0x7FFE) 1 0)
         (node_id_allocation_transfer_id ld) (transfer_crc 0x0b2a812620a11d40 payload) payload) L) h)"
proof -
  let ?nd = "this_node ld"
  obtain n where n: "make_allocation_request ?nd = Some (payload @ replicate (6 - (16 - unat off)) 0, n)"
      "unat n = Suc (min 6 (16 - unat off))"
    using allocation_request [of ?nd] assms(3-6) by auto
  let ?r = "payload @ replicate (6 - (16 - unat off)) 0"
  have lp: "length payload = unat n" using n(2) assms(3,6) by (simp add: min.commute)
  have cp: "call_payload (Some ?r) n = payload" using lp by simp
  have le: "unat n \<le> 7" using n(2) by simp
  have ok: "broadcast_error (node_id (the_canard ld)) 1 24 (Some ?r) n = None"
    using le assms(2) by (simp add: broadcast_error_def word_less_nat_alt)
  have len: "unat n \<le> length (payload_bytes (Some ?r))" using lp by simp
  from canardBroadcast_correct [OF assms(1) len ok refl, where tid = "node_id_allocation_transfer_id ld"
      and signature = "0x0b2a812620a11d40"]
  show ?thesis
    using n(1) assms(2) unfolding cp
    by (auto simp: send_allocation_request_def NodeIDAllocation_def broadcast_id_def)
qed

theorem allocation_request_sends_unique_id_witness:
  "returns (send_allocation_request demo_task) (\<lambda>ld'. node_id_allocation_unique_id_offset (this_node ld') = 0)"
proof -
  have "canard_inv (the_canard demo_task) (fresh_layout 4) None"
    using demo_node_layout by (simp add: demo_task_def canard_inv_def Let_def)
  then show ?thesis
    by (rule returns_mono [OF allocation_request_sends_unique_id [OF _ _ _ refl _ refl]])
       (simp_all add: demo_task_def demo_loader_def)
qed

text \<open>The three requests of an allocation carry the whole unique identifier.\<close>

lemma three_requests: "length uid = 16 \<Longrightarrow> take 6 (drop 0 uid) @ take 6 (drop 6 uid) @ take 6 (drop 12 uid) = uid"
  using append_take_drop_id [of 6 uid] append_take_drop_id [of 6 "drop 6 uid"] by simp

section \<open>Download\<close>

lemma sink_goes_on:
  assumes "handleNextDataChunk be bl k data n = Some (res, k', bl')" and "\<not> res < 0"
  shows "k' = k + n \<and> (\<exists>s. backend_write be (bl_storage bl) k data n = Some (res, s) \<and> bl_storage bl' = s) \<and> res = sint n"
  using assms by (auto simp: handleNextDataChunk_def Let_def split: if_splits)

lemma mod_nested: "(x mod 18446744073709551616) mod 4294967296 = (x mod 4294967296 :: int)"
  by (rule mod_mod_cancel) simp

lemma ucast_add_of_int: "ucast (a + word_of_int r :: u64) = (ucast a + word_of_int r :: u32)"
proof -
  have c: "ucast w = (word_of_int (uint w) :: u32)" for w :: u64 by (simp only: ucast_eq)
  have n: "word_of_int (x mod 18446744073709551616) = (word_of_int x :: u32)" for x
    by (rule word_uint_eqI) (simp add: uint_word_of_int mod_nested)
  have "uint (a + word_of_int r) = (uint a + r) mod 18446744073709551616"
    by (simp add: uint_word_ariths uint_word_of_int mod_simps)
  then show ?thesis by (simp only: c n wi_hom_add)
qed

lemma store_response_outcome:
  assumes "store_response iface (bootloader_sink be) offset deadline ld k = Some (Inr (offset', deadline', ld', k'))"
    and "ucast offset = k"
  shows "ucast offset' = k' \<and> offset' = offset + word_of_int (read_result (this_node ld)) \<and>
    (\<exists>storage. backend_write be (bl_storage (bootloader_ref (this_node ld))) (ucast offset)
       (read_buffer (this_node ld)) (word_of_int (read_result (this_node ld))) =
       Some (sint (word_of_int (read_result (this_node ld)) :: u32), storage))"
proof -
  let ?bl = "bootloader_ref (this_node ld)" and ?n = "word_of_int (read_result (this_node ld)) :: u32"
  obtain res bl' where h: "handleNextDataChunk be ?bl k (read_buffer (this_node ld)) ?n = Some (res, k', bl')" "\<not> res < 0"
      "offset' = offset + word_of_int (read_result (this_node ld))"
    using assms(1) by (fastforce simp: store_response_def bootloader_sink_def Let_def split_beta split: if_splits)
  from sink_goes_on [OF h(1,2)] assms(2) have "k' = ucast offset + ?n"
      "\<exists>s. backend_write be (bl_storage ?bl) (ucast offset) (read_buffer (this_node ld)) ?n = Some (sint ?n, s)" by auto
  then show ?thesis unfolding h(3) ucast_add_of_int by simp
qed


text \<open>A task with a response of three bytes, whose clock advances by a tenth of a second per reading.\<close>

definition demo_download :: "(u32, memory) loader" where
  "demo_download = demo_task\<lparr>can_bus_bit_rate := 1000000, this_node := demo_loader\<lparr>read_result := 3,
     systime := (\<lambda>n. of_nat (1000 * n))\<rparr>\<rparr>"

definition demo_sink :: "u32 \<Rightarrow> memory node \<Rightarrow> u8 list \<Rightarrow> u32 \<Rightarrow> (int \<times> u32 \<times> memory node) option" where
  "demo_sink = bootloader_sink (sample_backend\<lparr>backend_write := (\<lambda>s off data n. Some (sint n, s))\<rparr>)"


end
