(* ===== verification/Bxcan.thy ===== *)
theory Bxcan
  imports Canard_Publish
begin

text \<open>
  The bxCAN driver of libcanard (\<open>drivers/stm32/canard_stm32.c\<close>, \<open>canard_stm32.h\<close>, \<open>_internal_bxcan.h\<close>),
  configured for CAN1. The macrocell is memory with a mind of its own: a register file, and a record of
  functions that say what storing to a register does and what may happen while a millisecond passes.
  Between two accesses of the same call nothing else changes the registers.
\<close>

section \<open>Registers\<close>

text \<open>The members of \<open>CanardSTM32CANType\<close>, arrays with their index.\<close>

datatype reg =
  MCR | MSR | TSR | RF0R | RF1R | IER | ESR | BTR
| TIR nat | TDTR nat | TDLR nat | TDHR nat
| RIR nat | RDTR nat | RDLR nat | RDHR nat
| FMR | FM1R | FS1R | FFA1R | FA1R
| FR1 nat | FR2 nat

type_synonym CanardSTM32CANType = "reg \<Rightarrow> u32"

record bxcan =
  store :: "reg \<Rightarrow> u32 \<Rightarrow> CanardSTM32CANType \<Rightarrow> CanardSTM32CANType"
  millisecond :: "CanardSTM32CANType \<Rightarrow> CanardSTM32CANType"

abbreviation (input) MCR_INRQ :: u32 where "MCR_INRQ \<equiv> push_bit 0 1"
abbreviation (input) MCR_SLEEP :: u32 where "MCR_SLEEP \<equiv> push_bit 1 1"
abbreviation (input) MCR_AWUM :: u32 where "MCR_AWUM \<equiv> push_bit 5 1"
abbreviation (input) MCR_ABOM :: u32 where "MCR_ABOM \<equiv> push_bit 6 1"
abbreviation (input) MCR_RESET :: u32 where "MCR_RESET \<equiv> push_bit 15 1"
abbreviation (input) MSR_INAK :: u32 where "MSR_INAK \<equiv> push_bit 0 1"
abbreviation (input) TSR_ABRQ0 :: u32 where "TSR_ABRQ0 \<equiv> push_bit 7 1"
abbreviation (input) TSR_ABRQ1 :: u32 where "TSR_ABRQ1 \<equiv> push_bit 15 1"
abbreviation (input) TSR_ABRQ2 :: u32 where "TSR_ABRQ2 \<equiv> push_bit 23 1"
abbreviation (input) TSR_TME0 :: u32 where "TSR_TME0 \<equiv> push_bit 26 1"
abbreviation (input) TSR_TME1 :: u32 where "TSR_TME1 \<equiv> push_bit 27 1"
abbreviation (input) TSR_TME2 :: u32 where "TSR_TME2 \<equiv> push_bit 28 1"
abbreviation (input) RFR_FMP_MASK :: u32 where "RFR_FMP_MASK \<equiv> 3"
abbreviation (input) RFR_FULL :: u32 where "RFR_FULL \<equiv> push_bit 3 1"
abbreviation (input) RFR_FOVR :: u32 where "RFR_FOVR \<equiv> push_bit 4 1"
abbreviation (input) RFR_RFOM :: u32 where "RFR_RFOM \<equiv> push_bit 5 1"
abbreviation (input) ESR_BOFF :: u32 where "ESR_BOFF \<equiv> push_bit 2 1"
abbreviation (input) ESR_LEC_SHIFT :: nat where "ESR_LEC_SHIFT \<equiv> 4"
abbreviation (input) ESR_LEC_MASK :: u32 where "ESR_LEC_MASK \<equiv> push_bit ESR_LEC_SHIFT 7"
abbreviation (input) BTR_SILM :: u32 where "BTR_SILM \<equiv> push_bit 31 1"
abbreviation (input) TIR_TXRQ :: u32 where "TIR_TXRQ \<equiv> push_bit 0 1"
abbreviation (input) TIR_RTR :: u32 where "TIR_RTR \<equiv> push_bit 1 1"
abbreviation (input) TIR_IDE :: u32 where "TIR_IDE \<equiv> push_bit 2 1"
abbreviation (input) RIR_RTR :: u32 where "RIR_RTR \<equiv> push_bit 1 1"
abbreviation (input) RIR_IDE :: u32 where "RIR_IDE \<equiv> push_bit 2 1"
abbreviation (input) RDTR_DLC_MASK :: u32 where "RDTR_DLC_MASK \<equiv> 0x0F"
abbreviation (input) FMR_FINIT :: u32 where "FMR_FINIT \<equiv> push_bit 0 1"

section \<open>Types and state of the driver\<close>

abbreviation (input) CANARD_STM32_ERROR_UNSUPPORTED_BIT_RATE :: int where
  "CANARD_STM32_ERROR_UNSUPPORTED_BIT_RATE \<equiv> 1000"
abbreviation (input) CANARD_STM32_ERROR_MSR_INAK_NOT_SET :: int where
  "CANARD_STM32_ERROR_MSR_INAK_NOT_SET \<equiv> 1001"
abbreviation (input) CANARD_STM32_ERROR_MSR_INAK_NOT_CLEARED :: int where
  "CANARD_STM32_ERROR_MSR_INAK_NOT_CLEARED \<equiv> 1002"
abbreviation (input) CANARD_STM32_ERROR_UNSUPPORTED_FRAME_FORMAT :: int where
  "CANARD_STM32_ERROR_UNSUPPORTED_FRAME_FORMAT \<equiv> 1003"
abbreviation (input) CANARD_STM32_NUM_ACCEPTANCE_FILTERS :: nat where
  "CANARD_STM32_NUM_ACCEPTANCE_FILTERS \<equiv> 14"
abbreviation (input) CANARD_CAN_STD_ID_MASK :: u32 where "CANARD_CAN_STD_ID_MASK \<equiv> 0x7FF"

datatype CanardSTM32IfaceMode =
  CanardSTM32IfaceModeNormal
| CanardSTM32IfaceModeSilent
| CanardSTM32IfaceModeAutomaticTxAbortOnError

record CanardSTM32Stats =
  rx_overflow_count :: u64
  error_count :: u64

record CanardSTM32AcceptanceFilterConfiguration =
  filter_id :: u32
  filter_mask :: u32

record CanardSTM32CANTimings =
  bit_rate_prescaler :: u16
  bit_segment_1 :: u8
  bit_segment_2 :: u8
  max_resynchronization_jump_width :: u8

record can_driver =
  can :: CanardSTM32CANType
  g_stats :: CanardSTM32Stats
  g_abort_tx_on_error :: bool

text \<open>\<open>BXCAN->r = v\<close>\<close>

definition write_reg :: "bxcan \<Rightarrow> reg \<Rightarrow> u32 \<Rightarrow> can_driver \<Rightarrow> can_driver" where
  "write_reg hw r v d = d\<lparr>can := store hw r v (can d)\<rparr>"

section \<open>Identifiers\<close>

definition isFramePriorityHigher :: "u32 \<Rightarrow> u32 \<Rightarrow> bool" where
  "isFramePriorityHigher a b =
     (let clean_a = a AND CANARD_CAN_EXT_ID_MASK;
          clean_b = b AND CANARD_CAN_EXT_ID_MASK;
          ext_a = (a AND CANARD_CAN_FRAME_EFF \<noteq> 0);
          ext_b = (b AND CANARD_CAN_FRAME_EFF \<noteq> 0)
      in if ext_a \<noteq> ext_b then
           let arb11_a = (if ext_a then drop_bit 18 clean_a else clean_a);
               arb11_b = (if ext_b then drop_bit 18 clean_b else clean_b)
           in if arb11_a \<noteq> arb11_b then arb11_a < arb11_b else ext_b
         else
           let rtr_a = (a AND CANARD_CAN_FRAME_RTR \<noteq> 0);
               rtr_b = (b AND CANARD_CAN_FRAME_RTR \<noteq> 0)
           in if clean_a = clean_b \<and> rtr_a \<noteq> rtr_b then rtr_b
              else clean_a < clean_b)"

definition convertFrameIDCanardToRegister :: "u32 \<Rightarrow> u32" where
  "convertFrameIDCanardToRegister i =
     (let out = (if i AND CANARD_CAN_FRAME_EFF \<noteq> 0
                 then push_bit 3 (i AND CANARD_CAN_EXT_ID_MASK) OR TIR_IDE
                 else push_bit 21 (i AND CANARD_CAN_STD_ID_MASK))
      in if i AND CANARD_CAN_FRAME_RTR \<noteq> 0 then out OR TIR_RTR else out)"

definition convertFrameIDRegisterToCanard :: "u32 \<Rightarrow> u32" where
  "convertFrameIDRegisterToCanard i =
     (let out = (if i AND RIR_IDE = 0 then CANARD_CAN_STD_ID_MASK AND drop_bit 21 i
                 else (CANARD_CAN_EXT_ID_MASK AND drop_bit 3 i) OR CANARD_CAN_FRAME_EFF)
      in if i AND RIR_RTR \<noteq> 0 then out OR CANARD_CAN_FRAME_RTR else out)"

section \<open>Waiting and errors\<close>

text \<open>\<open>n\<close> is what is left of \<open>TimeoutMilliseconds\<close>.\<close>

fun waitMSR_loop :: "bxcan \<Rightarrow> bool \<Rightarrow> nat \<Rightarrow> can_driver \<Rightarrow> bool \<times> can_driver" where
  "waitMSR_loop hw target_state 0 d = (False, d)"
| "waitMSR_loop hw target_state (Suc n) d =
     (let state = (can d MSR AND MSR_INAK \<noteq> 0)
      in if state = target_state then (True, d)
         else waitMSR_loop hw target_state n (d\<lparr>can := millisecond hw (can d)\<rparr>))"

definition waitMSRINAKBitStateChange :: "bxcan \<Rightarrow> bool \<Rightarrow> can_driver \<Rightarrow> bool \<times> can_driver" where
  "waitMSRINAKBitStateChange hw target_state d = waitMSR_loop hw target_state 1000 d"

definition processErrorStatus :: "bxcan \<Rightarrow> can_driver \<Rightarrow> can_driver" where
  "processErrorStatus hw d =
     (let lec = (ucast (drop_bit ESR_LEC_SHIFT (can d ESR AND ESR_LEC_MASK)) :: u8)
      in if lec \<noteq> 0 then
           let d = write_reg hw ESR 0 d;
               d = d\<lparr>g_stats := g_stats d\<lparr>error_count := error_count (g_stats d) + 1\<rparr>\<rparr>
           in if g_abort_tx_on_error d \<or> can d ESR AND ESR_BOFF \<noteq> 0
              then write_reg hw TSR (TSR_ABRQ0 OR TSR_ABRQ1 OR TSR_ABRQ2) d
              else d
         else d)"

section \<open>Initialization\<close>

definition timings_valid :: "CanardSTM32CANTimings \<Rightarrow> bool" where
  "timings_valid timings \<longleftrightarrow>
     \<not> (bit_rate_prescaler timings < 1 \<or> bit_rate_prescaler timings > 1024 \<or>
        max_resynchronization_jump_width timings < 1 \<or> max_resynchronization_jump_width timings > 4 \<or>
        bit_segment_1 timings < 1 \<or> bit_segment_1 timings > 16 \<or>
        bit_segment_2 timings < 1 \<or> bit_segment_2 timings > 8)"

definition btr_value :: "CanardSTM32CANTimings \<Rightarrow> CanardSTM32IfaceMode \<Rightarrow> u32" where
  "btr_value timings iface_mode =
     push_bit 24 (ucast (max_resynchronization_jump_width timings) - 1 AND 3) OR
     push_bit 16 (ucast (bit_segment_1 timings) - 1 AND 15) OR
     push_bit 20 (ucast (bit_segment_2 timings) - 1 AND 7) OR
     (ucast (bit_rate_prescaler timings) - 1 AND 1023) OR
     (if iface_mode = CanardSTM32IfaceModeSilent then BTR_SILM else 0)"

text \<open>The part after the synchronization: filters and the return.\<close>

definition init_filters :: "bxcan \<Rightarrow> can_driver \<Rightarrow> (int \<times> can_driver) option" where
  "init_filters hw d = do {
     let fmr = can d FMR AND 0xFFFFC0F1;
     let fmr = fmr OR push_bit 8 (of_nat CANARD_STM32_NUM_ACCEPTANCE_FILTERS);
     let d = write_reg hw FMR (fmr OR FMR_FINIT) d;
     canard_assert (drop_bit 8 (can d FMR) AND 0x3F = of_nat CANARD_STM32_NUM_ACCEPTANCE_FILTERS);
     let d = write_reg hw FM1R 0 d;
     let d = write_reg hw FS1R 0x0FFFFFFF d;
     let d = write_reg hw FFA1R 0x0AAAAAAA d;
     let d = write_reg hw (FR1 0) 0 d;
     let d = write_reg hw (FR2 0) 0 d;
     let d = write_reg hw FA1R 1 d;
     let d = write_reg hw FMR (can d FMR AND NOT FMR_FINIT) d;
     Some (0, d)
   }"

text \<open>\<open>iface_mode\<close> has one of the values of its type here, so the first check always passes.\<close>

definition canardSTM32Init ::
  "bxcan \<Rightarrow> CanardSTM32CANTimings option \<Rightarrow> CanardSTM32IfaceMode \<Rightarrow> can_driver \<Rightarrow> (int \<times> can_driver) option" where
  "canardSTM32Init hw timings iface_mode d =
     (case timings of
        None \<Rightarrow> Some (- CANARD_ERROR_INVALID_ARGUMENT, d)
      | Some timings \<Rightarrow>
          if \<not> timings_valid timings then Some (- CANARD_ERROR_INVALID_ARGUMENT, d)
          else do {
            let d = d\<lparr>g_stats := \<lparr>rx_overflow_count = 0, error_count = 0\<rparr>,
                      g_abort_tx_on_error := (iface_mode = CanardSTM32IfaceModeAutomaticTxAbortOnError)\<rparr>;
            let d = write_reg hw IER 0 d;
            let d = write_reg hw MCR (can d MCR AND NOT MCR_SLEEP) d;
            let d = write_reg hw MCR (can d MCR OR MCR_INRQ) d;
            let (ok, d) = waitMSRINAKBitStateChange hw True d;
            if \<not> ok then Some (- CANARD_STM32_ERROR_MSR_INAK_NOT_SET, write_reg hw MCR MCR_RESET d)
            else do {
              let d = write_reg hw MCR (MCR_ABOM OR MCR_AWUM OR MCR_INRQ) d;
              let d = write_reg hw BTR (btr_value timings iface_mode) d;
              canard_assert (can d IER = 0);
              let d = write_reg hw MCR (can d MCR AND NOT MCR_INRQ) d;
              let (ok, d) = waitMSRINAKBitStateChange hw False d;
              if \<not> ok then Some (- CANARD_STM32_ERROR_MSR_INAK_NOT_CLEARED, write_reg hw MCR MCR_RESET d)
              else init_filters hw d
            }
          })"

section \<open>Transmission\<close>

text \<open>
  The search for a mailbox: \<open>None\<close> is the return because a pending frame would be overtaken, \<open>Some\<close>
  holds \<open>tx_mailbox\<close>, \<open>0xFF\<close> if no mailbox is free.
\<close>

definition tme :: "can_driver \<Rightarrow> nat \<Rightarrow> bool" where
  "tme d i \<longleftrightarrow> can d TSR AND [TSR_TME0, TSR_TME1, TSR_TME2] ! i \<noteq> 0"

fun seek_mailbox :: "can_driver \<Rightarrow> u32 \<Rightarrow> nat list \<Rightarrow> u8 \<Rightarrow> u8 option" where
  "seek_mailbox d i [] tx_mailbox = Some tx_mailbox"
| "seek_mailbox d i (m # ms) tx_mailbox =
     (if tme d m then seek_mailbox d i ms (of_nat m)
      else if \<not> isFramePriorityHigher i (convertFrameIDRegisterToCanard (can d (TIR m))) then None
      else seek_mailbox d i ms tx_mailbox)"

text \<open>Four bytes of a frame as a little-endian register.\<close>

definition data_register :: "u8 list \<Rightarrow> nat \<Rightarrow> u32 option" where
  "data_register bs i = do {
     b3 \<leftarrow> nth_opt bs (i + 3);
     b2 \<leftarrow> nth_opt bs (i + 2);
     b1 \<leftarrow> nth_opt bs (i + 1);
     b0 \<leftarrow> nth_opt bs i;
     Some (push_bit 24 (ucast b3) OR push_bit 16 (ucast b2) OR push_bit 8 (ucast b1) OR push_bit 0 (ucast b0))
   }"

definition fill_mailbox :: "bxcan \<Rightarrow> CanardCANFrame \<Rightarrow> nat \<Rightarrow> can_driver \<Rightarrow> can_driver option" where
  "fill_mailbox hw frame m d = do {
     let d = write_reg hw (TDTR m) (ucast (frame_data_len frame)) d;
     high \<leftarrow> data_register (frame_data frame) 4;
     let d = write_reg hw (TDHR m) high d;
     low \<leftarrow> data_register (frame_data frame) 0;
     let d = write_reg hw (TDLR m) low d;
     Some (write_reg hw (TIR m) (convertFrameIDCanardToRegister (frame_id frame) OR TIR_TXRQ) d)
   }"

text \<open>\<open>CANARD_STM32_DEBUG_INNER_PRIORITY_INVERSION\<close> is set, as it is by default.\<close>

definition canardSTM32Transmit ::
  "bxcan \<Rightarrow> CanardCANFrame option \<Rightarrow> can_driver \<Rightarrow> (int \<times> can_driver) option" where
  "canardSTM32Transmit hw frame d =
     (case frame of
        None \<Rightarrow> Some (- CANARD_ERROR_INVALID_ARGUMENT, d)
      | Some frame \<Rightarrow>
          if frame_id frame AND CANARD_CAN_FRAME_ERR \<noteq> 0
          then Some (- CANARD_STM32_ERROR_UNSUPPORTED_FRAME_FORMAT, d)
          else do {
            let d = processErrorStatus hw d;
            let AllTME = TSR_TME0 OR TSR_TME1 OR TSR_TME2;
            let found = (if can d TSR AND AllTME \<noteq> AllTME then seek_mailbox d (frame_id frame) [0, 1, 2] 0xFF
                         else Some 0);
            case found of
              None \<Rightarrow> Some (0, d)
            | Some tx_mailbox \<Rightarrow> do {
                canard_assert (tx_mailbox \<noteq> 0xFF);
                canard_assert (tx_mailbox < 3);
                d \<leftarrow> fill_mailbox hw frame (unat tx_mailbox) d;
                Some (1, d)
              }
          })"

section \<open>Reception\<close>

definition RFxR :: "nat \<Rightarrow> reg" where
  "RFxR i = (if i = 0 then RF0R else RF1R)"

definition register_bytes :: "u32 \<Rightarrow> u8 list" where
  "register_bytes w = [ucast (0xFF AND drop_bit 0 w), ucast (0xFF AND drop_bit 8 w),
     ucast (0xFF AND drop_bit 16 w), ucast (0xFF AND drop_bit 24 w)]"

definition read_fifo :: "bxcan \<Rightarrow> nat \<Rightarrow> can_driver \<Rightarrow> CanardCANFrame \<times> can_driver" where
  "read_fifo hw i d =
     (let d = (if can d (RFxR i) AND RFR_FOVR \<noteq> 0
               then d\<lparr>g_stats := g_stats d\<lparr>rx_overflow_count := rx_overflow_count (g_stats d) + 1\<rparr>\<rparr> else d);
          out_frame = \<lparr>frame_id = convertFrameIDRegisterToCanard (can d (RIR i)),
                       frame_data = register_bytes (can d (RDLR i)) @ register_bytes (can d (RDHR i)),
                       frame_data_len = ucast (can d (RDTR i) AND RDTR_DLC_MASK)\<rparr>
      in (out_frame, write_reg hw (RFxR i) (RFR_RFOM OR RFR_FOVR OR RFR_FULL) d))"

text \<open>\<open>out_frame\<close> is what the caller's frame holds before; \<open>None\<close> is a null pointer.\<close>

definition canardSTM32Receive ::
  "bxcan \<Rightarrow> CanardCANFrame option \<Rightarrow> can_driver \<Rightarrow> int \<times> CanardCANFrame option \<times> can_driver" where
  "canardSTM32Receive hw out_frame d =
     (if out_frame = None then (- CANARD_ERROR_INVALID_ARGUMENT, None, d)
      else
        let d = processErrorStatus hw d
        in if can d (RFxR 0) AND RFR_FMP_MASK \<noteq> 0
             then (let (f, d) = read_fifo hw 0 d in (1, Some f, d))
           else if can d (RFxR 1) AND RFR_FMP_MASK \<noteq> 0
             then (let (f, d) = read_fifo hw 1 d in (1, Some f, d))
           else (0, out_frame, d))"

section \<open>Acceptance filters\<close>

definition filter_registers :: "CanardSTM32AcceptanceFilterConfiguration \<Rightarrow> u32 \<times> u32" where
  "filter_registers cfg =
     (let (fid, fmask) =
            (if filter_id cfg AND CANARD_CAN_FRAME_EFF \<noteq> 0 \<or> filter_mask cfg AND CANARD_CAN_FRAME_EFF = 0
             then (push_bit 3 (filter_id cfg AND CANARD_CAN_EXT_ID_MASK) OR RIR_IDE,
                   push_bit 3 (filter_mask cfg AND CANARD_CAN_EXT_ID_MASK))
             else (push_bit 21 (filter_id cfg AND CANARD_CAN_STD_ID_MASK),
                   push_bit 21 (filter_mask cfg AND CANARD_CAN_STD_ID_MASK)));
          fid = (if filter_id cfg AND CANARD_CAN_FRAME_RTR \<noteq> 0 then fid OR RIR_RTR else fid);
          fmask = (if filter_mask cfg AND CANARD_CAN_FRAME_EFF \<noteq> 0 then fmask OR RIR_IDE else fmask);
          fmask = (if filter_mask cfg AND CANARD_CAN_FRAME_RTR \<noteq> 0 then fmask OR RIR_RTR else fmask)
      in (fid, fmask))"

fun configure_filters ::
  "bxcan \<Rightarrow> nat \<Rightarrow> CanardSTM32AcceptanceFilterConfiguration list \<Rightarrow> can_driver \<Rightarrow> can_driver" where
  "configure_filters hw i [] d = d"
| "configure_filters hw i (cfg # cfgs) d =
     (let (fid, fmask) = filter_registers cfg;
          d = write_reg hw (FR1 i) fid d;
          d = write_reg hw (FR2 i) fmask d;
          d = write_reg hw FA1R (can d FA1R OR push_bit i 1) d
      in configure_filters hw (Suc i) cfgs d)"

definition canardSTM32ConfigureAcceptanceFilters ::
  "bxcan \<Rightarrow> CanardSTM32AcceptanceFilterConfiguration list option \<Rightarrow> can_driver \<Rightarrow> int \<times> can_driver" where
  "canardSTM32ConfigureAcceptanceFilters hw filter_configs d =
     (case filter_configs of
        None \<Rightarrow> (- CANARD_ERROR_INVALID_ARGUMENT, d)
      | Some cfgs \<Rightarrow>
          if length cfgs > CANARD_STM32_NUM_ACCEPTANCE_FILTERS then (- CANARD_ERROR_INVALID_ARGUMENT, d)
          else (0, configure_filters hw 0 cfgs (write_reg hw FA1R 0 d)))"

definition canardSTM32GetStats :: "can_driver \<Rightarrow> CanardSTM32Stats" where
  "canardSTM32GetStats d = g_stats d"

end
