(* ===== verification/Bxcan_Timings.thy ===== *)
theory Bxcan_Timings
  imports Bxcan
begin

text \<open>
  Bit timing of the bxCAN driver: the search of \<open>canardSTM32ComputeCANTimings\<close> (\<open>canard_stm32.h\<close>), what
  its results are worth to \<open>canardSTM32Init\<close>, and the inputs on which its assertions fail.
\<close>

section \<open>The search\<close>

text \<open>
  The loop over \<open>bs1_bs2_sum\<close>; \<open>None\<close> is the return without a solution. Operands of the C type \<open>int\<close> are
  small and not negative everywhere, so that \<open>div\<close> on \<open>int\<close> is the division of C.
\<close>

function quanta_search :: "u32 \<Rightarrow> u8 \<Rightarrow> u8 option" where
  "quanta_search prescaler_bs bs1_bs2_sum =
     (if prescaler_bs mod (1 + ucast bs1_bs2_sum) \<noteq> 0
      then if bs1_bs2_sum \<le> 2 then None else quanta_search prescaler_bs (bs1_bs2_sum - 1)
      else Some bs1_bs2_sum)"
  by pat_completeness auto
termination
proof (relation "measure (\<lambda>(_, s). unat s)")
  fix p :: u32 and s :: u8
  assume "\<not> s \<le> 2"
  then have "s \<noteq> 0" by auto
  then show "((p, s - 1), (p, s)) \<in> measure (\<lambda>(_, s). unat s)"
    by (simp add: unat_minus_one unat_gt_0)
qed simp

declare quanta_search.simps [simp del]

text \<open>\<open>bs1\<close> and \<open>bs2\<close>, first rounded to nearest, then to zero if the sample point is too late.\<close>

definition sample_point_permill :: "u8 \<Rightarrow> u8 \<Rightarrow> int" where
  "sample_point_permill bs1 bs2 = 1000 * (1 + uint bs1) div (1 + uint bs1 + uint bs2)"

definition segments :: "u8 \<Rightarrow> (u8 \<times> u8) option" where
  "segments bs1_bs2_sum = do {
     let bs1 = word_of_int ((7 * uint bs1_bs2_sum - 1 + 4) div 8);
     let bs2 = bs1_bs2_sum - bs1;
     canard_assert (bs1_bs2_sum > bs1);
     if uint (word_of_int (sample_point_permill bs1 bs2) :: u16) > 900
     then (let bs1 = word_of_int ((7 * uint bs1_bs2_sum - 1) div 8) in Some (bs1, bs1_bs2_sum - bs1))
     else Some (bs1, bs2)
   }"

definition zero_timings :: CanardSTM32CANTimings where
  "zero_timings = \<lparr>bit_rate_prescaler = 0, bit_segment_1 = 0, bit_segment_2 = 0,
     max_resynchronization_jump_width = 0\<rparr>"

text \<open>\<open>out_timings\<close> is \<open>None\<close> for a null pointer, and holds the caller's value otherwise.\<close>

definition canardSTM32ComputeCANTimings ::
  "u32 \<Rightarrow> u32 \<Rightarrow> CanardSTM32CANTimings option \<Rightarrow> (int \<times> CanardSTM32CANTimings option) option" where
  "canardSTM32ComputeCANTimings peripheral_clock_rate target_bitrate out_timings =
     (if target_bitrate < 1000 then Some (- CANARD_STM32_ERROR_UNSUPPORTED_BIT_RATE, out_timings)
      else do {
        canard_assert (out_timings \<noteq> None);
        let unsupported = (- CANARD_STM32_ERROR_UNSUPPORTED_BIT_RATE, Some zero_timings);
        let max_quanta_per_bit = (if target_bitrate \<ge> 1000000 then 10 else 17 :: u8);
        canard_assert (max_quanta_per_bit \<le> 16 + 8);
        let prescaler_bs = peripheral_clock_rate div target_bitrate;
        case quanta_search prescaler_bs (max_quanta_per_bit - 1) of
          None \<Rightarrow> Some unsupported
        | Some bs1_bs2_sum \<Rightarrow>
            let prescaler = prescaler_bs div (1 + ucast bs1_bs2_sum)
            in if prescaler < 1 \<or> prescaler > 1024 then Some unsupported
               else do {
                 (bs1, bs2) \<leftarrow> segments bs1_bs2_sum;
                 let valid = (bs1 \<ge> 1 \<and> bs1 \<le> 16 \<and> bs2 \<ge> 1 \<and> bs2 \<le> 8);
                 canard_assert (\<not> (target_bitrate \<noteq> peripheral_clock_rate div (prescaler * (1 + ucast bs1 + ucast bs2)) \<or>
                   \<not> valid));
                 Some (0, Some \<lparr>bit_rate_prescaler = ucast prescaler, bit_segment_1 = bs1, bit_segment_2 = bs2,
                   max_resynchronization_jump_width = 1\<rparr>)
               }
      })"

section \<open>What the search finds\<close>

lemma assert_then_None: "(canard_assert b \<bind> (\<lambda>u. Some x)) = None \<longleftrightarrow> \<not> b"
  by (cases b) simp_all


lemma quanta_search_le: "quanta_search p s = Some t \<Longrightarrow> 2 \<le> s \<Longrightarrow> 2 \<le> t \<and> t \<le> s \<and> p mod (1 + ucast t) = 0"
proof (induction p s rule: quanta_search.induct)
  case (1 p s)
  show ?case
  proof (cases "p mod (1 + ucast s) = 0")
    case True
    with 1 show ?thesis by (simp add: quanta_search.simps [of p s])
  next
    case False
    with 1(2) have s: "\<not> s \<le> 2" and r: "quanta_search p (s - 1) = Some t"
      by (auto simp: quanta_search.simps [of p s] split: if_splits)
    then have "2 \<le> s - 1" "s - 1 \<le> s" by (unat_arith | uint_arith)+
    then show ?thesis using 1(1) [OF False s r] by auto
  qed
qed

lemma quanta_cases:
  fixes t :: u8
  assumes "2 \<le> t" "t \<le> 16"
  shows "t \<in> {2, 3, 4, 5, 6, 7, 8, 9, 10, 11, 12, 13, 14, 15, 16}"
proof -
  have "unat t \<in> {2, 3, 4, 5, 6, 7, 8, 9, 10, 11, 12, 13, 14, 15, 16}"
    using assms by (simp add: word_le_nat_alt) presburger
  then show ?thesis
    by (auto simp: word_unat_eq_iff)
qed

lemma segments_good:
  assumes "2 \<le> t" "t \<le> 16"
  shows "segments t = (if t < 4 then None
    else Some (if t < 10 then (t - 1, 1) else (t - 2, 2)))"
  using quanta_cases [OF assms]
  by (elim insertE emptyE; simp add: segments_def sample_point_permill_def)

text \<open>
  C22. Timings that \<open>canardSTM32ComputeCANTimings\<close> reports as found are ones that \<open>canardSTM32Init\<close> accepts;
  they give the requested bit rate under integer division, with at most 10 quanta in a bit at 1 Mbps
  and above, 17 below, and a sample point between 80 and 90 per cent of the bit.
\<close>

theorem computed_timings_are_sound:
  assumes "canardSTM32ComputeCANTimings clk rate out = Some (0, out')"
  shows "\<exists>t. out' = Some t \<and> timings_valid t \<and>
    (let quanta = 1 + unat (bit_segment_1 t) + unat (bit_segment_2 t)
     in quanta \<le> (if rate \<ge> 1000000 then 10 else 17) \<and>
        unat clk div (unat (bit_rate_prescaler t) * quanta) = unat rate \<and>
        800 * quanta \<le> 1000 * (1 + unat (bit_segment_1 t)) \<and> 1000 * (1 + unat (bit_segment_1 t)) \<le> 900 * quanta)"
proof -
  let ?m = "if rate \<ge> 1000000 then 10 else 17 :: u8"
  define pbs where "pbs = clk div rate"
  from assms obtain s bs1 bs2 where s: "quanta_search pbs (?m - 1) = Some s"
    and pr: "\<not> pbs div (1 + ucast s) < 1" "\<not> pbs div (1 + ucast s) > 1024"
    and seg: "segments s = Some (bs1, bs2)"
    and rate: "rate = clk div (pbs div (1 + ucast s) * (1 + ucast bs1 + ucast bs2))"
    and t: "out' = Some \<lparr>bit_rate_prescaler = ucast (pbs div (1 + ucast s)), bit_segment_1 = bs1, bit_segment_2 = bs2,
      max_resynchronization_jump_width = 1\<rparr>"
    unfolding canardSTM32ComputeCANTimings_def pbs_def
    by (auto simp: bind_eq_Some Let_def split: if_splits option.splits)
  from quanta_search_le [OF s] have le: "2 \<le> s" "s \<le> ?m - 1" by (auto split: if_splits)
  then have "s \<le> 16" by (auto split: if_splits intro: order_trans)
  with seg segments_good [OF le(1)] have s4: "\<not> s < 4"
    and b: "bs1 = (if s < 10 then s - 1 else s - 2)" "bs2 = (if s < 10 then 1 else 2)"
    by (auto split: if_splits)
  have q: "unat bs1 + unat bs2 = unat s" "1 \<le> unat bs1" "unat bs1 \<le> 16" "1 \<le> unat bs2" "unat bs2 \<le> 8"
    using b s4 \<open>s \<le> 16\<close> by (auto simp: word_less_nat_alt word_le_nat_alt unat_sub)
  let ?P = "pbs div (1 + ucast s)" and ?n = "1 + unat bs1 + unat bs2"
  have n: "unat (1 + ucast s :: u32) = 1 + unat s" "unat (1 + ucast bs1 + ucast bs2 :: u32) = ?n"
    using \<open>s \<le> 16\<close> q by (simp_all add: unat_word_ariths unat_ucast_small word_le_nat_alt)
  have "unat ?P * ?n \<le> unat pbs" using div_times_less_eq_dividend [of "unat pbs" "1 + unat s"] q(1)
    by (simp add: unat_div n)
  then have "unat (?P * (1 + ucast bs1 + ucast bs2)) = unat ?P * ?n"
    using unsigned_less [of pbs, where 'a = nat] by (simp add: unat_mult_lem [THEN iffD1] n)
  then have "unat clk div (unat ?P * ?n) = unat rate" using arg_cong [OF rate, of unat] by (simp add: unat_div)
  moreover have P: "1 \<le> unat ?P" "unat ?P \<le> 1024" "unat (ucast ?P :: u16) = unat ?P"
    using pr by (simp_all add: word_less_nat_alt not_less unat_ucast_small)
  moreover have "?n \<le> (if rate \<ge> 1000000 then 10 else 17)"
    using le(2) q(1) by (auto simp: word_le_nat_alt split: if_splits)
  moreover have "800 * ?n \<le> 1000 * (1 + unat bs1)" "1000 * (1 + unat bs1) \<le> 900 * ?n"
    using b s4 \<open>s \<le> 16\<close> by (auto simp: word_less_nat_alt word_le_nat_alt unat_sub)
  moreover have "timings_valid \<lparr>bit_rate_prescaler = ucast ?P, bit_segment_1 = bs1, bit_segment_2 = bs2,
      max_resynchronization_jump_width = 1\<rparr>"
    using P q(2-5) unfolding timings_valid_def word_less_nat_alt by auto
  ultimately show ?thesis
    unfolding t using q(1) by simp
qed

text \<open>The search finds the greatest divisor within its bounds.\<close>

lemma mod_iff_dvd:
  "unat s < 255 \<Longrightarrow> p mod (1 + ucast s) = 0 \<longleftrightarrow> 1 + unat s dvd unat p" for p :: u32 and s :: u8
  by (simp add: word_unat_eq_iff unat_mod unat_word_ariths unat_ucast_small mod_eq_0_iff_dvd)

definition greatest_quanta :: "u32 \<Rightarrow> nat \<Rightarrow> nat \<Rightarrow> bool" where
  "greatest_quanta pbs limit q \<longleftrightarrow> 3 \<le> q \<and> q \<le> limit \<and> q dvd unat pbs \<and>
     (\<forall>q' \<le> limit. q < q' \<longrightarrow> \<not> q' dvd unat pbs)"

lemma quanta_search_iff:
  "2 \<le> s \<Longrightarrow> unat s < 255 \<Longrightarrow>
     quanta_search p s = Some t \<longleftrightarrow> greatest_quanta p (1 + unat s) (1 + unat t)"
proof (induction p s rule: quanta_search.induct)
  case (1 p s)
  note dvd = mod_iff_dvd [OF 1(3), of p]
  show ?case
  proof (cases "p mod (1 + ucast s) = 0")
    case True
    have "2 \<le> unat s" using 1(2) by (simp add: word_le_nat_alt)
    moreover have "1 + unat s dvd unat p" using True dvd by simp
    ultimately have "greatest_quanta p (1 + unat s) (1 + unat t) \<longleftrightarrow> unat s = unat t"
      by (auto simp: greatest_quanta_def)
    with True show ?thesis by (simp add: quanta_search.simps [of p s] word_unat_eq_iff)
  next
    case False
    have step: "greatest_quanta p (1 + unat s) q \<longleftrightarrow> greatest_quanta p (unat s) q" for q
      using False unfolding dvd greatest_quanta_def by (auto simp: le_Suc_eq)
    show ?thesis
    proof (cases "s \<le> 2")
      case True
      then have "unat s = 2" using 1(2) by (simp add: word_le_nat_alt)
      then show ?thesis
        unfolding step using False True by (simp add: quanta_search.simps [of p s] greatest_quanta_def)
    next
      case s: False
      then have "s \<noteq> 0" by auto
      then have u: "unat (s - 1) = unat s - 1" "unat s \<noteq> 0" by (simp_all add: unat_minus_one unat_eq_0)
      with s have "2 \<le> s - 1" "unat (s - 1) < 255" using 1(3) by (simp_all add: word_le_nat_alt)
      from 1(1) [OF False s this] show ?thesis
        unfolding step using False s u by (simp add: quanta_search.simps [of p s])
    qed
  qed
qed

text \<open>
  C23. The assertions of \<open>canardSTM32ComputeCANTimings\<close> fail for ordinary arguments: exactly when the
  greatest number of quanta that divides the clocks per bit, with a prescaler in range, is 3 or 4, or
  when the clock is no integer multiple of the requested rate so that another rate comes out. The
  documentation promises a negative result when no solution is found.
\<close>

theorem timings_assertion_fails_iff:
  "canardSTM32ComputeCANTimings clk rate (Some out) = None \<longleftrightarrow> 1000 \<le> rate \<and>
     (\<exists>q. greatest_quanta (clk div rate) (if rate \<ge> 1000000 then 10 else 17) q \<and>
        1 \<le> unat (clk div rate) div q \<and> unat (clk div rate) div q \<le> 1024 \<and>
        (q \<le> 4 \<or> clk div (clk div rate) \<noteq> rate))"
proof (cases "rate < 1000")
  case True
  then show ?thesis by (simp add: canardSTM32ComputeCANTimings_def not_le [symmetric])
next
  case False
  define pbs where "pbs = clk div rate"
  define s :: u8 where "s = (if rate \<ge> 1000000 then 10 else 17) - 1"
  have s: "2 \<le> s" "unat s < 255" "1 + unat s = (if rate \<ge> 1000000 then 10 else 17)" "s \<le> 16"
    by (simp_all add: s_def)
  note iff = quanta_search_iff [OF s(1,2), of pbs, unfolded s(3)]
  show ?thesis
  proof (cases "quanta_search pbs s")
    case None
    have "\<not> greatest_quanta pbs (if rate \<ge> 1000000 then 10 else 17) q" for q
    proof
      assume q: "greatest_quanta pbs (if rate \<ge> 1000000 then 10 else 17) q"
      then have "1 \<le> q" "q - 1 < 2 ^ LENGTH(8)" by (auto simp: greatest_quanta_def split: if_splits)
      then have "q = 1 + unat (of_nat (q - 1) :: u8)" by (simp add: unat_of_nat take_bit_nat_eq_self del: of_nat_diff)
      with q iff [of "of_nat (q - 1)"] None show False by (simp del: of_nat_diff)
    qed
    with None show ?thesis
      by (simp add: canardSTM32ComputeCANTimings_def Let_def s_def [symmetric] pbs_def [symmetric])
  next
    case (Some t)
    have unique: "greatest_quanta pbs (if rate \<ge> 1000000 then 10 else 17) q \<longleftrightarrow> q = 1 + unat t" for q
      using iff [of t] Some unfolding greatest_quanta_def by (metis linorder_neqE_nat option.inject)
    have le: "2 \<le> t" "t \<le> 16" using quanta_search_le [OF Some s(1)] s(4) by auto
    have n: "unat (1 + ucast t :: u32) = 1 + unat t"
      using le by (simp add: unat_word_ariths unat_ucast_small word_le_nat_alt)
    have exact: "pbs div (1 + ucast t) * (1 + ucast t) = pbs"
      using quanta_search_le [OF Some s(1)] by (metis add.right_neutral div_mult_mod_eq)
    define bs1 bs2 where "bs1 = (if t < 10 then t - 1 else t - 2)" and "bs2 = (if t < 10 then 1 else 2 :: u8)"
    have sum: "1 + ucast bs1 + ucast bs2 = (1 + ucast t :: u32)" and valid: "1 \<le> bs1 \<and> bs1 \<le> 16 \<and> 1 \<le> bs2 \<and> bs2 \<le> 8"
      using quanta_cases [OF le] by (elim insertE emptyE; simp add: bs1_def bs2_def)+
    have seg: "segments t = (if t < 4 then None else Some (bs1, bs2))"
      by (simp add: segments_good [OF le] bs1_def bs2_def)
    have four: "1 + unat t \<le> 4 \<longleftrightarrow> t < 4" by (auto simp: word_less_nat_alt)
    have "canardSTM32ComputeCANTimings clk rate (Some out) = None \<longleftrightarrow>
        \<not> (pbs div (1 + ucast t) < 1 \<or> pbs div (1 + ucast t) > 1024) \<and> (t < 4 \<or> clk div pbs \<noteq> rate)"
      using False Some valid
      by (simp add: canardSTM32ComputeCANTimings_def assert_then_None eq_commute [of rate] Let_def s_def [symmetric] pbs_def [symmetric] seg sum exact)
    then show ?thesis
      using False unfolding pbs_def [symmetric] unique
      by (auto simp: four word_less_nat_alt unat_div n not_less word_le_nat_alt Suc_le_eq simp del: add_Suc plus_1_eq_Suc)
  qed
qed

theorem timings_assertion_fails_iff_witness:
  "canardSTM32ComputeCANTimings 4000000 1000000 (Some zero_timings) = None"
proof -
  have "greatest_quanta 4 10 4" by (auto simp: greatest_quanta_def dvd_imp_le dest: dvd_imp_le)
  then show ?thesis
    using timings_assertion_fails_iff [of 4000000 1000000 zero_timings] by (simp add: exI [of _ 4])
qed

theorem computed_timings_are_sound_witness:
  "timings_valid \<lparr>bit_rate_prescaler = 4, bit_segment_1 = 7, bit_segment_2 = 1,
     max_resynchronization_jump_width = 1\<rparr>"
proof -
  have "quanta_search 36 9 = Some 8"
    by (simp add: quanta_search.simps)
  then have "canardSTM32ComputeCANTimings 36000000 1000000 (Some zero_timings) =
      Some (0, Some \<lparr>bit_rate_prescaler = 4, bit_segment_1 = 7, bit_segment_2 = 1,
        max_resynchronization_jump_width = 1\<rparr>)"
    by (simp add: canardSTM32ComputeCANTimings_def Let_def segments_def sample_point_permill_def)
  from computed_timings_are_sound [OF this] show ?thesis by simp
qed

end
