(* ===== verification/Bxcan_Frames.thy ===== *)
theory Bxcan_Frames
  imports Bxcan Canard_RxHandle
begin

text \<open>
  What the driver does with frames: identifiers and data survive the registers, transmission never
  overtakes a pending frame of higher or equal priority, the filters accept what their configuration
  says, and a data length code above eight reaches the library unchecked.
\<close>

section \<open>Bits of the registers\<close>

lemma driver_flags:
  fixes w :: u32
  shows "(w AND RIR_IDE = 0) = (\<not> bit w 2)" "(w AND RIR_RTR \<noteq> 0) = bit w 1"
    "(w AND CANARD_CAN_FRAME_EFF = 0) = (\<not> bit w 31)" "(w AND CANARD_CAN_FRAME_EFF \<noteq> 0) = bit w 31"
    "(w AND CANARD_CAN_FRAME_RTR \<noteq> 0) = bit w 30"
  using and_flag_iff [of "push_bit 2 1" 2 w] and_flag_iff [of "push_bit 1 1" 1 w]
    and_flag_iff [of CANARD_CAN_FRAME_EFF 31 w] and_flag_iff [of CANARD_CAN_FRAME_RTR 30 w]
  by (auto simp: push_bit_eq_mult)

lemma bit_rtr [simp]: "bit CANARD_CAN_FRAME_RTR n \<longleftrightarrow> n = 30"
  using bit_exp_iff [where 'a = "32 word", of 30 n] by auto

lemma bit_std_mask [simp]: "bit CANARD_CAN_STD_ID_MASK n \<longleftrightarrow> n < 11"
  by (rule bit_mask_num_iff) (simp_all add: mask_eq_exp_minus_1)

lemma bit_ide_rtr [simp]: "bit (4 :: u32) n \<longleftrightarrow> n = 2" "bit (2 :: u32) n \<longleftrightarrow> n = 1"
  using bit_exp_iff [where 'a = "32 word", of 2 n] bit_exp_iff [where 'a = "32 word", of 1 n] by auto

lemma bit_to_register:
  "bit (convertFrameIDCanardToRegister i) n \<longleftrightarrow> n < 32 \<and>
     (if bit i 31 then 3 \<le> n \<and> bit i (n - 3) \<or> n = 2 else 21 \<le> n \<and> bit i (n - 21)) \<or> n = 1 \<and> bit i 30"
  unfolding convertFrameIDCanardToRegister_def Let_def driver_flags
  by (auto simp: bit_simps simp del: bit_numeral_word_iff push_bit_and)

lemma bit_from_register:
  "bit (convertFrameIDRegisterToCanard w) n \<longleftrightarrow>
     (if bit w 2 then n < 29 \<and> bit w (n + 3) \<or> n = 31 else n < 11 \<and> bit w (n + 21)) \<or> n = 30 \<and> bit w 1"
  unfolding convertFrameIDRegisterToCanard_def Let_def driver_flags
  by (auto simp: bit_simps add.commute simp del: bit_numeral_word_iff)

text \<open>The identifier bits that go over the bus, with the flags for format and remote frame.\<close>

definition bus_bits :: "u32 \<Rightarrow> u32" where
  "bus_bits i = CANARD_CAN_FRAME_EFF OR CANARD_CAN_FRAME_RTR OR
     (if i AND CANARD_CAN_FRAME_EFF \<noteq> 0 then CANARD_CAN_EXT_ID_MASK else CANARD_CAN_STD_ID_MASK)"

definition bus_id :: "u32 \<Rightarrow> u32" where
  "bus_id i = i AND bus_bits i"

lemma bit_bus_bits: "bit (bus_bits i) n \<longleftrightarrow> n = 31 \<or> n = 30 \<or> (if bit i 31 then n < 29 else n < 11)"
proof -
  have e: "bit CANARD_CAN_EXT_ID_MASK n \<longleftrightarrow> n < 29"
    by (rule bit_mask_num_iff) (simp_all add: mask_eq_exp_minus_1)
  show ?thesis
    by (simp only: bus_bits_def driver_flags bit_or_iff bit_eff bit_rtr bit_std_mask e if_distrib [of "\<lambda>w. bit w n"]
        not_not disj_assoc)
qed

lemma bit_bus_id:
  "bit (bus_id i) n \<longleftrightarrow> bit i n \<and> (n = 31 \<or> n = 30 \<or> (if bit i 31 then n < 29 else n < 11))"
  by (simp add: bus_id_def bit_and_iff bit_bus_bits)

lemma register_roundtrip:
  "convertFrameIDRegisterToCanard (convertFrameIDCanardToRegister i OR TIR_TXRQ) = bus_id i"
  by (rule bit_word_eqI)
     (auto simp: bit_from_register bit_to_register bit_bus_id bit_simps simp del: bit_numeral_word_iff)

section \<open>Data\<close>

lemma register_bytes_data:
  assumes "i + 4 \<le> length bs"
  shows "\<exists>w. data_register bs i = Some w \<and> register_bytes w = take 4 (drop i bs)"
proof -
  let ?w = "push_bit 24 (ucast (bs ! (i + 3))) OR push_bit 16 (ucast (bs ! (i + 2))) OR
    push_bit 8 (ucast (bs ! (i + 1))) OR push_bit 0 (ucast (bs ! i)) :: u32"
  have "register_bytes ?w = [bs ! i, bs ! (i + 1), bs ! (i + 2), bs ! (i + 3)]"
    unfolding register_bytes_def list.inject
    by (intro conjI bit_word_eqI refl)
       (auto simp: bit_simps dest: bit_imp_le_length simp del: bit_numeral_word_iff push_bit_or)
  moreover have "take 4 (drop i bs) = [bs ! i, bs ! (i + 1), bs ! (i + 2), bs ! (i + 3)]"
    using assms by (auto simp: list_eq_iff_nth_eq nth_Cons numeral_eq_Suc less_Suc_eq split: nat.split)
  ultimately show ?thesis
    using assms by (simp add: data_register_def)
qed


definition sample_frame :: CanardCANFrame where
  "sample_frame = \<lparr>frame_id = 0x80000123, frame_data = [1, 2, 3, 4, 5, 6, 7, 8], frame_data_len = 8\<rparr>"


section \<open>Transmission\<close>

lemma frame_priority_is_isPriorityHigher: "isFramePriorityHigher a b = isPriorityHigher b a"
  by (simp only: isFramePriorityHigher_def isPriorityHigher_def Let_def)

lemma seek_mailbox_found:
  "seek_mailbox d i ms t = Some m \<Longrightarrow> (m = t \<or> (\<exists>k \<in> set ms. tme d k \<and> m = of_nat k)) \<and>
     (\<forall>k \<in> set ms. \<not> tme d k \<longrightarrow> isFramePriorityHigher i (convertFrameIDRegisterToCanard (can d (TIR k))))"
  by (induction ms arbitrary: t) (auto split: if_splits)

lemma seek_mailbox_none:
  "seek_mailbox d i ms t = None \<longleftrightarrow>
     (\<exists>k \<in> set ms. \<not> tme d k \<and> \<not> isFramePriorityHigher i (convertFrameIDRegisterToCanard (can d (TIR k))))"
  by (induction ms arbitrary: t) auto

lemma seek_mailbox_keeps:
  "seek_mailbox d i ms t = Some m \<Longrightarrow> \<forall>k \<in> set ms. \<not> tme d k \<Longrightarrow> m = t"
  by (induction ms arbitrary: t) (auto split: if_splits)

lemma and_eq_mask_iff: "w AND m = m \<longleftrightarrow> (\<forall>n. bit m n \<longrightarrow> bit w n)" for w m :: "'a::len word"
proof
  assume "w AND m = m"
  then show "\<forall>n. bit m n \<longrightarrow> bit w n" by (metis bit_and_iff)
qed (auto intro!: bit_word_eqI simp: bit_and_iff)

lemma all_tme:
  "can d TSR AND 0x1C000000 = 0x1C000000 \<longleftrightarrow> (\<forall>k < 3. tme d k)"
proof -
  have t: "tme d 0 = bit (can d TSR) 26" "tme d 1 = bit (can d TSR) 27" "tme d 2 = bit (can d TSR) 28"
    unfolding tme_def using and_flag_iff [of "push_bit 26 1" 26 "can d TSR"] and_flag_iff [of "push_bit 27 1" 27 "can d TSR"]
      and_flag_iff [of "push_bit 28 1" 28 "can d TSR"]
    by (simp_all add: push_bit_eq_mult)
  have e: "0x1C000000 = push_bit 26 (mask 3 :: u32)"
    by (simp add: mask_eq_exp_minus_1)
  have "bit (0x1C000000 :: u32) n \<longleftrightarrow> n = 26 \<or> n = 27 \<or> n = 28" for n
    unfolding e bit_push_bit_iff bit_mask_iff by auto
  then have "can d TSR AND 0x1C000000 = 0x1C000000 \<longleftrightarrow>
      bit (can d TSR) 26 \<and> bit (can d TSR) 27 \<and> bit (can d TSR) 28"
    unfolding and_eq_mask_iff by auto
  moreover have "(\<forall>k < 3. tme d k) \<longleftrightarrow> tme d 0 \<and> tme d 1 \<and> tme d 2"
    by (auto simp: numeral_3_eq_3 less_Suc_eq numeral_2_eq_2)
  ultimately show ?thesis unfolding t by blast
qed

text \<open>
  C18. Transmission never causes an inner priority inversion. When \<open>canardSTM32Transmit\<close> accepts a frame,
  it has filled an empty mailbox with it, and every mailbox that is pending holds a frame of strictly
  lower priority, in the order of \<open>isPriorityHigher\<close>. When it answers 0, some pending frame has a
  higher or equal priority, and no register has been touched since the error status was handled.
\<close>

theorem transmit_no_priority_inversion:
  assumes "canardSTM32Transmit hw (Some f) d = Some (r, d')" and "0 \<le> r"
  shows "let d1 = processErrorStatus hw d; pending = (\<lambda>k. k < 3 \<and> \<not> tme d1 k);
      queued = (\<lambda>k. convertFrameIDRegisterToCanard (can d1 (TIR k)))
    in if r = 0 then d' = d1 \<and> (\<exists>k. pending k \<and> \<not> isPriorityHigher (queued k) (frame_id f))
       else r = 1 \<and> (\<exists>m < 3. tme d1 m \<and> fill_mailbox hw f m d1 = Some d') \<and>
         (\<forall>k. pending k \<longrightarrow> isPriorityHigher (queued k) (frame_id f))"
proof -
  define d1 where "d1 = processErrorStatus hw d"
  let ?i = "frame_id f" and ?q = "\<lambda>k. convertFrameIDRegisterToCanard (can d1 (TIR k))"
  have err: "frame_id f AND CANARD_CAN_FRAME_ERR = 0"
    using assms by (auto simp: canardSTM32Transmit_def split: if_splits)
  have set3: "set [0, 1, 2] = {k :: nat. k < 3}" by auto
  show ?thesis
  proof (cases "\<forall>k < 3. tme d1 k")
    case True
    then have "can d1 TSR AND 0x1C000000 = 0x1C000000" by (simp add: all_tme)
    then show ?thesis
      using assms err True unfolding canardSTM32Transmit_def
      by (auto simp: d1_def [symmetric] bind_eq_Some intro: exI [of _ 0])
  next
    case False
    show ?thesis
    proof (cases "seek_mailbox d1 ?i [0, 1, 2] 0xFF")
      case None
      then have "r = 0" "d' = d1"
        using assms err False unfolding canardSTM32Transmit_def
        by (auto simp: d1_def [symmetric] all_tme simp del: seek_mailbox.simps)
      with None show ?thesis
        unfolding seek_mailbox_none set3
        by (auto simp: d1_def [symmetric] frame_priority_is_isPriorityHigher)
    next
      case (Some m)
      then have m: "m \<noteq> 0xFF" "m < 3" "r = 1" "fill_mailbox hw f (unat m) d1 = Some d'"
        using assms err False unfolding canardSTM32Transmit_def
        by (auto simp: d1_def [symmetric] all_tme bind_eq_Some simp del: seek_mailbox.simps)
      from seek_mailbox_found [OF Some, unfolded set3] m(1) obtain k where k: "k < 3" "tme d1 k" "m = of_nat k"
          "\<forall>k < 3. \<not> tme d1 k \<longrightarrow> isFramePriorityHigher ?i (?q k)"
        by auto
      have "unat m = k" using k(1,3) by (simp add: unat_of_nat)
      with k m show ?thesis
        by (auto simp: d1_def [symmetric] frame_priority_is_isPriorityHigher)
    qed
  qed
qed

text \<open>A macrocell that is plain memory, with a pending frame in mailbox 0 and two empty mailboxes.\<close>

definition plain_hw :: bxcan where
  "plain_hw = \<lparr>store = (\<lambda>r v m. m(r := v)), millisecond = id\<rparr>"

definition one_pending :: can_driver where
  "one_pending = \<lparr>can = (\<lambda>r. 0)(TSR := 0x18000000, TIR 0 := convertFrameIDCanardToRegister 0x80000124 OR TIR_TXRQ),
     g_stats = \<lparr>rx_overflow_count = 0, error_count = 0\<rparr>, g_abort_tx_on_error = False\<rparr>"

theorem transmit_no_priority_inversion_witness:
  "\<exists>d'. canardSTM32Transmit plain_hw (Some sample_frame) one_pending = Some (1, d') \<and>
     isPriorityHigher 0x80000124 (frame_id sample_frame)"
proof -
  have q: "convertFrameIDRegisterToCanard 0x925 = 0x80000124"
    by (simp add: convertFrameIDRegisterToCanard_def)
  have d: "processErrorStatus plain_hw one_pending = one_pending"
    by (simp add: processErrorStatus_def one_pending_def)
  have t: "can one_pending (TIR 0) = 0x925" "\<not> tme one_pending 0" "tme one_pending 1" "tme one_pending 2"
    by (simp_all add: one_pending_def tme_def convertFrameIDCanardToRegister_def)
  have seek: "seek_mailbox one_pending (frame_id sample_frame) [0, 1, 2] 0xFF = Some 2"
    using t q by (simp add: isFramePriorityHigher_def sample_frame_def)
  have tsr: "can one_pending TSR = 0x18000000" by (simp add: one_pending_def)
  obtain d' where *: "canardSTM32Transmit plain_hw (Some sample_frame) one_pending = Some (1, d')"
    unfolding canardSTM32Transmit_def option.case Let_def d seek
    by (auto simp: tsr fill_mailbox_def data_register_def nth_opt_def sample_frame_def)
  from transmit_no_priority_inversion [OF *] have "isPriorityHigher 0x80000124 (frame_id sample_frame)"
    by (auto simp: d t q dest!: spec [of _ 0])
  with * show ?thesis by blast
qed

section \<open>Reception\<close>

text \<open>
  C24. The length code of a received frame is passed on as it is, up to 15, while the frame has eight
  bytes: \<open>canardHandleRxFrame\<close>, which does not check it either, then reads its tail byte from beyond the
  frame, for every frame with a code above eight that concerns the node.
\<close>

theorem long_dlc_reads_beyond_frame:
  assumes "frame_for_node ins (fst (read_fifo hw i d))" and "8 < (can d (RDTR i) AND RDTR_DLC_MASK)"
  shows "canardHandleRxFrame acc rec app ins (fst (read_fifo hw i d)) ts = None"
proof -
  let ?f = "fst (read_fifo hw i d)"
  have "can d (RDTR i) AND RDTR_DLC_MASK \<le> 15" by (rule word_and_le1)
  then have "unat (frame_data_len ?f) = unat (can d (RDTR i) AND RDTR_DLC_MASK)"
    by (simp add: read_fifo_def Let_def unat_ucast_small word_le_nat_alt)
  moreover have "length (frame_data ?f) = 8" by (simp add: read_fifo_def Let_def register_bytes_def)
  ultimately have "frame_tail_byte ?f = None"
    using assms(2) by (auto simp: frame_tail_byte_def nth_opt_def word_less_nat_alt)
  with assms(1) show ?thesis by (simp add: canardHandleRxFrame_def)
qed

definition long_frame_received :: can_driver where
  "long_frame_received = \<lparr>can = (\<lambda>r. 0)(RIR 0 := convertFrameIDCanardToRegister 0x82000105, RDTR 0 := 9),
     g_stats = \<lparr>rx_overflow_count = 0, error_count = 0\<rparr>, g_abort_tx_on_error = False\<rparr>"

theorem long_dlc_reads_beyond_frame_witness:
  "\<forall>acc rec (app :: unit).
     canardHandleRxFrame acc rec app demo_node (fst (read_fifo plain_hw 0 long_frame_received)) 0 = None"
proof -
  have "frame_for_node demo_node (fst (read_fifo plain_hw 0 long_frame_received))"
    by (simp add: long_frame_received_def read_fifo_def plain_hw_def frame_for_node_def demo_node_def
        convertFrameIDCanardToRegister_def convertFrameIDRegisterToCanard_def extractTransferType_def
        SERVICE_NOT_MSG_FROM_ID_def)
  then show ?thesis
    by (intro allI long_dlc_reads_beyond_frame) (simp_all add: long_frame_received_def)
qed

section \<open>Acceptance filters\<close>

text \<open>
  The filter banks as the reference manual of the macrocell describes them (32 bit, mask mode): an
  active bank lets a frame pass whose register agrees with \<open>FR1\<close> wherever \<open>FR2\<close> is set.
\<close>

definition passes_filters :: "can_driver \<Rightarrow> u32 \<Rightarrow> bool" where
  "passes_filters d i \<longleftrightarrow> (\<exists>k < CANARD_STM32_NUM_ACCEPTANCE_FILTERS. bit (can d FA1R) k \<and>
     (convertFrameIDCanardToRegister i XOR can d (FR1 k)) AND can d (FR2 k) = 0)"

definition config_accepts :: "u32 \<Rightarrow> CanardSTM32AcceptanceFilterConfiguration \<Rightarrow> bool" where
  "config_accepts i cfg \<longleftrightarrow> (i XOR filter_id cfg) AND filter_mask cfg AND bus_bits i = 0"

lemma word_eq_0_iff: "w = 0 \<longleftrightarrow> (\<forall>n. \<not> bit w n)" for w :: "'a::len word"
  by (metis bit_0_eq bit_word_eqI bot_apply bot_bool_def)

lemma all_bits_split: "(\<forall>n < 32. P n) \<longleftrightarrow> (\<forall>n < k. P n) \<and> (\<forall>n < 32 - k. P (n + k))" if "k \<le> 32" for k :: nat
  by (metis that add.commute le_add_diff_inverse less_diff_conv linorder_not_less order_less_le_trans)

lemma filter_registers_accept:
  assumes "bit i 31 \<or> bit (filter_mask cfg) 31" and "filter_registers cfg = (fid, fmask)"
  shows "(convertFrameIDCanardToRegister i XOR fid) AND fmask = 0 \<longleftrightarrow> config_accepts i cfg"
proof -
  let ?x = "(i XOR filter_id cfg) AND filter_mask cfg"
  have three: "(\<forall>n < 3. P n) \<longleftrightarrow> P 0 \<and> P 1 \<and> P (2 :: nat)" for P
    by (auto simp: less_Suc_eq numeral_3_eq_3 numeral_2_eq_2)
  have zero: "w = 0 \<longleftrightarrow> (\<forall>n < 32. \<not> bit w n)" for w :: u32
    unfolding word_eq_0_iff using bit_imp_le_length [of w] by auto
  let ?ext = "bit (filter_id cfg) 31 \<or> \<not> bit (filter_mask cfg) 31"
  have eqs: "fid = fst (filter_registers cfg)" "fmask = snd (filter_registers cfg)"
    using assms(2) by simp_all
  have fid: "bit fid n \<longleftrightarrow> n < 32 \<and> (if ?ext then 3 \<le> n \<and> bit (filter_id cfg) (n - 3) \<or> n = 2
      else 21 \<le> n \<and> bit (filter_id cfg) (n - 21)) \<or> n = 1 \<and> bit (filter_id cfg) 30" for n
    unfolding eqs filter_registers_def Let_def driver_flags
    by (cases "bit (filter_id cfg) 31"; cases "bit (filter_mask cfg) 31"; cases "bit (filter_id cfg) 30")
       (auto simp: bit_simps simp del: bit_numeral_word_iff push_bit_and)
  have fmask: "bit fmask n \<longleftrightarrow> n < 32 \<and> (if ?ext then 3 \<le> n \<and> bit (filter_mask cfg) (n - 3)
      else 21 \<le> n \<and> bit (filter_mask cfg) (n - 21)) \<or> n = 2 \<and> bit (filter_mask cfg) 31 \<or> n = 1 \<and> bit (filter_mask cfg) 30" for n
    unfolding eqs filter_registers_def Let_def driver_flags
    by (cases "bit (filter_id cfg) 31"; cases "bit (filter_mask cfg) 31"; cases "bit (filter_mask cfg) 30")
       (auto simp: bit_simps simp del: bit_numeral_word_iff push_bit_and)
  note bits = bit_and_iff bit_xor_iff bit_or_iff bit_to_register fid fmask bit_bus_bits
  have rhs: "config_accepts i cfg \<longleftrightarrow> \<not> bit ?x 31 \<and> \<not> bit ?x 30 \<and> (\<forall>n < (if bit i 31 then 29 else 11). \<not> bit ?x n)"
    unfolding config_accepts_def and.assoc [symmetric] word_eq_0_iff bit_and_iff [of _ "bus_bits i"] bit_bus_bits
    by (cases "bit i 31"; simp only: if_True if_False simp_thms; blast)
  consider (extended) "bit i 31" ?ext | (standard) "\<not> bit i 31" "\<not> ?ext" | (mixed) "bit i 31 \<noteq> ?ext"
    by blast
  then show ?thesis
  proof cases
    case extended
    show ?thesis
      unfolding zero rhs three
        all_bits_split [of 3 "\<lambda>n. \<not> bit ((convertFrameIDCanardToRegister i XOR fid) AND fmask) n", simplified]
      using extended by (auto simp: bits)
  next
    case standard
    show ?thesis
      unfolding zero rhs
        all_bits_split [of 21 "\<lambda>n. \<not> bit ((convertFrameIDCanardToRegister i XOR fid) AND fmask) n", simplified]
      using standard by (auto simp: bits dest: spec [where x = "Suc 0"])
  next
    case mixed
    then have "bit ((convertFrameIDCanardToRegister i XOR fid) AND fmask) 2"
      "bit (?x AND bus_bits i) 31"
      using assms(1) by (auto simp: bits)
    then show ?thesis unfolding config_accepts_def word_eq_0_iff and.assoc by blast
  qed
qed

lemma configure_filters_banks:
  fixes hw cfgs d
  assumes "\<And>r v m. store hw r v m = m(r := v)" and "n + length cfgs \<le> 32"
  defines "d' \<equiv> configure_filters hw n cfgs d"
  shows "(bit (can d' FA1R) k \<longleftrightarrow> bit (can d FA1R) k \<or> n \<le> k \<and> k < n + length cfgs) \<and>
    (n \<le> k \<and> k < n + length cfgs \<longrightarrow> (can d' (FR1 k), can d' (FR2 k)) = filter_registers (cfgs ! (k - n))) \<and>
    (k < n \<longrightarrow> can d' (FR1 k) = can d (FR1 k) \<and> can d' (FR2 k) = can d (FR2 k))"
  using assms(2) unfolding d'_def
proof (induction cfgs arbitrary: n d)
  case (Cons cfg cfgs)
  obtain fid fmask where r: "filter_registers cfg = (fid, fmask)" by fastforce
  have k: "cfgs ! (k - Suc n) = (cfg # cfgs) ! (k - n)" if "Suc n \<le> k" using that by (simp add: nth_Cons')
  define d1 where "d1 = write_reg hw FA1R (can d FA1R OR push_bit n 1) (write_reg hw (FR2 n) fmask (write_reg hw (FR1 n) fid d))"
  have c: "configure_filters hw n (cfg # cfgs) d = configure_filters hw (Suc n) cfgs d1"
    by (simp add: r d1_def write_reg_def assms(1))
  have b: "bit (can d1 FA1R) k \<longleftrightarrow> bit (can d FA1R) k \<or> k = n" "can d1 (FR1 n) = fid" "can d1 (FR2 n) = fmask"
      "k \<noteq> n \<Longrightarrow> can d1 (FR1 k) = can d (FR1 k) \<and> can d1 (FR2 k) = can d (FR2 k)"
    using Cons.prems by (auto simp: d1_def write_reg_def assms(1) bit_simps)
  have "Suc n + length cfgs \<le> 32" using Cons.prems by simp
  note IH = Cons.IH [OF this, of d1, unfolded b(1)]
  consider "k < n" | "k = n" | "Suc n \<le> k" by linarith
  then show ?case
  proof cases
    case 1 with IH b show ?thesis unfolding c by auto
  next
    case 2 with IH b show ?thesis unfolding c by (auto simp: r)
  next
    case 3
    then have "n \<le> k" "\<not> k < n" "k \<noteq> n" by simp_all
    with 3 IH show ?thesis unfolding c k [OF 3] by simp
  qed
qed auto



end
