(* ===== verification/Chprintf.thy ===== *)
theory Chprintf
  imports Canard_Prelude
begin

text \<open>
  The formatted output of ChibiOS (\<open>os/hal/lib/streams/chprintf.c\<close>) that the bootloader logs with, and
  the memory streams (\<open>memstreams.c\<close>) that \<open>chsnprintf\<close> prints into. Compiled without floating point,
  for a processor whose \<open>char\<close> is unsigned and whose \<open>int\<close>, \<open>long\<close> and pointers have 32 bits, so
  that an argument is a word, or the memory from a string pointer on.

  A format is the memory from \<open>fmt\<close> on; reading behind its last element is undefined, as is the overflow
  of an \<open>int\<close>. A stream is what its function \<open>put\<close> does to a state.
\<close>

section \<open>Integers and arguments\<close>

definition c_int :: "int \<Rightarrow> int option" where
  "c_int x = (if - (2 ^ 31) \<le> x \<and> x < 2 ^ 31 then Some x else None)"

datatype argument = Word u32 | String "u8 list option"

definition va_word :: "argument list \<Rightarrow> (u32 \<times> argument list) option" where
  "va_word ap = (case ap of Word w # ap \<Rightarrow> Some (w, ap) | _ \<Rightarrow> None)"

definition va_string :: "argument list \<Rightarrow> (u8 list option \<times> argument list) option" where
  "va_string ap = (case ap of String s # ap \<Rightarrow> Some (s, ap) | _ \<Rightarrow> None)"

section \<open>Integers to strings\<close>

abbreviation (input) MAX_FILLER :: nat where "MAX_FILLER \<equiv> 11"

definition digit :: "u32 \<Rightarrow> u8" where
  "digit d = (let i = d + 48 in ucast (if i > 57 then i + 7 else i))"

text \<open>\<open>buf\<close> is the buffer the pointers \<open>p\<close> and \<open>q\<close> point into; the digits are written from right to left.\<close>

primrec digit_loop :: "nat \<Rightarrow> u32 \<Rightarrow> u32 \<Rightarrow> u32 \<Rightarrow> u8 list \<Rightarrow> (nat \<times> u8 list) option" where
  "digit_loop 0 radix l ll buf = None"
| "digit_loop (Suc q) radix l ll buf =
     (if radix = 0 then None
      else do {
        buf \<leftarrow> upd_opt buf q (digit (l mod radix));
        if ll div radix \<noteq> 0 then digit_loop q radix (l div radix) (ll div radix) buf else Some (q, buf)
      })"

primrec move_loop :: "nat \<Rightarrow> nat \<Rightarrow> nat \<Rightarrow> u8 list \<Rightarrow> (nat \<times> u8 list) option" where
  "move_loop 0 p q buf = None"
| "move_loop (Suc i) p q buf = do {
     b \<leftarrow> nth_opt buf q;
     buf \<leftarrow> upd_opt buf p b;
     if i = 0 then Some (p + 1, buf) else move_loop i (p + 1) (q + 1) buf
   }"

definition long_to_string_with_divisor ::
  "nat \<Rightarrow> u32 \<Rightarrow> u32 \<Rightarrow> u32 \<Rightarrow> u8 list \<Rightarrow> (nat \<times> u8 list) option" where
  "long_to_string_with_divisor p num radix divisor buf = do {
     let ll = (if divisor = 0 then num else divisor);
     (q, buf) \<leftarrow> digit_loop (p + MAX_FILLER) radix num ll buf;
     move_loop (p + MAX_FILLER - q) p q buf
   }"

definition ch_ltoa :: "nat \<Rightarrow> u32 \<Rightarrow> u32 \<Rightarrow> u8 list \<Rightarrow> (nat \<times> u8 list) option" where
  "ch_ltoa p num radix buf = long_to_string_with_divisor p num radix 0 buf"

section \<open>Directives\<close>

abbreviation (input) SPACE :: u8 where "SPACE \<equiv> 32"
abbreviation (input) PERCENT :: u8 where "PERCENT \<equiv> 37"
abbreviation (input) ASTERISK :: u8 where "ASTERISK \<equiv> 42"
abbreviation (input) MINUS :: u8 where "MINUS \<equiv> 45"
abbreviation (input) PERIOD :: u8 where "PERIOD \<equiv> 46"
abbreviation (input) ZERO :: u8 where "ZERO \<equiv> 48"
abbreviation (input) NINE :: u8 where "NINE \<equiv> 57"

text \<open>An optional character of the format.\<close>

definition flag :: "u8 \<Rightarrow> u8 list \<Rightarrow> (bool \<times> u8 list) option" where
  "flag x fmt = (case fmt of [] \<Rightarrow> None | c # fmt' \<Rightarrow> Some (if c = x then (True, fmt') else (False, fmt)))"

text \<open>
  A width or precision: digits and asterisks. The result has the character behind it. An argument is cut
  to a \<open>char\<close>.
\<close>

primrec number :: "u8 list \<Rightarrow> int \<Rightarrow> argument list \<Rightarrow> (u8 \<times> u8 list \<times> int \<times> argument list) option" where
  "number [] w ap = None"
| "number (c # fmt) w ap =
     (if ZERO \<le> c \<and> c \<le> NINE then do {
        w \<leftarrow> c_int (w * 10 + uint (c - ZERO));
        number fmt w ap
      }
      else if c = ASTERISK then do {
        (a, ap) \<leftarrow> va_word ap;
        w \<leftarrow> c_int (w * 10 + uint (ucast a :: u8));
        number fmt w ap
      }
      else Some (c, fmt, w, ap))"

definition modifier :: "u8 \<Rightarrow> u8 list \<Rightarrow> (bool \<times> u8 \<times> u8 list) option" where
  "modifier c fmt =
     (if c = 108 \<or> c = 76
      then (case fmt of [] \<Rightarrow> None | c' # fmt' \<Rightarrow> Some (if c' \<noteq> 0 then (True, c', fmt') else (True, c, fmt)))
      else Some (65 \<le> c \<and> c \<le> 90, c, fmt))"

text \<open>The characters of a string argument: up to its end, or as many as \<open>precision\<close> says.\<close>

primrec string_prefix :: "u8 list \<Rightarrow> int \<Rightarrow> u8 list option" where
  "string_prefix [] precision = None"
| "string_prefix (b # s) precision =
     (if b \<noteq> 0 \<and> precision - 1 \<ge> 0 then do {
        r \<leftarrow> string_prefix s (precision - 1);
        Some (b # r)
      }
      else Some [])"

definition null_string :: "u8 list" where "null_string = [40, 110, 117, 108, 108, 41, 0]"

text \<open>What \<open>tmpbuf\<close> holds before it is written is not read.\<close>

definition tmpbuf :: "u8 list" where "tmpbuf = replicate (MAX_FILLER + 1) 0"

definition signed_conversion :: "u32 \<Rightarrow> u8 list option" where
  "signed_conversion l =
     (if sint l < 0 then do {
        buf \<leftarrow> upd_opt tmpbuf 0 MINUS;
        (p, buf) \<leftarrow> ch_ltoa 1 (- l) 10 buf;
        Some (take p buf)
      }
      else do {
        (p, buf) \<leftarrow> ch_ltoa 0 l 10 tmpbuf;
        Some (take p buf)
      })"

definition unsigned_conversion :: "u32 \<Rightarrow> u32 \<Rightarrow> u8 list option" where
  "unsigned_conversion l radix = do {
     (p, buf) \<leftarrow> ch_ltoa 0 l radix tmpbuf;
     Some (take p buf)
   }"

text \<open>
  The \<open>switch\<close>: the characters from \<open>s\<close> to \<open>p\<close>, the filler, and the arguments that are left. A
  \<open>long\<close> is as long as an \<open>int\<close>, so \<open>is_long\<close> makes no difference to what is fetched.
\<close>

definition convert :: "u8 \<Rightarrow> bool \<Rightarrow> u8 \<Rightarrow> int \<Rightarrow> argument list \<Rightarrow> (u8 list \<times> u8 \<times> argument list) option" where
  "convert c is_long filler precision ap =
     (if c = 99 then do {
        (a, ap) \<leftarrow> va_word ap;
        Some ([ucast a], SPACE, ap)
      }
      else if c = 115 then do {
        (s, ap) \<leftarrow> va_string ap;
        let s = (case s of None \<Rightarrow> null_string | Some s \<Rightarrow> s);
        bs \<leftarrow> string_prefix s (if precision = 0 then 32767 else precision);
        Some (bs, SPACE, ap)
      }
      else if c \<in> {68, 100, 73, 105} then do {
        (l, ap) \<leftarrow> (if is_long then va_word ap else va_word ap);
        bs \<leftarrow> signed_conversion l;
        Some (bs, filler, ap)
      }
      else if c \<in> {88, 120, 85, 117, 79, 111} then do {
        (l, ap) \<leftarrow> (if is_long then va_word ap else va_word ap);
        bs \<leftarrow> unsigned_conversion l (if c \<in> {88, 120} then 16 else if c \<in> {85, 117} then 10 else 8);
        Some (bs, filler, ap)
      }
      else Some ([c], filler, ap))"

text \<open>The characters sent for a conversion, with its fillers.\<close>

definition padded_field :: "bool \<Rightarrow> u8 \<Rightarrow> int \<Rightarrow> u8 list \<Rightarrow> u8 list" where
  "padded_field left_align filler width s =
     (let fill = replicate (nat (width - int (length s))) filler
      in if left_align then s @ fill
         else if fill \<noteq> [] \<and> s \<noteq> [] \<and> hd s = MINUS \<and> filler = ZERO then MINUS # fill @ tl s
         else fill @ s)"

text \<open>Everything between a percent sign and the characters sent for it.\<close>

definition directive :: "u8 list \<Rightarrow> argument list \<Rightarrow> (u8 list \<times> u8 list \<times> argument list) option" where
  "directive fmt ap = do {
     (left_align, fmt) \<leftarrow> flag MINUS fmt;
     (zero, fmt) \<leftarrow> flag ZERO fmt;
     (c, fmt, width, ap) \<leftarrow> number fmt 0 ap;
     (c, fmt, precision, ap) \<leftarrow> (if c = PERIOD then number fmt 0 ap else Some (c, fmt, 0, ap));
     (is_long, c, fmt) \<leftarrow> modifier c fmt;
     (s, filler, ap) \<leftarrow> convert c is_long (if zero then ZERO else SPACE) precision ap;
     Some (padded_field left_align filler width s, fmt, ap)
   }"

section \<open>Printing\<close>

text \<open>\<open>streamPut\<close> for each character, with the count \<open>n\<close>; the message it returns is ignored.\<close>

primrec put_all :: "(u8 \<Rightarrow> 's \<Rightarrow> (int \<times> 's) option) \<Rightarrow> u8 list \<Rightarrow> 's \<Rightarrow> int \<Rightarrow> ('s \<times> int) option" where
  "put_all put [] s n = Some (s, n)"
| "put_all put (b # bs) s n = do {
     (msg, s) \<leftarrow> put b s;
     n \<leftarrow> c_int (n + 1);
     put_all put bs s n
   }"

lemma flag_length: "flag x fmt = Some (r, fmt') \<Longrightarrow> length fmt' \<le> length fmt"
  by (auto simp: flag_def split: list.splits if_splits)

lemma number_length: "number fmt w ap = Some (c, fmt', w', ap') \<Longrightarrow> length fmt' < length fmt"
  by (induction fmt arbitrary: w ap) (fastforce split: if_splits)+

lemma modifier_length: "modifier c fmt = Some (is_long, c', fmt') \<Longrightarrow> length fmt' \<le> length fmt"
  by (auto simp: modifier_def split: list.splits if_splits)

lemma directive_length: "directive fmt ap = Some (bs, fmt', ap') \<Longrightarrow> length fmt' < length fmt"
  by (fastforce simp: directive_def split: if_splits dest!: flag_length number_length modifier_length)

function chvprintf_loop ::
  "(u8 \<Rightarrow> 's \<Rightarrow> (int \<times> 's) option) \<Rightarrow> u8 list \<Rightarrow> argument list \<Rightarrow> 's \<Rightarrow> int \<Rightarrow> ('s \<times> int) option" where
  "chvprintf_loop put fmt ap s n =
     (case fmt of
        [] \<Rightarrow> None
      | c # fmt \<Rightarrow>
          if c = 0 then Some (s, n)
          else if c \<noteq> PERCENT then do {
            (s, n) \<leftarrow> put_all put [c] s n;
            chvprintf_loop put fmt ap s n
          }
          else do {
            (bs, fmt, ap) \<leftarrow> directive fmt ap;
            (s, n) \<leftarrow> put_all put bs s n;
            chvprintf_loop put fmt ap s n
          })"
  by pat_completeness auto
termination
  by (relation "measure (\<lambda>(_, fmt, _). length fmt)") (auto dest: directive_length [OF sym] directive_length intro: less_SucI)

declare chvprintf_loop.simps [simp del]

definition chvprintf ::
  "(u8 \<Rightarrow> 's \<Rightarrow> (int \<times> 's) option) \<Rightarrow> u8 list \<Rightarrow> argument list \<Rightarrow> 's \<Rightarrow> ('s \<times> int) option" where
  "chvprintf put fmt ap s = chvprintf_loop put fmt ap s 0"

definition chprintf ::
  "(u8 \<Rightarrow> 's \<Rightarrow> (int \<times> 's) option) \<Rightarrow> u8 list \<Rightarrow> argument list \<Rightarrow> 's \<Rightarrow> ('s \<times> int) option" where
  "chprintf put fmt ap s = chvprintf put fmt ap s"

section \<open>Memory streams\<close>

record MemoryStream =
  ms_buffer :: "u8 list"
  ms_size :: u32
  ms_eos :: u32
  ms_offset :: u32

definition msObjectInit :: "u8 list \<Rightarrow> u32 \<Rightarrow> u32 \<Rightarrow> MemoryStream" where
  "msObjectInit buffer n eos = \<lparr>ms_buffer = buffer, ms_size = n, ms_eos = eos, ms_offset = 0\<rparr>"

definition ms_put :: "u8 \<Rightarrow> MemoryStream \<Rightarrow> (int \<times> MemoryStream) option" where
  "ms_put b ms =
     (if ms_size ms - ms_eos ms \<le> 0 then Some (-2, ms)
      else do {
        mem \<leftarrow> upd_opt (ms_buffer ms) (unat (ms_eos ms)) b;
        Some (0, ms\<lparr>ms_buffer := mem, ms_eos := ms_eos ms + 1\<rparr>)
      })"

definition ms_get :: "MemoryStream \<Rightarrow> (int \<times> MemoryStream) option" where
  "ms_get ms =
     (if ms_eos ms - ms_offset ms \<le> 0 then Some (-2, ms)
      else do {
        b \<leftarrow> nth_opt (ms_buffer ms) (unat (ms_offset ms));
        Some (uint b, ms\<lparr>ms_offset := ms_offset ms + 1\<rparr>)
      })"

text \<open>\<open>memcpy\<close> from the bytes \<open>bs\<close> to an offset of a buffer, and from an offset of a buffer.\<close>

definition copy_into :: "u8 list \<Rightarrow> nat \<Rightarrow> u8 list \<Rightarrow> u8 list option" where
  "copy_into mem k bs =
     (if k + length bs \<le> length mem then Some (take k mem @ bs @ drop (k + length bs) mem) else None)"

definition copy_from :: "u8 list \<Rightarrow> nat \<Rightarrow> nat \<Rightarrow> u8 list option" where
  "copy_from mem k n = (if k + n \<le> length mem then Some (take n (drop k mem)) else None)"

text \<open>\<open>bs\<close> is the memory at \<open>bp\<close>.\<close>

definition ms_writes :: "u8 list \<Rightarrow> u32 \<Rightarrow> MemoryStream \<Rightarrow> (u32 \<times> MemoryStream) option" where
  "ms_writes bs n ms = do {
     let n = (if ms_size ms - ms_eos ms < n then ms_size ms - ms_eos ms else n);
     canard_assert (unat n \<le> length bs);
     mem \<leftarrow> copy_into (ms_buffer ms) (unat (ms_eos ms)) (take (unat n) bs);
     Some (n, ms\<lparr>ms_buffer := mem, ms_eos := ms_eos ms + n\<rparr>)
   }"

definition ms_reads :: "u32 \<Rightarrow> MemoryStream \<Rightarrow> (u8 list \<times> u32 \<times> MemoryStream) option" where
  "ms_reads n ms = do {
     let n = (if ms_eos ms - ms_offset ms < n then ms_eos ms - ms_offset ms else n);
     bs \<leftarrow> copy_from (ms_buffer ms) (unat (ms_offset ms)) (unat n);
     Some (bs, n, ms\<lparr>ms_offset := ms_offset ms + n\<rparr>)
   }"

text \<open>The results are the memory at \<open>str\<close> and the count.\<close>

definition chsnprintf :: "u8 list \<Rightarrow> u32 \<Rightarrow> u8 list \<Rightarrow> argument list \<Rightarrow> (u8 list \<times> int) option" where
  "chsnprintf str n fmt ap = do {
     let size_wo_nul = (if n > 0 then n - 1 else 0);
     let ms = msObjectInit str size_wo_nul 0;
     (ms, retval) \<leftarrow> chvprintf ms_put fmt ap ms;
     str \<leftarrow> (if ms_eos ms < n then upd_opt (ms_buffer ms) (unat (ms_eos ms)) 0 else Some (ms_buffer ms));
     Some (str, retval)
   }"

end
