(* ===== verification/Chprintf_Inv.thy ===== *)
theory Chprintf_Inv
  imports Chprintf
begin

text \<open>
  Properties of the formatted output: printed numbers read back, printing depends on the stream only
  through the bytes put into it, and what \<open>chsnprintf\<close> leaves in its buffer.
\<close>

section \<open>Digits\<close>

text \<open>The digits of a number, highest first, and the number that digits stand for.\<close>

fun show_number :: "nat \<Rightarrow> nat \<Rightarrow> u8 list" where
  "show_number r n =
     (if n < r \<or> r < 2 then [digit (of_nat (n mod r))] else show_number r (n div r) @ [digit (of_nat (n mod r))])"

declare show_number.simps [simp del]

definition digit_value :: "u8 \<Rightarrow> nat" where
  "digit_value b = (if b \<le> NINE then unat b - 48 else unat b - 55)"

definition read_number :: "nat \<Rightarrow> u8 list \<Rightarrow> nat" where
  "read_number r bs = foldl (\<lambda>v b. v * r + digit_value b) 0 bs"

lemma digit_inverse: "n < 16 \<Longrightarrow> digit_value (digit (of_nat n)) = n \<and> digit (of_nat n) \<noteq> MINUS"
proof -
  assume "n < 16"
  then have "n \<in> set [0..<16]" by simp
  moreover have "\<forall>n \<in> set [0..<16]. digit_value (digit (of_nat n)) = n \<and> digit (of_nat n) \<noteq> MINUS"
    by code_simp
  ultimately show ?thesis by blast
qed

lemma read_snoc: "read_number r (bs @ [b]) = read_number r bs * r + digit_value b"
  by (simp add: read_number_def)

lemma read_show: "2 \<le> r \<Longrightarrow> r \<le> 16 \<Longrightarrow> read_number r (show_number r n) = n"
proof (induction n rule: less_induct)
  case (less n)
  have d: "digit_value (digit (of_nat (n mod r))) = n mod r"
    using digit_inverse [of "n mod r"] less.prems by (meson less_le_trans mod_less_divisor zero_less_numeral order_less_le_trans)
  show ?case
  proof (cases "n < r")
    case True
    then show ?thesis using d by (simp add: show_number.simps [of r n] read_number_def)
  next
    case False
    then have "n div r < n" using less.prems by (intro div_less_dividend) auto
    from less.IH [OF this] False less.prems show ?thesis
      using d by (simp add: show_number.simps [of r n] read_snoc)
  qed
qed

lemma show_nonempty [simp]: "show_number r n \<noteq> []"
  by (simp add: show_number.simps [of r n])

lemma show_no_minus: "2 \<le> r \<Longrightarrow> r \<le> 16 \<Longrightarrow> MINUS \<notin> set (show_number r n)"
proof (induction n rule: less_induct)
  case (less n)
  have d: "digit (of_nat (n mod r)) \<noteq> MINUS"
    using digit_inverse [of "n mod r"] less.prems by (meson less_le_trans mod_less_divisor zero_less_numeral order_less_le_trans)
  show ?case
  proof (cases "n < r")
    case True
    then show ?thesis using d by (simp add: show_number.simps [of r n])
  next
    case False
    then have "n div r < n" using less.prems by (intro div_less_dividend) auto
    from less.IH [OF this] False less.prems show ?thesis
      using d by (simp add: show_number.simps [of r n])
  qed
qed

lemma show_hd: "2 \<le> r \<Longrightarrow> r \<le> 16 \<Longrightarrow> hd (show_number r n) \<noteq> MINUS"
  by (metis hd_in_set show_nonempty show_no_minus)

lemma show_length: "2 \<le> r \<Longrightarrow> n < r ^ k \<Longrightarrow> 0 < k \<Longrightarrow> length (show_number r n) \<le> k"
proof (induction k arbitrary: n)
  case 0
  then show ?case by simp
next
  case (Suc k)
  show ?case
  proof (cases "n < r")
    case True
    then show ?thesis by (simp add: show_number.simps [of r n])
  next
    case False
    then have "k \<noteq> 0" using Suc.prems by (cases k) auto
    moreover have "n div r < r ^ k"
      using Suc.prems by (simp add: less_mult_imp_div_less mult.commute)
    ultimately show ?thesis using Suc.IH [of "n div r"] Suc.prems False by (simp add: show_number.simps [of r n])
  qed
qed

section \<open>The digit loops\<close>

lemma digit_loop_shows:
  assumes "2 \<le> r" "r \<le> 16" "unat radix = r" and "length (show_number r (unat l)) \<le> q" and "q \<le> length buf"
  shows "digit_loop q radix l l buf =
    Some (q - length (show_number r (unat l)),
          take (q - length (show_number r (unat l))) buf @ show_number r (unat l) @ drop q buf)"
  using assms(4,5)
proof (induction q arbitrary: l buf)
  case 0
  then show ?case by simp
next
  case (Suc q)
  have m: "l mod radix = of_nat (unat l mod r)" by (simp add: assms(3) [symmetric] unat_mod [symmetric])
  have d: "unat (l div radix) = unat l div r" using assms(3) by (simp add: unat_div)
  have z: "l div radix = 0 \<longleftrightarrow> unat l < r"
    using assms(1) by (simp add: d div_eq_0_iff unat_eq_zero [symmetric] del: unat_eq_zero)
  have q: "q < length buf" using Suc.prems by simp
  have rz: "radix \<noteq> 0" using assms(1,3) by auto
  have dr: "drop q (buf[q := x]) = x # drop (Suc q) buf" for x using q by (simp add: drop_update_swap Cons_nth_drop_Suc [symmetric])
  show ?case
  proof (cases "unat l < r")
    case True
    then have "show_number r (unat l) = [digit (l mod radix)]" by (simp add: m show_number.simps [of r "unat l"])
    then show ?thesis using True q rz z by (simp add: upd_conv_take_nth_drop)
  next
    case False
    then have s: "show_number r (unat l) = show_number r (unat (l div radix)) @ [digit (l mod radix)]"
      using assms(1) by (simp add: m d show_number.simps [of r "unat l"])
    then have le: "length (show_number r (unat (l div radix))) \<le> q" using Suc.prems by simp
    from Suc.IH [of "l div radix" "buf[q := digit (l mod radix)]"] False z rz q le
    show ?thesis by (simp add: s dr)
  qed
qed

lemma move_loop_moves:
  assumes "p \<le> q" and "0 < i" and "q + i \<le> length buf"
  shows "\<exists>buf'. move_loop i p q buf = Some (p + i, buf') \<and> length buf' = length buf \<and>
    take (p + i) buf' = take p buf @ take i (drop q buf)"
  using assms
proof (induction i arbitrary: p q buf)
  case 0
  then show ?case by simp
next
  case (Suc i)
  let ?buf = "buf[p := buf ! q]"
  have b: "nth_opt buf q = Some (buf ! q)" "upd_opt buf p (buf ! q) = Some ?buf" using Suc.prems by simp_all
  have t: "take (Suc p) ?buf = take p buf @ [buf ! q]" using Suc.prems by (simp add: take_Suc_conv_app_nth)
  have d: "drop (Suc q) ?buf = drop (Suc q) buf" using Suc.prems by simp
  have c: "drop q buf = buf ! q # drop (Suc q) buf" using Suc.prems by (simp add: Cons_nth_drop_Suc)
  show ?case
  proof (cases "i = 0")
    case True
    then show ?thesis using b t c by simp
  next
    case False
    with Suc.prems have "Suc p \<le> Suc q" "0 < i" "Suc q + i \<le> length ?buf" by simp_all
    from Suc.IH [OF this] b False t d c show ?thesis by auto
  qed
qed

lemma ch_ltoa_shows:
  assumes "2 \<le> r" "r \<le> 16" "unat radix = r" and "length (show_number r (unat l)) \<le> MAX_FILLER"
    and "p + MAX_FILLER \<le> length buf"
  shows "\<exists>buf'. ch_ltoa p l radix buf = Some (p + length (show_number r (unat l)), buf') \<and>
    take (p + length (show_number r (unat l))) buf' = take p buf @ show_number r (unat l)"
proof -
  let ?s = "show_number r (unat l)"
  let ?q = "p + MAX_FILLER - length ?s"
  let ?b = "take ?q buf @ ?s @ drop (p + MAX_FILLER) buf"
  have "digit_loop (p + MAX_FILLER) radix l l buf = Some (?q, ?b)"
    using digit_loop_shows [OF assms(1-3), of l "p + MAX_FILLER" buf] assms(4,5) by simp
  moreover have len: "length (take ?q buf) = ?q" "p \<le> ?q" "p + MAX_FILLER - ?q = length ?s" using assms(4,5) by simp_all
  moreover obtain buf' where "move_loop (length ?s) p ?q ?b = Some (p + length ?s, buf')"
      "take (p + length ?s) buf' = take p ?b @ take (length ?s) (drop ?q ?b)"
    using move_loop_moves [of p ?q "length ?s" ?b, OF len(2)] assms(4,5) by auto
  moreover have "take p ?b = take p buf" "take (length ?s) (drop ?q ?b) = ?s" using len by (simp_all add: min_def)
  ultimately show ?thesis by (simp add: ch_ltoa_def long_to_string_with_divisor_def Let_def)
qed


section \<open>Conversions\<close>

definition read_signed :: "u8 list \<Rightarrow> int" where
  "read_signed bs =
     (if bs \<noteq> [] \<and> hd bs = MINUS then - int (read_number 10 (tl bs)) else int (read_number 10 bs))"

definition radix_of :: "u8 \<Rightarrow> nat" where
  "radix_of c = (if c \<in> {88, 120} then 16 else if c \<in> {85, 117} then 10 else 8)"

lemma length_u32:
  "length (show_number 8 (unat (l :: u32))) \<le> MAX_FILLER"
  "length (show_number 10 (unat l)) \<le> MAX_FILLER"
  "length (show_number 16 (unat l)) \<le> MAX_FILLER"
proof -
  have b: "unat l < 4294967296" using unsigned_less [of l] by simp
  show "length (show_number 8 (unat l)) \<le> MAX_FILLER" by (rule show_length) (use b in simp_all)
  show "length (show_number 10 (unat l)) \<le> MAX_FILLER" by (rule show_length) (use b in simp_all)
  show "length (show_number 16 (unat l)) \<le> MAX_FILLER" by (rule show_length) (use b in simp_all)
qed

lemma unsigned_conversion_shows:
  assumes "r \<in> {8, 10, 16}"
  shows "unsigned_conversion l (of_nat r) = Some (show_number r (unat l))"
proof -
  have r: "2 \<le> r" "r \<le> 16" "unat (of_nat r :: u32) = r" using assms by auto
  have "length (show_number r (unat l)) \<le> MAX_FILLER" using assms length_u32 [of l] by auto
  from ch_ltoa_shows [OF r this, of 0 tmpbuf] show ?thesis
    by (auto simp: unsigned_conversion_def tmpbuf_def)
qed

lemma unat_minus_sint: "sint (l :: u32) < 0 \<Longrightarrow> int (unat (- l)) = - sint l"
proof -
  assume "sint l < 0"
  moreover have "sint l = sint l" ..
  moreover have "- (2 ^ 31) \<le> sint l" using sint_greater_eq [of l] by simp
  ultimately have r: "0 \<le> - sint l" "- sint l < 2 ^ 32" by simp_all
  have "- l = word_of_int (- sint l)" by simp
  then have "uint (- l) = (- sint l) mod 2 ^ 32" by (simp only: uint_word_of_int) simp
  also have "\<dots> = - sint l" using r by (rule mod_pos_pos_trivial)
  finally show ?thesis by simp
qed

lemma sint_nonneg_unat: "0 \<le> sint (l :: u32) \<Longrightarrow> int (unat l) = sint l"
proof -
  assume "0 \<le> sint l"
  moreover have "sint l < 2 ^ 31" using sint_less [of l] by simp
  ultimately have r: "0 \<le> sint l" "sint l < 2 ^ 32" by simp_all
  have "uint l = uint (word_of_int (sint l) :: u32)" by simp
  also have "\<dots> = sint l mod 2 ^ 32" by (simp only: uint_word_of_int) simp
  also have "\<dots> = sint l" using r by (rule mod_pos_pos_trivial)
  finally show ?thesis by simp
qed

definition show_signed :: "int \<Rightarrow> u8 list" where
  "show_signed i = (if i < 0 then MINUS # show_number 10 (nat (- i)) else show_number 10 (nat i))"

lemma signed_conversion_shows: "signed_conversion l = Some (show_signed (sint l))"
proof (cases "sint l < 0")
  case True
  have n: "unat (- l) = nat (- sint l)" using unat_minus_sint [OF True] by (metis nat_int)
  have "upd_opt tmpbuf 0 MINUS = Some (MINUS # replicate 11 0)" by (simp add: tmpbuf_def numeral_eq_Suc)
  with ch_ltoa_shows [of 10 10 "- l" 1 "MINUS # replicate 11 0"] length_u32(2) [of "- l"] True n show ?thesis
    by (auto simp: signed_conversion_def show_signed_def)
next
  case False
  then have n: "unat l = nat (sint l)" using sint_nonneg_unat [of l] by (metis nat_int not_le)
  from ch_ltoa_shows [of 10 10 l 0 tmpbuf] length_u32(2) [of l] False n show ?thesis
    by (auto simp: signed_conversion_def show_signed_def tmpbuf_def)
qed

lemma read_signed_show: "read_signed (show_signed i) = i"
proof -
  have "hd (show_number 10 n) \<noteq> MINUS" for n by (rule show_hd) simp_all
  then show ?thesis by (simp add: read_signed_def show_signed_def read_show)
qed

lemma read_zeros: "read_number r (replicate k ZERO @ bs) = read_number r bs"
  by (induction k) (simp_all add: read_number_def digit_value_def)

lemma read_padded:
  "read_signed (padded_field False ZERO w (show_signed i)) = i"
  "2 \<le> r \<Longrightarrow> r \<le> 16 \<Longrightarrow> read_number r (padded_field False ZERO w (show_number r n)) = n"
proof -
  show "read_number r (padded_field False ZERO w (show_number r n)) = n" if "2 \<le> r" "r \<le> 16"
  proof -
    have "hd (show_number r n) \<noteq> MINUS" by (rule show_hd [OF that])
    then show ?thesis by (simp add: padded_field_def Let_def read_zeros read_show that)
  qed
  have h: "hd (show_number 10 n) \<noteq> MINUS" for n by (rule show_hd) simp_all
  have z: "hd (replicate k ZERO @ show_number 10 n) \<noteq> MINUS" for k n by (cases k) (simp_all add: h)
  show "read_signed (padded_field False ZERO w (show_signed i)) = i"
    by (auto simp: padded_field_def Let_def show_signed_def read_signed_def read_zeros read_show h z)
qed


lemma length_padded_field: "length (padded_field left filler w s) = max (nat w) (length s)"
  by (cases s) (auto simp: padded_field_def Let_def)



section \<open>Streams\<close>

text \<open>
  Printing goes on as if it were done before anything is put into the stream: what it puts is what a
  stream that keeps everything would hold.
\<close>

abbreviation list_put :: "u8 \<Rightarrow> u8 list \<Rightarrow> (int \<times> u8 list) option" where
  "list_put \<equiv> \<lambda>b s. Some (0, s @ [b])"

lemma c_int_Some [simp]: "c_int x = Some y \<longleftrightarrow> - (2 ^ 31) \<le> x \<and> x < 2 ^ 31 \<and> y = x"
  by (auto simp: c_int_def)

lemma put_all_append: "put_all put (xs @ ys) s n = do { (s, n) \<leftarrow> put_all put xs s n; put_all put ys s n }"
  by (induction xs arbitrary: s n) (simp_all add: bind_assoc split: prod.splits, simp add: split_def)

lemma put_all_list:
  "put_all list_put bs s n = Some (s', n') \<Longrightarrow> s' = s @ bs \<and> n' = n + int (length bs)"
  by (induction bs arbitrary: s n) (simp, fastforce)

lemma put_all_count: "put_all put bs s n = Some (s', n') \<Longrightarrow> n' = n + int (length bs)"
  by (induction bs arbitrary: s n) (simp, fastforce)

lemma printing_is_putting:
  "chvprintf_loop list_put fmt ap out n = Some (out', n') \<Longrightarrow>
     \<exists>new. out' = out @ new \<and> n' = n + int (length new) \<and>
       (\<forall>s. chvprintf_loop put fmt ap s n = put_all put new s n)"
proof (induction fmt arbitrary: ap out n rule: length_induct)
  case (1 fmt)
  show ?case
  proof (cases fmt)
    case Nil
    with "1.prems" show ?thesis by (simp add: chvprintf_loop.simps [of _ "[]"])
  next
    case (Cons c rest)
    have go: "\<exists>new. out' = out @ new \<and> n' = n + int (length new) \<and>
        (\<forall>s. chvprintf_loop put fmt ap s n = put_all put new s n)"
      if "length rest' < length fmt"
        and list: "put_all list_put bs out n = Some (out1, n1)" "chvprintf_loop list_put rest' ap' out1 n1 = Some (out', n')"
        and step: "\<And>s. chvprintf_loop put fmt ap s n = do {
          (s, n) \<leftarrow> put_all put bs s n;
          chvprintf_loop put rest' ap' s n
        }" for rest' bs ap' out1 n1
    proof -
      from "1.IH" that(1) list(2) obtain new where new: "out' = out1 @ new" "n' = n1 + int (length new)"
          "\<And>s. chvprintf_loop put rest' ap' s n1 = put_all put new s n1" by blast
      have n1: "out1 = out @ bs" "n1 = n + int (length bs)" using put_all_list [OF list(1)] by simp_all
      have "chvprintf_loop put fmt ap s n = put_all put (bs @ new) s n" for s
        using put_all_count [of put bs s n]
        by (cases "put_all put bs s n") (auto simp: step put_all_append new(3) [unfolded n1(2)])
      then show ?thesis using new(1,2) n1 by (intro exI [of _ "bs @ new"]) simp
    qed
    have shorter: "length rest < length fmt" by (simp add: Cons)
    show ?thesis
    proof (cases "c = 0 \<or> c \<noteq> PERCENT")
      case True
      show ?thesis
      proof (cases "c = 0")
        case True
        with "1.prems" Cons show ?thesis by (auto simp: chvprintf_loop.simps [of _ "0 # rest"])
      next
        case False
        with True "1.prems" Cons obtain out1 n1 where
            "put_all list_put [c] out n = Some (out1, n1)" "chvprintf_loop list_put rest ap out1 n1 = Some (out', n')"
          by (auto simp: chvprintf_loop.simps [of _ "c # rest"])
        from shorter this show ?thesis by (rule go) (use True False Cons in \<open>simp add: chvprintf_loop.simps [of _ "c # rest"]\<close>)
      qed
    next
      case False
      with "1.prems" Cons obtain bs rest' ap' out1 n1 where d: "directive rest ap = Some (bs, rest', ap')"
          "put_all list_put bs out n = Some (out1, n1)" "chvprintf_loop list_put rest' ap' out1 n1 = Some (out', n')"
        by (auto simp: chvprintf_loop.simps [of _ "c # rest"])
      have "length rest' < length fmt" using directive_length [OF d(1)] shorter by simp
      from this d(2,3) show ?thesis by (rule go) (use False d(1) Cons in \<open>simp add: chvprintf_loop.simps [of _ "37 # rest"]\<close>)
    qed
  qed
qed

lemma formatted_output:
  assumes "chvprintf list_put fmt ap [] = Some (out, n)"
  shows "n = int (length out)" and "n < 2 ^ 31" and "chvprintf put fmt ap s = put_all put out s 0"
proof -
  from assms printing_is_putting [of fmt ap "[]" 0 out n put] show *: "n = int (length out)" "chvprintf put fmt ap s = put_all put out s 0"
    by (auto simp: chvprintf_def)
  from assms printing_is_putting [of fmt ap "[]" 0 out n list_put] have p: "put_all list_put out [] 0 = Some (out, n)"
    by (auto simp: chvprintf_def)
  have "put_all put' bs s k = Some (s', k') \<Longrightarrow> k < 2 ^ 31 \<Longrightarrow> k' < 2 ^ 31" for put' :: "u8 \<Rightarrow> u8 list \<Rightarrow> (int \<times> u8 list) option" and bs s k s' k'
    by (induction bs arbitrary: s k) auto
  from this [OF p] show "n < 2 ^ 31" by simp
qed

text \<open>
  The contract of a stream: a byte is appended as long as there is room. A stream that cuts off what does
  not fit promises more.
\<close>

locale byte_stream =
  fixes put :: "u8 \<Rightarrow> 's \<Rightarrow> (int \<times> 's) option" and inv :: "'s \<Rightarrow> bool"
    and written :: "'s \<Rightarrow> u8 list" and room :: "'s \<Rightarrow> nat"
  assumes put_fits: "inv s \<Longrightarrow> 0 < room s \<Longrightarrow>
    \<exists>msg s'. put b s = Some (msg, s') \<and> inv s' \<and> written s' = written s @ [b] \<and> room s' = room s - 1"
begin

lemma put_all_fits:
  "inv s \<Longrightarrow> length bs \<le> room s \<Longrightarrow> 0 \<le> n \<Longrightarrow> n + int (length bs) < 2 ^ 31 \<Longrightarrow>
     \<exists>s'. put_all put bs s n = Some (s', n + int (length bs)) \<and> inv s' \<and> written s' = written s @ bs \<and>
       room s' = room s - length bs"
proof (induction bs arbitrary: s n)
  case Nil
  then show ?case by simp
next
  case (Cons b bs)
  then obtain msg s1 where s1: "put b s = Some (msg, s1)" "inv s1" "written s1 = written s @ [b]" "room s1 = room s - 1"
    using put_fits [of s b] by auto
  with Cons.prems Cons.IH [of s1 "n + 1"] show ?case by (auto simp: algebra_simps)
qed

lemma print_fits:
  assumes "inv s" and "chvprintf list_put fmt ap [] = Some (out, n)" and "length out \<le> room s"
  shows "\<exists>s'. chvprintf put fmt ap s = Some (s', int (length out)) \<and> inv s' \<and> written s' = written s @ out"
  using put_all_fits [OF assms(1,3), of 0] formatted_output(1) [OF assms(2)] formatted_output(2) [OF assms(2)]
    formatted_output(3) [OF assms(2), of put s] by auto

end

locale truncating_stream = byte_stream put inv written room
  for put :: "u8 \<Rightarrow> 's \<Rightarrow> (int \<times> 's) option" and inv :: "'s \<Rightarrow> bool"
    and written :: "'s \<Rightarrow> u8 list" and room :: "'s \<Rightarrow> nat" +
  assumes put_full: "inv s \<Longrightarrow> room s = 0 \<Longrightarrow> \<exists>msg. put b s = Some (msg, s)"
begin

lemma put_all_truncates:
  "inv s \<Longrightarrow> 0 \<le> n \<Longrightarrow> n + int (length bs) < 2 ^ 31 \<Longrightarrow>
     \<exists>s'. put_all put bs s n = Some (s', n + int (length bs)) \<and> inv s' \<and> written s' = written s @ take (room s) bs \<and>
       room s' = room s - length bs"
proof (induction bs arbitrary: s n)
  case Nil
  then show ?case by simp
next
  case (Cons b bs)
  show ?case
  proof (cases "room s = 0")
    case True
    then obtain msg where "put b s = Some (msg, s)" using put_full Cons.prems by blast
    with True Cons.prems Cons.IH [of s "n + 1"] show ?thesis by (auto simp: algebra_simps)
  next
    case False
    then obtain msg s1 where s1: "put b s = Some (msg, s1)" "inv s1" "written s1 = written s @ [b]" "room s1 = room s - 1"
      using put_fits [of s b] Cons.prems by auto
    moreover have "take (room s) (b # bs) = b # take (room s - 1) bs" using False by (cases "room s") simp_all
    ultimately show ?thesis using Cons.prems Cons.IH [of s1 "n + 1"] by (auto simp: algebra_simps)
  qed
qed

lemma print_truncates:
  assumes "inv s" and "chvprintf list_put fmt ap [] = Some (out, n)"
  shows "\<exists>s'. chvprintf put fmt ap s = Some (s', int (length out)) \<and> inv s' \<and> written s' = written s @ take (room s) out"
  using put_all_truncates [OF assms(1), of 0 out] formatted_output(1) [OF assms(2)] formatted_output(2) [OF assms(2)]
    formatted_output(3) [OF assms(2), of put s] by auto

end


section \<open>Memory streams\<close>

definition ms_inv :: "MemoryStream \<Rightarrow> bool" where
  "ms_inv ms \<longleftrightarrow> ms_offset ms \<le> ms_eos ms \<and> ms_eos ms \<le> ms_size ms \<and> unat (ms_size ms) \<le> length (ms_buffer ms)"

definition ms_written :: "MemoryStream \<Rightarrow> u8 list" where
  "ms_written ms = take (unat (ms_eos ms)) (ms_buffer ms)"

definition ms_room :: "MemoryStream \<Rightarrow> nat" where
  "ms_room ms = unat (ms_size ms) - unat (ms_eos ms)"

lemma ms_put_fits:
  assumes "ms_inv ms" and "0 < ms_room ms"
  shows "\<exists>ms'. ms_put b ms = Some (0, ms') \<and> ms_inv ms' \<and> ms_written ms' = ms_written ms @ [b] \<and>
    ms_room ms' = ms_room ms - 1 \<and> ms_size ms' = ms_size ms \<and> length (ms_buffer ms') = length (ms_buffer ms) \<and>
    drop (Suc (unat (ms_eos ms))) (ms_buffer ms') = drop (Suc (unat (ms_eos ms))) (ms_buffer ms)"
proof -
  have lt: "unat (ms_eos ms) < unat (ms_size ms)" using assms(2) by (simp add: ms_room_def)
  have len: "unat (ms_eos ms) < length (ms_buffer ms)" using assms(1) lt by (simp add: ms_inv_def)
  have "ms_size ms - ms_eos ms \<noteq> 0" using lt by auto
  then have put: "ms_put b ms =
      Some (0, ms\<lparr>ms_buffer := (ms_buffer ms)[unat (ms_eos ms) := b], ms_eos := ms_eos ms + 1\<rparr>)"
    using len by (simp add: ms_put_def)
  have "unat (ms_eos ms + 1) = Suc (unat (ms_eos ms))" by (rule unat_plus_1 [OF lt])
  then show ?thesis
    using assms lt len
    by (simp add: put ms_inv_def ms_written_def ms_room_def word_le_nat_alt take_Suc_conv_app_nth)
qed

lemma ms_put_full:
  assumes "ms_inv ms" and "ms_room ms = 0"
  shows "ms_put b ms = Some (-2, ms)"
proof -
  have "ms_eos ms = ms_size ms"
    using assms by (simp add: ms_inv_def ms_room_def word_le_nat_alt word_unat_eq_iff)
  then show ?thesis by (simp add: ms_put_def)
qed

text \<open>A memory stream, seen as a stream whose buffer is \<open>str\<close> behind what is written.\<close>

definition ms_stream :: "u32 \<Rightarrow> u8 list \<Rightarrow> MemoryStream \<Rightarrow> bool" where
  "ms_stream n str ms \<longleftrightarrow> ms_inv ms \<and> ms_size ms = n \<and> length (ms_buffer ms) = length str \<and>
     drop (unat (ms_eos ms)) (ms_buffer ms) = drop (unat (ms_eos ms)) str"

interpretation ms: truncating_stream ms_put "ms_stream n str" ms_written ms_room for n str
proof unfold_locales
  fix ms b
  assume s: "ms_stream n str ms" and room: "0 < ms_room ms"
  then have "ms_inv ms" by (simp add: ms_stream_def)
  with room obtain ms' where ms': "ms_put b ms = Some (0, ms')" "ms_inv ms'" "ms_written ms' = ms_written ms @ [b]"
      "ms_room ms' = ms_room ms - 1" "ms_size ms' = ms_size ms" "length (ms_buffer ms') = length (ms_buffer ms)"
      "drop (Suc (unat (ms_eos ms))) (ms_buffer ms') = drop (Suc (unat (ms_eos ms))) (ms_buffer ms)"
    using ms_put_fits by blast
  moreover have "unat (ms_eos ms') = Suc (unat (ms_eos ms))"
  proof -
    have "unat (ms_eos ms) < unat (ms_size ms)" "unat (ms_size ms) - unat (ms_eos ms') = unat (ms_size ms) - unat (ms_eos ms) - 1"
        "unat (ms_eos ms') \<le> unat (ms_size ms)"
      using ms'(2,4,5) room by (simp_all add: ms_room_def ms_inv_def word_le_nat_alt)
    then show ?thesis by linarith
  qed
  moreover have "drop (Suc (unat (ms_eos ms))) (ms_buffer ms) = drop (Suc (unat (ms_eos ms))) str"
  proof -
    have "drop 1 (drop (unat (ms_eos ms)) (ms_buffer ms)) = drop 1 (drop (unat (ms_eos ms)) str)"
      using s by (simp only: ms_stream_def)
    then show ?thesis by simp
  qed
  ultimately have "ms_stream n str ms'" using s by (simp add: ms_stream_def)
  with ms' show "\<exists>msg ms'. ms_put b ms = Some (msg, ms') \<and> ms_stream n str ms' \<and>
      ms_written ms' = ms_written ms @ [b] \<and> ms_room ms' = ms_room ms - 1" by blast
next
  fix ms b
  assume "ms_stream n str ms" and "ms_room ms = 0"
  then show "\<exists>msg. ms_put b ms = Some (msg, ms)" using ms_put_full by (auto simp: ms_stream_def)
qed

text \<open>
  C36. \<open>chsnprintf\<close> into a buffer of at least \<open>n\<close> bytes: whatever the format prints, it writes inside the
  buffer only, as much of the output as leaves room for the final zero, then the zero, and it touches
  nothing behind it; nothing at all if \<open>n\<close> is zero. The result is the length of the whole output.
\<close>

theorem chsnprintf_truncates:
  assumes "chvprintf list_put fmt ap [] = Some (out, k)" and "unat n \<le> length str"
  shows "chsnprintf str n fmt ap =
    Some (if n = 0 then str
          else let kept = take (unat n - 1) out in kept @ 0 # drop (Suc (length kept)) str, int (length out))"
proof -
  let ?cap = "if n > 0 then n - 1 else 0"
  let ?ms = "msObjectInit str ?cap 0"
  have cap: "unat ?cap = unat n - 1" by (auto simp: word_less_nat_alt unat_minus_1)
  have "ms_stream ?cap str ?ms"
    using assms(2) cap by (simp add: ms_stream_def ms_inv_def msObjectInit_def)
  from ms.print_truncates [OF this assms(1)] obtain ms where ms: "chvprintf ms_put fmt ap ?ms = Some (ms, int (length out))"
      "ms_stream ?cap str ms" "ms_written ms = ms_written ?ms @ take (ms_room ?ms) out" by blast
  have w: "ms_written ms = take (unat n - 1) out"
    using ms(3) cap by (simp add: ms_written_def ms_room_def msObjectInit_def)
  have len: "length (ms_buffer ms) = length str"
      and rest: "drop (unat (ms_eos ms)) (ms_buffer ms) = drop (unat (ms_eos ms)) str"
    using ms(2) by (simp_all add: ms_stream_def)
  have "ms_eos ms \<le> ms_size ms" "ms_size ms = ?cap" using ms(2) by (auto simp only: ms_stream_def ms_inv_def)
  then have "ms_eos ms \<le> ?cap" by (rule order_trans [OF _ eq_refl])
  then have eos: "unat (ms_eos ms) \<le> unat n - 1" by (simp only: word_le_nat_alt cap)
  have kept: "unat (ms_eos ms) = length (take (unat n - 1) out)"
    using w eos len assms(2) by (metis ms_written_def length_take min.absorb2 diff_le_self le_trans)
  show ?thesis
  proof (cases "n = 0")
    case True
    with eos have "ms_eos ms = 0" by (simp add: unat_eq_zero)
    with True rest ms(1) show ?thesis by (simp add: chsnprintf_def)
  next
    case False
    then have "0 < unat n" by (simp add: unat_gt_0)
    then have lt: "ms_eos ms < n" "unat (ms_eos ms) < length str" using eos assms(2) by (simp_all add: word_less_nat_alt)
    have "(ms_buffer ms)[unat (ms_eos ms) := 0] =
        take (unat (ms_eos ms)) (ms_buffer ms) @ 0 # drop 1 (drop (unat (ms_eos ms)) (ms_buffer ms))"
      using lt len by (simp add: upd_conv_take_nth_drop)
    also have "\<dots> = take (unat n - 1) out @ 0 # drop (Suc (length (take (unat n - 1) out))) str"
    proof -
      have "drop 1 (drop (unat (ms_eos ms)) (ms_buffer ms)) = drop 1 (drop (unat (ms_eos ms)) str)" by (simp only: rest)
      also have "\<dots> = drop (Suc (length (take (unat n - 1) out))) str" by (simp only: kept drop_drop plus_1_eq_Suc)
      finally show ?thesis using w by (simp only: ms_written_def)
    qed
    finally show ?thesis using False lt len ms(1) by (simp add: chsnprintf_def Let_def word_greater_zero_iff)
  qed
qed

theorem chsnprintf_truncates_witness:
  "chsnprintf [9, 9, 9, 9, 9] 4 [118, 37, 100, 33, 0] [Word 123] = Some ([118, 49, 50, 0, 9], 5)"
proof -
  have "directive [100, 33, 0] [Word 123] = Some ([49, 50, 51], [33, 0], [])"
    by code_simp
  then have "chvprintf list_put [118, 37, 100, 33, 0] [Word 123] [] = Some ([118, 49, 50, 51, 33], 5)"
    by (simp add: chvprintf_def chvprintf_loop.simps)
  from chsnprintf_truncates [OF this, of 4 "[9, 9, 9, 9, 9]"] show ?thesis by (simp add: Let_def)
qed

text \<open>
  C37. A format whose last character is a percent sign is not rejected: the zero that ends it is printed,
  and printing goes on with the memory behind it, and ends only at a zero that happens to follow.
\<close>

theorem trailing_percent_reads_beyond_format:
  "chvprintf_loop put (PERCENT # 0 # beyond) ap s n = do {
     (s, n) \<leftarrow> put_all put [0] s n;
     chvprintf_loop put beyond ap s n
   }"
  by (subst chvprintf_loop.simps)
     (simp add: directive_def flag_def modifier_def convert_def padded_field_def)

end
