(* ===== verification/Hal_Queues.thy ===== *)
theory Hal_Queues
  imports Canard_Prelude
begin

text \<open>
  The byte queues of the ChibiOS HAL (\<open>os/hal/src/hal_queues.c\<close>) that stand between the serial drivers
  and their threads: a ring buffer with one blocking end for threads and one end for interrupt handlers.

  What happens while the calling thread is not running is an argument, a list of events for each sleep
  and each point of preemption: bytes put, bytes taken, resets. A thread that sleeps is on the list
  \<open>q_waiting\<close>; it goes on when one of the events has readied it, or with \<open>MSG_TIMEOUT\<close> when its time is
  over. The callback \<open>q_notify\<close> of a driver acts on its hardware only; its calls are counted.
\<close>

section \<open>Data\<close>

type_synonym thread = nat
type_synonym systime_t = u16

abbreviation (input) MSG_OK :: int where "MSG_OK \<equiv> 0"
abbreviation (input) MSG_TIMEOUT :: int where "MSG_TIMEOUT \<equiv> -1"
abbreviation (input) MSG_RESET :: int where "MSG_RESET \<equiv> -2"
abbreviation (input) TIME_IMMEDIATE :: systime_t where "TIME_IMMEDIATE \<equiv> 0"
abbreviation (input) TIME_INFINITE :: systime_t where "TIME_INFINITE \<equiv> 0xFFFF"

text \<open>
  The pointers of the structure are offsets into the buffer. \<open>readied\<close> and \<open>notified\<close> record what the
  queue has told the rest of the system.
\<close>

record io_queue =
  q_waiting :: "thread list"
  q_counter :: u32
  q_buffer :: "u8 list"
  q_top :: nat
  q_wrptr :: nat
  q_rdptr :: nat
  q_notify :: bool
  readied :: "(thread \<times> int) list"
  notified :: nat

definition qSizeX :: "io_queue \<Rightarrow> nat" where "qSizeX q = q_top q"
definition qSpaceI :: "io_queue \<Rightarrow> u32" where "qSpaceI q = q_counter q"
definition iqIsEmptyI :: "io_queue \<Rightarrow> bool" where "iqIsEmptyI q \<longleftrightarrow> qSpaceI q = 0"
definition iqIsFullI :: "io_queue \<Rightarrow> bool" where "iqIsFullI q \<longleftrightarrow> q_wrptr q = q_rdptr q \<and> q_counter q \<noteq> 0"
definition oqIsEmptyI :: "io_queue \<Rightarrow> bool" where "oqIsEmptyI q \<longleftrightarrow> q_wrptr q = q_rdptr q \<and> q_counter q \<noteq> 0"
definition oqIsFullI :: "io_queue \<Rightarrow> bool" where "oqIsFullI q \<longleftrightarrow> qSpaceI q = 0"

lemmas queue_accessors [canard_simps] =
  qSizeX_def qSpaceI_def iqIsEmptyI_def iqIsFullI_def oqIsEmptyI_def oqIsFullI_def

section \<open>Threads\<close>

definition osalThreadDequeueNextI :: "int \<Rightarrow> io_queue \<Rightarrow> io_queue" where
  "osalThreadDequeueNextI msg q =
     (case q_waiting q of [] \<Rightarrow> q | t # ts \<Rightarrow> q\<lparr>q_waiting := ts, readied := readied q @ [(t, msg)]\<rparr>)"

definition osalThreadDequeueAllI :: "int \<Rightarrow> io_queue \<Rightarrow> io_queue" where
  "osalThreadDequeueAllI msg q = q\<lparr>q_waiting := [], readied := readied q @ map (\<lambda>t. (t, msg)) (q_waiting q)\<rparr>"

text \<open>
  Sleeping: \<open>run\<close> executes the events of the sleep, which are the first of the list. The message is
  \<open>None\<close> as long as nothing ends the sleep.
\<close>

definition osalThreadEnqueueTimeoutS ::
  "('e list \<Rightarrow> io_queue \<Rightarrow> (u8 list \<times> u8 list \<times> io_queue) option) \<Rightarrow> thread \<Rightarrow> systime_t \<Rightarrow>
     'e list list \<Rightarrow> io_queue \<Rightarrow> (int option \<times> u8 list \<times> u8 list \<times> io_queue \<times> 'e list list) option" where
  "osalThreadEnqueueTimeoutS run currp timeout sleeps q =
     (if timeout = TIME_IMMEDIATE then Some (Some MSG_TIMEOUT, [], [], q, sleeps)
      else let q = q\<lparr>q_waiting := q_waiting q @ [currp]\<rparr>
           in case sleeps of
                [] \<Rightarrow> Some (None, [], [], q, [])
              | es # sleeps \<Rightarrow> do {
                  (ins, outs, q) \<leftarrow> run es q;
                  case map_of (readied q) currp of
                    Some msg \<Rightarrow> Some (Some msg, ins, outs, q\<lparr>readied := filter (\<lambda>(t, m). t \<noteq> currp) (readied q)\<rparr>, sleeps)
                  | None \<Rightarrow>
                      if timeout = TIME_INFINITE then Some (None, ins, outs, q, sleeps)
                      else Some (Some MSG_TIMEOUT, ins, outs, q\<lparr>q_waiting := filter (\<lambda>t. t \<noteq> currp) (q_waiting q)\<rparr>, sleeps)
                })"

lemma sleep_shorter:
  "osalThreadEnqueueTimeoutS run currp timeout sleeps q = Some (Some msg, ins, outs, q', sleeps') \<Longrightarrow>
     msg \<noteq> MSG_TIMEOUT \<Longrightarrow> length sleeps' < length sleeps"
  by (auto simp: osalThreadEnqueueTimeoutS_def bind_eq_Some_conv Let_def split: if_splits list.splits option.splits)

section \<open>The ring buffer\<close>

definition advance :: "io_queue \<Rightarrow> nat \<Rightarrow> nat" where
  "advance q p = (if p + 1 \<ge> q_top q then 0 else p + 1)"

definition ring_write :: "u8 \<Rightarrow> io_queue \<Rightarrow> io_queue option" where
  "ring_write b q = do {
     mem \<leftarrow> upd_opt (q_buffer q) (q_wrptr q) b;
     Some (q\<lparr>q_buffer := mem, q_wrptr := advance q (q_wrptr q)\<rparr>)
   }"

definition ring_read :: "io_queue \<Rightarrow> (u8 \<times> io_queue) option" where
  "ring_read q = do {
     b \<leftarrow> nth_opt (q_buffer q) (q_rdptr q);
     Some (b, q\<lparr>q_rdptr := advance q (q_rdptr q)\<rparr>)
   }"

definition notify :: "io_queue \<Rightarrow> io_queue" where
  "notify q = (if q_notify q then q\<lparr>notified := notified q + 1\<rparr> else q)"

section \<open>Input queues\<close>

definition iqObjectInit :: "u8 list \<Rightarrow> nat \<Rightarrow> bool \<Rightarrow> io_queue" where
  "iqObjectInit bp n infy =
     \<lparr>q_waiting = [], q_counter = 0, q_buffer = bp, q_top = n, q_wrptr = 0, q_rdptr = 0, q_notify = infy,
      readied = [], notified = 0\<rparr>"

definition iqResetI :: "io_queue \<Rightarrow> io_queue" where
  "iqResetI q = osalThreadDequeueAllI MSG_RESET (q\<lparr>q_rdptr := 0, q_wrptr := 0, q_counter := 0\<rparr>)"

definition iqPutI :: "io_queue \<Rightarrow> u8 \<Rightarrow> (int \<times> io_queue) option" where
  "iqPutI q b =
     (if iqIsFullI q then Some (MSG_TIMEOUT, q)
      else do {
        q \<leftarrow> ring_write b (q\<lparr>q_counter := q_counter q + 1\<rparr>);
        Some (MSG_OK, osalThreadDequeueNextI MSG_OK q)
      })"

text \<open>The part of the reading functions that gets one byte out of a queue that is not empty.\<close>

definition iq_take :: "io_queue \<Rightarrow> (u8 \<times> io_queue) option" where
  "iq_take q = do {
     (b, q) \<leftarrow> ring_read (q\<lparr>q_counter := q_counter q - 1\<rparr>);
     Some (b, notify q)
   }"

section \<open>Output queues\<close>

definition oqObjectInit :: "u8 list \<Rightarrow> nat \<Rightarrow> bool \<Rightarrow> io_queue" where
  "oqObjectInit bp n onfy =
     \<lparr>q_waiting = [], q_counter = of_nat n, q_buffer = bp, q_top = n, q_wrptr = 0, q_rdptr = 0, q_notify = onfy,
      readied = [], notified = 0\<rparr>"

definition oqResetI :: "io_queue \<Rightarrow> io_queue" where
  "oqResetI q = osalThreadDequeueAllI MSG_RESET (q\<lparr>q_rdptr := 0, q_wrptr := 0, q_counter := of_nat (qSizeX q)\<rparr>)"

definition oqGetI :: "io_queue \<Rightarrow> (int \<times> io_queue) option" where
  "oqGetI q =
     (if oqIsEmptyI q then Some (MSG_TIMEOUT, q)
      else do {
        (b, q) \<leftarrow> ring_read (q\<lparr>q_counter := q_counter q + 1\<rparr>);
        Some (uint b, osalThreadDequeueNextI MSG_OK q)
      })"

definition oq_give :: "u8 \<Rightarrow> io_queue \<Rightarrow> io_queue option" where
  "oq_give b q = do {
     q \<leftarrow> ring_write b (q\<lparr>q_counter := q_counter q - 1\<rparr>);
     Some (notify q)
   }"

section \<open>Events\<close>

text \<open>What the other end and other threads do to a queue; the results are the bytes put and taken.\<close>

datatype event = Enqueue u8 | Dequeue | Reset

primrec fifo_run ::
  "(u8 \<Rightarrow> 's \<Rightarrow> (bool \<times> 's) option) \<Rightarrow> ('s \<Rightarrow> (u8 option \<times> 's) option) \<Rightarrow> ('s \<Rightarrow> 's) \<Rightarrow>
     event list \<Rightarrow> 's \<Rightarrow> (u8 list \<times> u8 list \<times> 's) option" where
  "fifo_run put get reset [] s = Some ([], [], s)"
| "fifo_run put get reset (e # es) s =
     (case e of
        Enqueue b \<Rightarrow> do {
          (ok, s) \<leftarrow> put b s;
          (ins, outs, s) \<leftarrow> fifo_run put get reset es s;
          Some (if ok then b # ins else ins, outs, s)
        }
      | Dequeue \<Rightarrow> do {
          (r, s) \<leftarrow> get s;
          (ins, outs, s) \<leftarrow> fifo_run put get reset es s;
          Some (ins, case r of None \<Rightarrow> outs | Some b \<Rightarrow> b # outs, s)
        }
      | Reset \<Rightarrow> fifo_run put get reset es (reset s))"

definition iq_put :: "u8 \<Rightarrow> io_queue \<Rightarrow> (bool \<times> io_queue) option" where
  "iq_put b q = do { (msg, q) \<leftarrow> iqPutI q b; Some (msg = MSG_OK, q) }"

definition iq_get :: "io_queue \<Rightarrow> (u8 option \<times> io_queue) option" where
  "iq_get q = (if iqIsEmptyI q then Some (None, q) else do { (b, q) \<leftarrow> iq_take q; Some (Some b, q) })"

definition oq_put :: "u8 \<Rightarrow> io_queue \<Rightarrow> (bool \<times> io_queue) option" where
  "oq_put b q = (if oqIsFullI q then Some (False, q) else do { q \<leftarrow> oq_give b q; Some (True, q) })"

definition oq_get :: "io_queue \<Rightarrow> (u8 option \<times> io_queue) option" where
  "oq_get q = do { (msg, q) \<leftarrow> oqGetI q; Some (if msg < MSG_OK then None else Some (word_of_int msg), q) }"

abbreviation iq_events :: "event list \<Rightarrow> io_queue \<Rightarrow> (u8 list \<times> u8 list \<times> io_queue) option" where
  "iq_events \<equiv> fifo_run iq_put iq_get iqResetI"

abbreviation oq_events :: "event list \<Rightarrow> io_queue \<Rightarrow> (u8 list \<times> u8 list \<times> io_queue) option" where
  "oq_events \<equiv> fifo_run oq_put oq_get oqResetI"

section \<open>Blocking operations\<close>

text \<open>A call returns, or its thread is still asleep when the events of the model end.\<close>

datatype 'a call = Returned 'a | Asleep

function iqGet_loop ::
  "thread \<Rightarrow> systime_t \<Rightarrow> event list list \<Rightarrow> io_queue \<Rightarrow> (int call \<times> u8 list \<times> u8 list \<times> io_queue) option" where
  "iqGet_loop currp timeout sleeps q =
     (if iqIsEmptyI q then do {
        (msg, ins, outs, q, sleeps') \<leftarrow> osalThreadEnqueueTimeoutS iq_events currp timeout sleeps q;
        case msg of
          None \<Rightarrow> Some (Asleep, ins, outs, q)
        | Some msg \<Rightarrow>
            if msg < MSG_OK then Some (Returned msg, ins, outs, q)
            else do {
              (r, ins', outs', q) \<leftarrow> iqGet_loop currp timeout sleeps' q;
              Some (r, ins @ ins', outs @ outs', q)
            }
      }
      else do {
        (b, q) \<leftarrow> iq_take q;
        Some (Returned (uint b), [], [], q)
      })"
  by pat_completeness auto
termination
  by (relation "measure (\<lambda>(_, _, sleeps, _). length sleeps)") (auto dest!: sleep_shorter)

declare iqGet_loop.simps [simp del]

definition iqGetTimeout ::
  "thread \<Rightarrow> systime_t \<Rightarrow> event list list \<Rightarrow> io_queue \<Rightarrow> (int call \<times> u8 list \<times> u8 list \<times> io_queue) option" where
  "iqGetTimeout currp timeout sleeps q = iqGet_loop currp timeout sleeps q"

function oqPut_loop ::
  "u8 \<Rightarrow> thread \<Rightarrow> systime_t \<Rightarrow> event list list \<Rightarrow> io_queue \<Rightarrow> (int call \<times> u8 list \<times> u8 list \<times> io_queue) option" where
  "oqPut_loop b currp timeout sleeps q =
     (if oqIsFullI q then do {
        (msg, ins, outs, q, sleeps') \<leftarrow> osalThreadEnqueueTimeoutS oq_events currp timeout sleeps q;
        case msg of
          None \<Rightarrow> Some (Asleep, ins, outs, q)
        | Some msg \<Rightarrow>
            if msg < MSG_OK then Some (Returned msg, ins, outs, q)
            else do {
              (r, ins', outs', q) \<leftarrow> oqPut_loop b currp timeout sleeps' q;
              Some (r, ins @ ins', outs @ outs', q)
            }
      }
      else do {
        q \<leftarrow> oq_give b q;
        Some (Returned MSG_OK, [], [], q)
      })"
  by pat_completeness auto
termination
  by (relation "measure (\<lambda>(_, _, _, sleeps, _). length sleeps)") (auto dest!: sleep_shorter)

declare oqPut_loop.simps [simp del]

definition oqPutTimeout ::
  "u8 \<Rightarrow> thread \<Rightarrow> systime_t \<Rightarrow> event list list \<Rightarrow> io_queue \<Rightarrow> (int call \<times> u8 list \<times> u8 list \<times> io_queue) option" where
  "oqPutTimeout b currp timeout sleeps q = oqPut_loop b currp timeout sleeps q"

section \<open>Operations on many bytes\<close>

text \<open>
  Around a longer operation there is a clock, and a point of preemption after each byte. \<open>systimes\<close> and
  \<open>preemptions\<close> are consumed from the front; with an empty list the clock stands still at zero and
  nothing happens at the points of preemption.
\<close>

record environment =
  sleeps :: "event list list"
  systimes :: "systime_t list"
  preemptions :: "event list list"

definition osalOsGetSystemTimeX :: "environment \<Rightarrow> systime_t \<times> environment" where
  "osalOsGetSystemTimeX e =
     (case systimes e of [] \<Rightarrow> (0, e) | t # ts \<Rightarrow> (t, e\<lparr>systimes := ts\<rparr>))"

definition preemption :: "environment \<Rightarrow> event list \<times> environment" where
  "preemption e = (case preemptions e of [] \<Rightarrow> ([], e) | es # ess \<Rightarrow> (es, e\<lparr>preemptions := ess\<rparr>))"

text \<open>The time a step of the operation may sleep: \<open>None\<close> if the deadline has passed.\<close>

definition next_timeout :: "systime_t \<Rightarrow> systime_t \<Rightarrow> environment \<Rightarrow> systime_t option \<times> environment" where
  "next_timeout timeout deadline e =
     (if timeout = TIME_INFINITE \<or> timeout = TIME_IMMEDIATE then (Some timeout, e)
      else let (now, e) = osalOsGetSystemTimeX e;
               t = deadline - now
           in (if t > timeout then None else Some t, e))"

lemma next_timeout_sleeps: "next_timeout timeout deadline e = (t, e') \<Longrightarrow> sleeps e' = sleeps e"
  by (auto simp: next_timeout_def osalOsGetSystemTimeX_def Let_def split: if_splits list.splits)

lemma preemption_sleeps: "preemption e = (es, e') \<Longrightarrow> sleeps e' = sleeps e"
  by (auto simp: preemption_def split: list.splits)

text \<open>\<open>bs\<close> is what \<open>bp\<close> has got so far, its length is \<open>r\<close>.\<close>

function iqRead_loop ::
  "thread \<Rightarrow> systime_t \<Rightarrow> systime_t \<Rightarrow> nat \<Rightarrow> u8 list \<Rightarrow> io_queue \<Rightarrow> environment \<Rightarrow>
     (u8 list call \<times> u8 list \<times> u8 list \<times> io_queue \<times> environment) option" where
  "iqRead_loop currp timeout deadline n bs q e =
     (if iqIsEmptyI q then
        (case next_timeout timeout deadline e of
           (None, e) \<Rightarrow> Some (Returned bs, [], [], q, e)
         | (Some t, e) \<Rightarrow> do {
             (msg, ins, outs, q, rest) \<leftarrow> osalThreadEnqueueTimeoutS iq_events currp t (sleeps e) q;
             let e = e\<lparr>sleeps := rest\<rparr>;
             case msg of
               None \<Rightarrow> Some (Asleep, ins, outs, q, e)
             | Some msg \<Rightarrow>
                 if msg \<noteq> MSG_OK then Some (Returned bs, ins, outs, q, e)
                 else do {
                   (r, ins', outs', q, e) \<leftarrow> iqRead_loop currp timeout deadline n bs q e;
                   Some (r, ins @ ins', outs @ outs', q, e)
                 }
           })
      else do {
        (b, q) \<leftarrow> iq_take q;
        if n - 1 = 0 then Some (Returned (bs @ [b]), [], [], q, e)
        else (case preemption e of (es, e) \<Rightarrow> do {
          (ins, outs, q) \<leftarrow> iq_events es q;
          (r, ins', outs', q, e) \<leftarrow> iqRead_loop currp timeout deadline (n - 1) (bs @ [b]) q e;
          Some (r, ins @ ins', outs @ outs', q, e)
        })
      })"
  by pat_completeness auto
termination
  by (relation "measure (\<lambda>(_, _, _, n, _, _, e). n + length (sleeps e))")
     (auto dest: sleep_shorter dest!: next_timeout_sleeps [OF sym] preemption_sleeps [OF sym])

declare iqRead_loop.simps [simp del]

definition iqReadTimeout ::
  "thread \<Rightarrow> nat \<Rightarrow> systime_t \<Rightarrow> io_queue \<Rightarrow> environment \<Rightarrow>
     (u8 list call \<times> u8 list \<times> u8 list \<times> io_queue \<times> environment) option" where
  "iqReadTimeout currp n timeout q e = do {
     canard_assert (n > 0);
     let (now, e) = osalOsGetSystemTimeX e;
     iqRead_loop currp timeout (now + timeout) n [] q e
   }"

text \<open>\<open>w\<close> is the number of bytes written, \<open>bs\<close> the rest of the caller's buffer, which is not empty.\<close>

function oqWrite_loop ::
  "thread \<Rightarrow> systime_t \<Rightarrow> systime_t \<Rightarrow> nat \<Rightarrow> u8 list \<Rightarrow> io_queue \<Rightarrow> environment \<Rightarrow>
     (nat call \<times> u8 list \<times> u8 list \<times> io_queue \<times> environment) option" where
  "oqWrite_loop currp timeout deadline w bs q e =
     (if oqIsFullI q then
        (case next_timeout timeout deadline e of
           (None, e) \<Rightarrow> Some (Returned w, [], [], q, e)
         | (Some t, e) \<Rightarrow> do {
             (msg, ins, outs, q, rest) \<leftarrow> osalThreadEnqueueTimeoutS oq_events currp t (sleeps e) q;
             let e = e\<lparr>sleeps := rest\<rparr>;
             case msg of
               None \<Rightarrow> Some (Asleep, ins, outs, q, e)
             | Some msg \<Rightarrow>
                 if msg \<noteq> MSG_OK then Some (Returned w, ins, outs, q, e)
                 else do {
                   (r, ins', outs', q, e) \<leftarrow> oqWrite_loop currp timeout deadline w bs q e;
                   Some (r, ins @ ins', outs @ outs', q, e)
                 }
           })
      else (case bs of
        [] \<Rightarrow> None
      | b # bs \<Rightarrow> do {
          q \<leftarrow> oq_give b q;
          if bs = [] then Some (Returned (w + 1), [], [], q, e)
          else (case preemption e of (es, e) \<Rightarrow> do {
            (ins, outs, q) \<leftarrow> oq_events es q;
            (r, ins', outs', q, e) \<leftarrow> oqWrite_loop currp timeout deadline (w + 1) bs q e;
            Some (r, ins @ ins', outs @ outs', q, e)
          })
        }))"
  by pat_completeness auto
termination
  by (relation "measure (\<lambda>(_, _, _, _, bs, _, e). length bs + length (sleeps e))")
     (auto dest: sleep_shorter dest!: next_timeout_sleeps [OF sym] preemption_sleeps [OF sym])

declare oqWrite_loop.simps [simp del]

definition oqWriteTimeout ::
  "thread \<Rightarrow> u8 list \<Rightarrow> systime_t \<Rightarrow> io_queue \<Rightarrow> environment \<Rightarrow>
     (nat call \<times> u8 list \<times> u8 list \<times> io_queue \<times> environment) option" where
  "oqWriteTimeout currp bs timeout q e = do {
     canard_assert (bs \<noteq> []);
     let (now, e) = osalOsGetSystemTimeX e;
     oqWrite_loop currp timeout (now + timeout) 0 bs q e
   }"

end
