(* ===== verification/Hal_Fifo.thy ===== *)
theory Hal_Fifo
  imports Hal_Queues
begin

text \<open>
  The queues of \<open>Hal_Queues\<close> are bounded first-in first-out buffers: the contract as a locale, the ring
  buffer under it, both kinds of queue as interpretations, and what the blocking operations do over them.
\<close>

section \<open>The contract of a byte queue\<close>

locale byte_fifo =
  fixes inv :: "'s \<Rightarrow> bool" and contents :: "'s \<Rightarrow> u8 list" and capacity :: "'s \<Rightarrow> nat"
    and put :: "u8 \<Rightarrow> 's \<Rightarrow> (bool \<times> 's) option" and get :: "'s \<Rightarrow> (u8 option \<times> 's) option"
    and reset :: "'s \<Rightarrow> 's"
  assumes put_fits: "inv s \<Longrightarrow> length (contents s) < capacity s \<Longrightarrow>
      returns (put b s) (\<lambda>(ok, s'). ok \<and> inv s' \<and> contents s' = contents s @ [b] \<and> capacity s' = capacity s)"
    and put_full: "inv s \<Longrightarrow> length (contents s) = capacity s \<Longrightarrow> put b s = Some (False, s)"
    and get_first: "inv s \<Longrightarrow> contents s = b # bs \<Longrightarrow>
      returns (get s) (\<lambda>(r, s'). r = Some b \<and> inv s' \<and> contents s' = bs \<and> capacity s' = capacity s)"
    and get_empty: "inv s \<Longrightarrow> contents s = [] \<Longrightarrow> get s = Some (None, s)"
    and reset_empties: "inv s \<Longrightarrow> inv (reset s) \<and> contents (reset s) = [] \<and> capacity (reset s) = capacity s"
    and within: "inv s \<Longrightarrow> length (contents s) \<le> capacity s"
begin

lemma run_fifo:
  "inv s \<Longrightarrow> returns (fifo_run put get reset es s) (\<lambda>(ins, outs, s').
     inv s' \<and> capacity s' = capacity s \<and>
     (Reset \<notin> set es \<longrightarrow> contents s @ ins = outs @ contents s'))"
proof (induction es arbitrary: s)
  case (Cons e es)
  show ?case
  proof (cases e)
    case (Enqueue b)
    show ?thesis
    proof (cases "length (contents s) < capacity s")
      case True
      from put_fits [OF Cons.prems this, of b] obtain s1 where *: "put b s = Some (True, s1)" "inv s1"
          "contents s1 = contents s @ [b]" "capacity s1 = capacity s" by (auto elim!: returnsE)
      from Cons.IH [OF *(2)] show ?thesis
        using Enqueue * by (auto elim!: returnsE)
    next
      case False
      then have "length (contents s) = capacity s" using within [OF Cons.prems] by simp
      from put_full [OF Cons.prems this] Cons.IH [OF Cons.prems] show ?thesis
        using Enqueue by (auto elim!: returnsE)
    qed
  next
    case Dequeue
    show ?thesis
    proof (cases "contents s")
      case Nil
      from get_empty [OF Cons.prems this] Cons.IH [OF Cons.prems] show ?thesis
        using Dequeue by (auto elim!: returnsE)
    next
      case (Cons b bs)
      from get_first [OF Cons.prems Cons] obtain s1 where *: "get s = Some (Some b, s1)" "inv s1"
          "contents s1 = bs" "capacity s1 = capacity s" by (auto elim!: returnsE)
      from Cons.IH [OF *(2)] show ?thesis
        using Dequeue * Cons by (auto elim!: returnsE)
    qed
  next
    case Reset
    from reset_empties [OF Cons.prems] Cons.IH [of "reset s"] show ?thesis
      using Reset by (auto elim!: returnsE)
  qed
qed simp

end

text \<open>A byte queue whose readers and writers may sleep: what the kernel keeps in it is no part of the contents.\<close>

locale os_queue = byte_fifo inv contents capacity put get reset
  for inv :: "io_queue \<Rightarrow> bool" and contents capacity put get reset +
  assumes kernel_fields: "inv (q\<lparr>q_waiting := ts\<rparr>) = inv q" "contents (q\<lparr>q_waiting := ts\<rparr>) = contents q"
      "capacity (q\<lparr>q_waiting := ts\<rparr>) = capacity q" "inv (q\<lparr>readied := rs\<rparr>) = inv q"
      "contents (q\<lparr>readied := rs\<rparr>) = contents q" "capacity (q\<lparr>readied := rs\<rparr>) = capacity q"
begin

lemma sleep_fifo:
  assumes "inv q"
  shows "returns (osalThreadEnqueueTimeoutS (fifo_run put get reset) currp timeout sl q) (\<lambda>(msg, ins, outs, q', rest).
    inv q' \<and> capacity q' = capacity q \<and> set rest \<subseteq> set sl \<and>
    ((\<forall>es \<in> set sl. Reset \<notin> set es) \<longrightarrow> contents q @ ins = outs @ contents q') \<and>
    (timeout = TIME_IMMEDIATE \<longrightarrow> msg = Some MSG_TIMEOUT \<and> ins = [] \<and> outs = [] \<and> q' = q))"
proof (cases sl)
  case Nil
  then show ?thesis using assms by (auto simp: osalThreadEnqueueTimeoutS_def kernel_fields Let_def)
next
  case (Cons es rest)
  have "inv (q\<lparr>q_waiting := q_waiting q @ [currp]\<rparr>)" using assms by (simp add: kernel_fields)
  from run_fifo [OF this, of es] obtain ins outs q1 where run:
      "fifo_run put get reset es (q\<lparr>q_waiting := q_waiting q @ [currp]\<rparr>) = Some (ins, outs, q1)" "inv q1"
      "capacity q1 = capacity q" "Reset \<notin> set es \<longrightarrow> contents q @ ins = outs @ contents q1"
    by (auto simp: kernel_fields elim!: returnsE)
  show ?thesis
    using assms Cons run
    by (cases "map_of (readied q1) currp") (auto simp: osalThreadEnqueueTimeoutS_def kernel_fields Let_def)
qed

lemma sleep_cases:
  assumes "inv q"
  obtains msg ins outs q' rest where
    "osalThreadEnqueueTimeoutS (fifo_run put get reset) currp timeout sl q = Some (msg, ins, outs, q', rest)"
    "inv q'" "capacity q' = capacity q" "set rest \<subseteq> set sl"
    "(\<forall>es \<in> set sl. Reset \<notin> set es) \<longrightarrow> contents q @ ins = outs @ contents q'"
    "timeout = TIME_IMMEDIATE \<longrightarrow> msg = Some MSG_TIMEOUT \<and> ins = [] \<and> outs = [] \<and> q' = q"
proof -
  obtain x where x: "osalThreadEnqueueTimeoutS (fifo_run put get reset) currp timeout sl q = Some x"
      "case x of (msg, ins, outs, q', rest) \<Rightarrow> inv q' \<and> capacity q' = capacity q \<and> set rest \<subseteq> set sl \<and>
        ((\<forall>es \<in> set sl. Reset \<notin> set es) \<longrightarrow> contents q @ ins = outs @ contents q') \<and>
        (timeout = TIME_IMMEDIATE \<longrightarrow> msg = Some MSG_TIMEOUT \<and> ins = [] \<and> outs = [] \<and> q' = q)"
    using sleep_fifo [OF assms, of currp timeout sl] unfolding returns_def by blast
  obtain msg ins outs q' rest where e: "x = (msg, ins, outs, q', rest)" by (cases x)
  show ?thesis by (rule that [of msg ins outs q' rest]) (use x in \<open>simp_all add: e\<close>)
qed

end

section \<open>The ring\<close>

text \<open>The \<open>k\<close> bytes from the read pointer on, and the invariant of a ring that holds \<open>k\<close> bytes.\<close>

definition filled :: "io_queue \<Rightarrow> nat \<Rightarrow> u8 list" where
  "filled q k = map (\<lambda>i. q_buffer q ! ((q_rdptr q + i) mod q_top q)) [0..<k]"

definition ring_inv :: "io_queue \<Rightarrow> nat \<Rightarrow> bool" where
  "ring_inv q k \<longleftrightarrow> 0 < q_top q \<and> q_top q < 2 ^ 32 \<and> length (q_buffer q) = q_top q \<and> q_rdptr q < q_top q \<and>
     k \<le> q_top q \<and> q_wrptr q = (q_rdptr q + k) mod q_top q"

lemma length_filled [simp]: "length (filled q k) = k"
  by (simp add: filled_def)

lemma advance_mod: "p < q_top q \<Longrightarrow> advance q p = Suc p mod q_top q"
  by (auto simp: advance_def mod_Suc)

lemma ring_pointers_equal: "ring_inv q k \<Longrightarrow> q_wrptr q = q_rdptr q \<longleftrightarrow> k = 0 \<or> k = q_top q"
  unfolding ring_inv_def by (cases "q_rdptr q + k < q_top q") (auto simp: mod_if)

lemma ring_write_fits:
  assumes "ring_inv q k" "k < q_top q"
  shows "returns (ring_write b q) (\<lambda>q'. ring_inv q' (Suc k) \<and> filled q' (Suc k) = filled q k @ [b] \<and>
    (\<exists>mem p. q' = q\<lparr>q_buffer := mem, q_wrptr := p\<rparr>))"
proof -
  let ?p = "(q_rdptr q + k) mod q_top q"
  have p: "q_wrptr q = ?p" "?p < q_top q" "length (q_buffer q) = q_top q" "q_rdptr q < q_top q"
    using assms by (auto simp: ring_inv_def)
  have other: "(q_rdptr q + i) mod q_top q \<noteq> ?p" if "i < k" for i
  proof
    assume "(q_rdptr q + i) mod q_top q = ?p"
    then have "q_top q dvd k - i" using that by (metis add_less_cancel_left diff_add_inverse less_imp_le mod_eq_dvd_iff_nat add_diff_cancel_left)
    then show False using that assms(2) by (auto dest: dvd_imp_le)
  qed
  have "filled (q\<lparr>q_buffer := (q_buffer q)[?p := b], q_wrptr := x\<rparr>) (Suc k) = filled q k @ [b]" for x
    using other [THEN not_sym] p by (auto simp: filled_def)
  moreover have "advance q ?p = (q_rdptr q + Suc k) mod q_top q"
    using p by (simp add: advance_mod mod_Suc_eq)
  ultimately show ?thesis
    using assms p by (auto simp: ring_write_def ring_inv_def p(1))
qed

lemma ring_read_first:
  assumes "ring_inv q (Suc k)"
  shows "returns (ring_read q) (\<lambda>(b, q'). filled q (Suc k) = b # filled q' k \<and> ring_inv q' k \<and>
    (\<exists>p. q' = q\<lparr>q_rdptr := p\<rparr>))"
proof -
  have p: "q_rdptr q < q_top q" "length (q_buffer q) = q_top q" using assms by (auto simp: ring_inv_def)
  have "filled q (Suc k) = q_buffer q ! q_rdptr q # filled (q\<lparr>q_rdptr := advance q (q_rdptr q)\<rparr>) k"
    using p by (simp add: filled_def upt_conv_Cons map_Suc_upt [symmetric] del: upt_Suc) (simp add: advance_mod mod_simps)
  with assms p show ?thesis
    by (auto simp: ring_read_def ring_inv_def advance_mod mod_simps)
qed

text \<open>The other fields do not matter to the ring.\<close>

lemma ring_updates [simp]:
  "filled (q\<lparr>q_counter := c\<rparr>) k = filled q k" "ring_inv (q\<lparr>q_counter := c\<rparr>) k = ring_inv q k"
  "filled (q\<lparr>q_waiting := ts\<rparr>) k = filled q k" "ring_inv (q\<lparr>q_waiting := ts\<rparr>) k = ring_inv q k"
  "filled (q\<lparr>readied := rs\<rparr>) k = filled q k" "ring_inv (q\<lparr>readied := rs\<rparr>) k = ring_inv q k"
  "filled (q\<lparr>notified := n\<rparr>) k = filled q k" "ring_inv (q\<lparr>notified := n\<rparr>) k = ring_inv q k"
  by (simp_all add: filled_def ring_inv_def)

lemma ring_kernel [simp]:
  "filled (osalThreadDequeueNextI m q) k = filled q k" "ring_inv (osalThreadDequeueNextI m q) k = ring_inv q k"
  "filled (osalThreadDequeueAllI m q) k = filled q k" "ring_inv (osalThreadDequeueAllI m q) k = ring_inv q k"
  "filled (notify q) k = filled q k" "ring_inv (notify q) k = ring_inv q k"
  by (simp_all add: osalThreadDequeueNextI_def osalThreadDequeueAllI_def notify_def split: list.split)

lemma fields_kernel [simp]:
  "q_counter (osalThreadDequeueNextI m q) = q_counter q" "q_top (osalThreadDequeueNextI m q) = q_top q"
  "q_counter (osalThreadDequeueAllI m q) = q_counter q" "q_top (osalThreadDequeueAllI m q) = q_top q"
  "q_counter (notify q) = q_counter q" "q_top (notify q) = q_top q"
  by (simp_all add: osalThreadDequeueNextI_def osalThreadDequeueAllI_def notify_def split: list.split)

section \<open>Input queues\<close>

definition iq_contents :: "io_queue \<Rightarrow> u8 list" where "iq_contents q = filled q (unat (q_counter q))"
definition iq_inv :: "io_queue \<Rightarrow> bool" where "iq_inv q \<longleftrightarrow> ring_inv q (unat (q_counter q))"

lemma counter_up: "unat c < n \<Longrightarrow> n < 2 ^ 32 \<Longrightarrow> unat (c + 1) = Suc (unat c)" for c :: u32
  by (simp add: unat_word_ariths)

lemma counter_down: "unat c = Suc k \<Longrightarrow> unat (c - 1) = k" for c :: u32
  by (metis diff_Suc_1 nat.distinct(1) unat_0 unat_minus_one)

lemma iq_full: "iq_inv q \<Longrightarrow> iqIsFullI q \<longleftrightarrow> unat (q_counter q) = q_top q"
  using ring_pointers_equal [of q "unat (q_counter q)"]
  by (auto simp: iq_inv_def canard_simps ring_inv_def unat_eq_0)

lemma iq_empty: "iqIsEmptyI q \<longleftrightarrow> iq_contents q = []"
  by (simp add: canard_simps iq_contents_def filled_def unat_eq_0)

lemma iqPutI_fits:
  assumes "iq_inv q" "length (iq_contents q) < q_top q"
  shows "returns (iqPutI q b) (\<lambda>(m, q'). m = MSG_OK \<and> iq_inv q' \<and> iq_contents q' = iq_contents q @ [b] \<and>
    q_top q' = q_top q \<and> q_waiting q' = tl (q_waiting q) \<and>
    readied q' = readied q @ map (\<lambda>t. (t, MSG_OK)) (take 1 (q_waiting q)))"
proof -
  have k: "unat (q_counter q) < q_top q" "q_top q < 2 ^ 32" using assms by (auto simp: iq_contents_def iq_inv_def ring_inv_def)
  from ring_write_fits [of "q\<lparr>q_counter := q_counter q + 1\<rparr>" "unat (q_counter q)" b]
  show ?thesis
    using assms k counter_up [OF k] iq_full [OF assms(1)]
    by (cases "q_waiting q")
       (auto simp: iqPutI_def iq_inv_def iq_contents_def osalThreadDequeueNextI_def elim!: returnsE)
qed

lemma iq_take_first:
  assumes "iq_inv q" "iq_contents q = b # bs"
  shows "returns (iq_take q) (\<lambda>(r, q'). r = b \<and> iq_inv q' \<and> iq_contents q' = bs \<and> q_top q' = q_top q \<and>
    q_waiting q' = q_waiting q \<and> readied q' = readied q)"
proof -
  have k: "unat (q_counter q) = Suc (length bs)" using assms(2) by (metis iq_contents_def length_filled length_Cons)
  from ring_read_first [of "q\<lparr>q_counter := q_counter q - 1\<rparr>" "length bs"]
  show ?thesis
    using assms k counter_down [OF k]
    by (auto simp: iq_take_def iq_inv_def iq_contents_def notify_def elim!: returnsE)
qed

interpretation iq: os_queue iq_inv iq_contents q_top iq_put iq_get iqResetI
proof
  fix q b bs
  assume inv: "iq_inv q"
  show "length (iq_contents q) < q_top q \<Longrightarrow>
      returns (iq_put b q) (\<lambda>(ok, q'). ok \<and> iq_inv q' \<and> iq_contents q' = iq_contents q @ [b] \<and> q_top q' = q_top q)"
    using iqPutI_fits [OF inv, of b] by (auto simp: iq_put_def elim!: returnsE)
  show "length (iq_contents q) = q_top q \<Longrightarrow> iq_put b q = Some (False, q)"
    using iq_full [OF inv] by (simp add: iq_put_def iqPutI_def iq_contents_def)
  show "iq_contents q = b # bs \<Longrightarrow>
      returns (iq_get q) (\<lambda>(r, q'). r = Some b \<and> iq_inv q' \<and> iq_contents q' = bs \<and> q_top q' = q_top q)"
    using iq_take_first [OF inv, of b bs] by (auto simp: iq_get_def iq_empty elim!: returnsE)
  show "iq_contents q = [] \<Longrightarrow> iq_get q = Some (None, q)" by (simp add: iq_get_def iq_empty)
  show "iq_inv (iqResetI q) \<and> iq_contents (iqResetI q) = [] \<and> q_top (iqResetI q) = q_top q"
    using inv by (auto simp: iqResetI_def iq_inv_def iq_contents_def ring_inv_def osalThreadDequeueAllI_def filled_def)
  show "length (iq_contents q) \<le> q_top q" using inv by (simp add: iq_inv_def iq_contents_def ring_inv_def)
qed (simp_all add: iq_inv_def iq_contents_def)

section \<open>Output queues\<close>

text \<open>The counter of an output queue counts the free places.\<close>

definition oq_level :: "io_queue \<Rightarrow> nat" where "oq_level q = q_top q - unat (q_counter q)"
definition oq_contents :: "io_queue \<Rightarrow> u8 list" where "oq_contents q = filled q (oq_level q)"
definition oq_inv :: "io_queue \<Rightarrow> bool" where "oq_inv q \<longleftrightarrow> ring_inv q (oq_level q) \<and> unat (q_counter q) \<le> q_top q"

lemma no_room: "unat (q_counter q) \<le> q_top q \<Longrightarrow> oq_level q = q_top q \<longleftrightarrow> q_top q = 0 \<or> q_counter q = 0"
  unfolding oq_level_def by (metis diff_diff_cancel diff_is_0_eq diff_zero order_refl unsigned_0 unsigned_eq_0_iff)

lemma oq_empty: "oq_inv q \<Longrightarrow> oqIsEmptyI q \<longleftrightarrow> oq_contents q = []"
  using ring_pointers_equal [of q "oq_level q"] no_room [of q]
  by (auto simp: oq_inv_def canard_simps ring_inv_def oq_contents_def filled_def)

lemma oq_full: "oq_inv q \<Longrightarrow> oqIsFullI q \<longleftrightarrow> length (oq_contents q) = q_top q"
  using no_room [of q] by (auto simp: oq_inv_def canard_simps oq_contents_def ring_inv_def)

lemma oq_give_fits:
  assumes "oq_inv q" "length (oq_contents q) < q_top q"
  shows "returns (oq_give b q) (\<lambda>q'. oq_inv q' \<and> oq_contents q' = oq_contents q @ [b] \<and> q_top q' = q_top q)"
proof -
  obtain k where k: "unat (q_counter q) = Suc k" "Suc k \<le> q_top q"
    using assms by (cases "unat (q_counter q)") (auto simp: oq_contents_def oq_level_def oq_inv_def)
  from ring_write_fits [of "q\<lparr>q_counter := q_counter q - 1\<rparr>" "oq_level q" b]
  show ?thesis
    using assms k counter_down [OF k(1)]
    by (auto simp: oq_give_def oq_inv_def oq_contents_def oq_level_def Suc_diff_Suc Suc_diff_le elim!: returnsE)
qed

lemma oqGetI_first:
  assumes "oq_inv q" "oq_contents q = b # bs"
  shows "returns (oqGetI q) (\<lambda>(m, q'). m = uint b \<and> oq_inv q' \<and> oq_contents q' = bs \<and> q_top q' = q_top q)"
proof -
  have k: "oq_level q = Suc (length bs)" using assms(2) by (metis oq_contents_def length_filled length_Cons)
  then have c: "unat (q_counter q) < q_top q" "q_top q < 2 ^ 32"
    using assms(1) by (auto simp: oq_level_def oq_inv_def ring_inv_def)
  have "q_top q - Suc (unat (q_counter q)) = length bs" using k by (simp add: oq_level_def)
  with ring_read_first [of "q\<lparr>q_counter := q_counter q + 1\<rparr>" "length bs"] c
  show ?thesis
    using assms k counter_up [OF c] oq_empty [OF assms(1)]
    by (auto simp: oqGetI_def oq_inv_def oq_contents_def oq_level_def elim!: returnsE)
qed

interpretation oq: os_queue oq_inv oq_contents q_top oq_put oq_get oqResetI
proof
  fix q b bs
  assume inv: "oq_inv q"
  show "length (oq_contents q) < q_top q \<Longrightarrow>
      returns (oq_put b q) (\<lambda>(ok, q'). ok \<and> oq_inv q' \<and> oq_contents q' = oq_contents q @ [b] \<and> q_top q' = q_top q)"
    using oq_give_fits [OF inv, of b] oq_full [OF inv] by (auto simp: oq_put_def elim!: returnsE)
  show "length (oq_contents q) = q_top q \<Longrightarrow> oq_put b q = Some (False, q)"
    using oq_full [OF inv] by (simp add: oq_put_def)
  show "oq_contents q = b # bs \<Longrightarrow>
      returns (oq_get q) (\<lambda>(r, q'). r = Some b \<and> oq_inv q' \<and> oq_contents q' = bs \<and> q_top q' = q_top q)"
    using oqGetI_first [OF inv, of b bs] by (auto simp: oq_get_def elim!: returnsE)
  show "oq_contents q = [] \<Longrightarrow> oq_get q = Some (None, q)" using oq_empty [OF inv] by (simp add: oq_get_def oqGetI_def)
  show "oq_inv (oqResetI q) \<and> oq_contents (oqResetI q) = [] \<and> q_top (oqResetI q) = q_top q"
    using inv by (auto simp: oqResetI_def oq_inv_def oq_contents_def oq_level_def ring_inv_def osalThreadDequeueAllI_def
        filled_def canard_simps unat_of_nat)
  show "length (oq_contents q) \<le> q_top q" using inv by (simp add: oq_inv_def oq_contents_def ring_inv_def)
qed (simp_all add: oq_inv_def oq_contents_def oq_level_def)

end
