(* ===== verification/Hal_Transfers.thy ===== *)
theory Hal_Transfers
  imports Hal_Fifo
begin

text \<open>
  The blocking operations on byte queues: nothing is lost, duplicated or reordered while threads sleep
  and interrupts come in between, and a sleeping reader is woken by the byte it waits for.
\<close>

section \<open>Single bytes\<close>

lemma append_chain: "a @ x = b @ c \<Longrightarrow> c @ y = d @ e \<Longrightarrow> a @ x @ y = b @ d @ e"
  by (metis append.assoc)

text \<open>
  \<open>iqGetTimeout\<close>, for all events during its sleeps: it is memory safe, keeps the invariant of the
  queue, and without resets the old contents followed by the bytes put are the bytes taken by others,
  then the byte returned, then the new contents. With \<open>TIME_IMMEDIATE\<close> it returns at once, with
  \<open>MSG_TIMEOUT\<close> exactly if the queue is empty.
\<close>

theorem iqGetTimeout_is_fifo:
  assumes "iq_inv q"
  shows "returns (iqGetTimeout currp timeout sl q) (\<lambda>(r, ins, outs, q').
    iq_inv q' \<and> q_top q' = q_top q \<and>
    ((\<forall>es \<in> set sl. Reset \<notin> set es) \<longrightarrow>
       iq_contents q @ ins = outs @ (case r of Returned m \<Rightarrow> if m < 0 then [] else [word_of_int m] | Asleep \<Rightarrow> []) @ iq_contents q') \<and>
    (timeout = TIME_IMMEDIATE \<longrightarrow> (r = Returned MSG_TIMEOUT \<longleftrightarrow> iq_contents q = []) \<and> ins = [] \<and> outs = []))"
  using assms unfolding iqGetTimeout_def
proof (induction currp timeout sl q rule: iqGet_loop.induct)
  case (1 currp timeout sl q)
  show ?case
  proof (cases "iqIsEmptyI q")
    case False
    then obtain b bs where c: "iq_contents q = b # bs" by (auto simp: iq_empty neq_Nil_conv)
    have "uint b \<noteq> -1" using uint_ge_0 [of b] by linarith
    with iq_take_first [OF 1(2) c] False c show ?thesis
      by (auto simp: iqGet_loop.simps [of _ _ _ q] elim!: returnsE)
  next
    case True
    obtain msg ins outs q1 rest where sleep:
        "osalThreadEnqueueTimeoutS iq_events currp timeout sl q = Some (msg, ins, outs, q1, rest)"
        "iq_inv q1" "q_top q1 = q_top q" "set rest \<subseteq> set sl"
        "(\<forall>es \<in> set sl. Reset \<notin> set es) \<longrightarrow> iq_contents q @ ins = outs @ iq_contents q1"
        "timeout = TIME_IMMEDIATE \<longrightarrow> msg = Some MSG_TIMEOUT \<and> ins = [] \<and> outs = [] \<and> q1 = q"
      by (rule iq.sleep_cases [OF 1(2), of currp timeout sl])
    show ?thesis
    proof (cases "\<forall>m. msg = Some m \<longrightarrow> m < 0")
      case True
      then show ?thesis
        using sleep \<open>iqIsEmptyI q\<close> by (cases msg) (auto simp: iqGet_loop.simps [of _ _ _ q] iq_empty)
    next
      case False
      then obtain m where m: "msg = Some m" "\<not> m < 0" by auto
      from 1(1) [OF \<open>iqIsEmptyI q\<close> sleep(1) refl refl refl refl m sleep(2)] m sleep(3-) show ?thesis
        using sleep(1) \<open>iqIsEmptyI q\<close>
        by (auto simp: iqGet_loop.simps [of _ _ _ q] intro: append_chain elim!: returnsE)
    qed
  qed
qed

text \<open>A queue of three bytes, and what happens to it in the witnesses.\<close>

definition demo_queue :: io_queue where
  "demo_queue = iqObjectInit [0, 0, 0] 3 True"

lemma demo_queue_empty: "iq_inv demo_queue \<and> iq_contents demo_queue = []"
  by (simp add: demo_queue_def iqObjectInit_def iq_inv_def iq_contents_def ring_inv_def filled_def)

theorem iqGetTimeout_is_fifo_witness:
  "\<exists>r ins outs q'. iqGetTimeout 0 100 [[Enqueue 7, Dequeue, Enqueue 8]] demo_queue = Some (r, ins, outs, q') \<and>
     ins = outs @ (case r of Returned m \<Rightarrow> if m < 0 then [] else [word_of_int m] | Asleep \<Rightarrow> []) @ iq_contents q'"
  using iqGetTimeout_is_fifo [of demo_queue 0 100 "[[Enqueue 7, Dequeue, Enqueue 8]]"] demo_queue_empty
  by (auto elim!: returnsE)

section \<open>Waking up\<close>

lemma run_puts:
  "iq_inv q \<Longrightarrow> q_waiting q = [] \<Longrightarrow> returns (iq_events (map Enqueue bs) q) (\<lambda>(ins, outs, q').
     outs = [] \<and> iq_contents q' = take (q_top q) (iq_contents q @ bs) \<and> q_waiting q' = [] \<and> readied q' = readied q \<and>
     iq_inv q' \<and> q_top q' = q_top q)"
proof (induction bs arbitrary: q)
  case Nil
  then show ?case using iq.within [of q] by simp
next
  case (Cons b bs)
  show ?case
  proof (cases "length (iq_contents q) < q_top q")
    case True
    from iqPutI_fits [OF Cons.prems(1) this, of b] Cons.prems(2) obtain q1 where *: "iq_put b q = Some (True, q1)" "iq_inv q1"
        "iq_contents q1 = iq_contents q @ [b]" "q_top q1 = q_top q" "q_waiting q1 = []" "readied q1 = readied q"
      by (auto simp: iq_put_def elim!: returnsE)
    from Cons.IH [OF *(2,5)] * show ?thesis by (auto elim!: returnsE)
  next
    case False
    then have full: "length (iq_contents q) = q_top q" using iq.within [OF Cons.prems(1)] by simp
    from iq.put_full [OF Cons.prems(1) this] Cons.IH [OF Cons.prems] show ?thesis
      using full by (auto elim!: returnsE)
  qed
qed

text \<open>
  C26. No wakeup is lost. A thread that waits for a byte from an empty queue, alone, without or with a
  timeout, returns the first byte that is put into the queue while it sleeps, whatever number of bytes
  follows; the rest stays in the queue as far as it fits.
\<close>

theorem sleeping_reader_gets_byte:
  assumes "iq_inv q" and "iq_contents q = []" and "q_waiting q = []" and "currp \<notin> fst ` set (readied q)"
    and "timeout \<noteq> TIME_IMMEDIATE"
  shows "returns (iqGetTimeout currp timeout ((Enqueue b # map Enqueue bs) # sl) q) (\<lambda>(r, ins, outs, q').
    r = Returned (uint b) \<and> outs = [] \<and> iq_contents q' = take (q_top q - 1) bs \<and> q_waiting q' = [] \<and>
    readied q' = readied q)"
proof -
  let ?q0 = "q\<lparr>q_waiting := [currp]\<rparr>"
  have top: "0 < q_top q" using assms(1) by (simp add: iq_inv_def ring_inv_def)
  have "iq_inv ?q0" "length (iq_contents ?q0) < q_top ?q0"
    using assms(1,2) top by (simp_all add: iq.kernel_fields)
  from iqPutI_fits [OF this, of b] assms(2) obtain q1 where q1: "iq_put b ?q0 = Some (True, q1)" "iq_inv q1"
      "iq_contents q1 = [b]" "q_top q1 = q_top q" "q_waiting q1 = []" "readied q1 = readied q @ [(currp, MSG_OK)]"
    by (auto simp: iq_put_def iq.kernel_fields elim!: returnsE)
  from run_puts [OF q1(2,5), of bs] q1 obtain ins q2 where q2: "iq_events (map Enqueue bs) q1 = Some (ins, [], q2)"
      "iq_contents q2 = take (q_top q) (b # bs)" "q_waiting q2 = []" "readied q2 = readied q @ [(currp, MSG_OK)]"
      "iq_inv q2" "q_top q2 = q_top q"
    by (auto elim!: returnsE)
  let ?q3 = "q2\<lparr>readied := readied q\<rparr>"
  have "map_of (readied q) currp = None" using assms(4) by (simp add: map_of_eq_None_iff)
  moreover have "filter (\<lambda>(t, m). t \<noteq> currp) (readied q) = readied q"
    using assms(4) by (force intro!: filter_True)
  ultimately have "map_of (readied q2) currp = Some MSG_OK" "filter (\<lambda>(t, m). t \<noteq> currp) (readied q2) = readied q"
    using q2(4) by (auto simp: map_add_def)
  then have sleep: "osalThreadEnqueueTimeoutS iq_events currp timeout ((Enqueue b # map Enqueue bs) # sl) q =
      Some (Some MSG_OK, b # ins, [], ?q3, sl)"
    using assms(3,5) q1(1) q2(1) by (simp add: osalThreadEnqueueTimeoutS_def)
  have c3: "iq_contents ?q3 = b # take (q_top q - 1) bs" "iq_inv ?q3"
    using q2 top by (simp_all add: iq.kernel_fields take_Cons')
  have ne: "iqIsEmptyI q" "\<not> iqIsEmptyI ?q3" using assms(2) c3 by (simp_all add: iq_empty)
  from iq_take_first [OF c3(2,1)] show ?thesis
    using sleep ne q2(3)
    by (auto simp: iqGetTimeout_def iqGet_loop.simps [of _ _ _ q] iqGet_loop.simps [of _ _ _ ?q3] elim!: returnsE)
qed

theorem sleeping_reader_gets_byte_witness:
  "\<exists>ins q'. iqGetTimeout 5 0xFFFF [[Enqueue 7, Enqueue 8, Enqueue 9, Enqueue 10]] demo_queue
     = Some (Returned 7, ins, [], q') \<and> iq_contents q' = [8, 9]"
  using sleeping_reader_gets_byte [where q = demo_queue and currp = 5 and timeout = "0xFFFF" and b = 7
      and bs = "[8, 9, 10]" and sl = "[]"] demo_queue_empty
  by (auto simp: demo_queue_def iqObjectInit_def elim!: returnsE)

section \<open>Many bytes\<close>

text \<open>The other end only puts bytes in, or only takes bytes out.\<close>

definition only :: "event set \<Rightarrow> environment \<Rightarrow> bool" where
  "only A e \<longleftrightarrow> (\<forall>es \<in> set (sleeps e) \<union> set (preemptions e). set es \<subseteq> A)"

definition puts :: "event set" where "puts = range Enqueue"

lemma puts_take_nothing: "set es \<subseteq> puts \<Longrightarrow> fifo_run put get reset es s = Some (ins, outs, s') \<Longrightarrow> outs = []"
proof (induction es arbitrary: s ins outs s')
  case (Cons e es)
  then obtain b where "e = Enqueue b" by (auto simp: puts_def)
  with Cons show ?case by auto
qed simp

lemma takes_put_nothing: "set es \<subseteq> {Dequeue} \<Longrightarrow> fifo_run put get reset es s = Some (ins, outs, s') \<Longrightarrow> ins = []"
  by (induction es arbitrary: s ins outs s') auto

lemma only_next_timeout: "next_timeout timeout deadline e = (t, e') \<Longrightarrow> only A e' = only A e"
  by (auto simp: only_def next_timeout_def osalOsGetSystemTimeX_def Let_def split: if_splits list.splits)

lemma only_sleeps:
  "only A e \<Longrightarrow> osalThreadEnqueueTimeoutS run currp t (sleeps e) q = Some (msg, ins, outs, q', rest) \<Longrightarrow>
     only A (e\<lparr>sleeps := rest\<rparr>)"
  by (auto simp: only_def osalThreadEnqueueTimeoutS_def Let_def bind_eq_Some_conv split: if_splits list.splits option.splits)

lemma only_preemption: "preemption e = (es, e') \<Longrightarrow> only A e \<Longrightarrow> set es \<subseteq> A \<and> only A e'"
  by (auto simp: only_def preemption_def split: list.splits)

lemma no_reset: "only A e \<Longrightarrow> Reset \<notin> A \<Longrightarrow> \<forall>es \<in> set (sleeps e). Reset \<notin> set es"
  by (auto simp: only_def)

lemma sleep_only_puts:
  assumes "only puts e" "osalThreadEnqueueTimeoutS (fifo_run put get reset) currp t (sleeps e) q = Some (msg, ins, outs, q', rest)"
  shows "outs = []"
  using assms puts_take_nothing
  by (fastforce simp: only_def osalThreadEnqueueTimeoutS_def Let_def bind_eq_Some_conv split: if_splits list.splits option.splits)

definition read_ok :: "systime_t \<Rightarrow> nat \<Rightarrow> u8 list \<Rightarrow> io_queue \<Rightarrow>
    u8 list call \<times> u8 list \<times> u8 list \<times> io_queue \<times> environment \<Rightarrow> bool" where
  "read_ok timeout n bs q = (\<lambda>(r, ins, outs, q', e').
    iq_inv q' \<and> q_top q' = q_top q \<and> outs = [] \<and>
    (case r of Asleep \<Rightarrow> timeout \<noteq> TIME_IMMEDIATE
     | Returned rs \<Rightarrow> \<exists>ts. rs = bs @ ts \<and> length ts \<le> n \<and> iq_contents q @ ins = ts @ iq_contents q' \<and>
         min n (length (iq_contents q)) \<le> length ts))"

lemma iqRead_loop_fifo:
  assumes "iq_inv q" "only puts e" "0 < n"
  shows "returns (iqRead_loop currp timeout deadline n bs q e) (read_ok timeout n bs q)"
  using assms
proof (induction currp timeout deadline n bs q e rule: iqRead_loop.induct)
  case (1 currp timeout deadline n bs q e)
  have R: "Reset \<notin> puts" by (auto simp: puts_def)
  show ?case
  proof (cases "iqIsEmptyI q")
    case True
    then have c: "iq_contents q = []" by (simp add: iq_empty)
    obtain t e1 where nt: "next_timeout timeout deadline e = (t, e1)" by fastforce
    then have e1: "only puts e1" using 1(4) by (simp add: only_next_timeout)
    show ?thesis
    proof (cases t)
      case None
      with nt True c 1(3) show ?thesis by (simp add: iqRead_loop.simps [of _ _ _ _ _ q] read_ok_def)
    next
      case (Some to)
      obtain msg ins outs q1 rest where sleep:
          "osalThreadEnqueueTimeoutS iq_events currp to (sleeps e1) q = Some (msg, ins, outs, q1, rest)"
          "iq_inv q1" "q_top q1 = q_top q"
          "(\<forall>es \<in> set (sleeps e1). Reset \<notin> set es) \<longrightarrow> iq_contents q @ ins = outs @ iq_contents q1"
          "to = TIME_IMMEDIATE \<longrightarrow> msg = Some MSG_TIMEOUT \<and> ins = [] \<and> outs = [] \<and> q1 = q"
        by (rule iq.sleep_cases [OF 1(3), of currp to "sleeps e1"])
      have ins: "iq_contents q1 = ins" "outs = []"
        using sleep(4) no_reset [OF e1 R] sleep_only_puts [OF e1 sleep(1)] c by auto
      have imm: "timeout = TIME_IMMEDIATE \<longrightarrow> to = TIME_IMMEDIATE"
        using nt Some by (auto simp: next_timeout_def split: if_splits)
      show ?thesis
      proof (cases "msg = Some MSG_OK")
        case False
        then show ?thesis
          using sleep nt Some True c ins imm
          by (cases msg) (auto simp: iqRead_loop.simps [of _ _ _ _ _ q] read_ok_def)
      next
        case ok: True
        have "returns (iqRead_loop currp timeout deadline n bs q1 (e1\<lparr>sleeps := rest\<rparr>)) (read_ok timeout n bs q1)"
          by (rule 1(1) [OF True nt [symmetric] Some sleep(1) refl refl refl refl refl ok])
             (use sleep(2) only_sleeps [OF e1 sleep(1)] 1(5) in simp_all)
        then show ?thesis
          using sleep(1,3) nt Some True ok c ins
          by (auto simp: iqRead_loop.simps [of _ _ _ _ _ q] read_ok_def split: call.splits elim!: returnsE)
      qed
    qed
  next
    case False
    then obtain b cs where c: "iq_contents q = b # cs" by (auto simp: iq_empty neq_Nil_conv)
    from iq_take_first [OF 1(3) c] obtain q1 where q1: "iq_take q = Some (b, q1)" "iq_inv q1" "iq_contents q1 = cs"
        "q_top q1 = q_top q" by (auto elim!: returnsE)
    show ?thesis
    proof (cases "n - 1 = 0")
      case True
      then have "n = 1" using 1(5) by simp
      then show ?thesis using False q1 c by (simp add: iqRead_loop.simps [of _ _ _ _ _ q] read_ok_def)
    next
      case more: False
      obtain es e1 where p: "preemption e = (es, e1)" by fastforce
      then have e1: "set es \<subseteq> puts" "only puts e1" using only_preemption 1(4) by blast+
      from iq.run_fifo [OF q1(2), of es] obtain ins outs q2 where q2: "iq_events es q1 = Some (ins, outs, q2)"
          "iq_inv q2" "q_top q2 = q_top q" "Reset \<notin> set es \<longrightarrow> iq_contents q1 @ ins = outs @ iq_contents q2"
        using q1(4) by (auto elim!: returnsE)
      have o: "outs = []" "iq_contents q2 = cs @ ins"
        using puts_take_nothing [OF e1(1) q2(1)] q2(4) R e1(1) q1(3) by auto
      have "returns (iqRead_loop currp timeout deadline (n - 1) (bs @ [b]) q2 e1) (read_ok timeout (n - 1) (bs @ [b]) q2)"
        by (rule 1(2) [OF False q1(1) refl more p [symmetric] q2(1) refl refl q2(2) e1(2)]) (use more in simp)
      then show ?thesis
        using False q1 q2 c o p more
        by (auto simp: iqRead_loop.simps [of _ _ _ _ _ q] read_ok_def split: call.splits elim!: returnsE) linarith+
    qed
  qed
qed

text \<open>
  C27. \<open>iqReadTimeout\<close>, as long as the other end only puts bytes in, at any time: it is memory safe and
  keeps the queue's invariant; what it delivers is a prefix of the old contents and the bytes that
  arrived, the rest is still in the queue. It delivers at most \<open>n\<close> bytes and at least what was there;
  with \<open>TIME_IMMEDIATE\<close> it always returns.
\<close>

theorem iqReadTimeout_is_fifo:
  assumes "iq_inv q" and "only puts e" and "0 < n"
  shows "returns (iqReadTimeout currp n timeout q e) (\<lambda>(r, ins, outs, q', e').
    iq_inv q' \<and> q_top q' = q_top q \<and> outs = [] \<and>
    (case r of Asleep \<Rightarrow> timeout \<noteq> TIME_IMMEDIATE
     | Returned bs \<Rightarrow> length bs \<le> n \<and> iq_contents q @ ins = bs @ iq_contents q' \<and>
         min n (length (iq_contents q)) \<le> length bs))"
proof -
  obtain now e1 where t: "osalOsGetSystemTimeX e = (now, e1)" by fastforce
  then have "only puts e1" using assms(2) by (auto simp: only_def osalOsGetSystemTimeX_def split: list.splits)
  from iqRead_loop_fifo [OF assms(1) this assms(3), of currp timeout "now + timeout" "[]"] show ?thesis
    using assms(3) t by (auto simp: iqReadTimeout_def read_ok_def elim!: returnsE split: call.splits)
qed

definition demo_environment :: environment where
  "demo_environment = \<lparr>sleeps = [[Enqueue 7, Enqueue 8]], systimes = [100, 105], preemptions = [[Enqueue 9]]\<rparr>"

theorem iqReadTimeout_is_fifo_witness:
  "returns (iqReadTimeout 5 3 10 demo_queue demo_environment) (\<lambda>(r, ins, outs, q', e').
    iq_inv q' \<and> q_top q' = 3 \<and> outs = [] \<and>
    (case r of Asleep \<Rightarrow> True | Returned bs \<Rightarrow> length bs \<le> 3 \<and> ins = bs @ iq_contents q'))"
proof -
  have "only puts demo_environment" by (auto simp: only_def demo_environment_def puts_def)
  from iqReadTimeout_is_fifo [OF _ this, of demo_queue 3 5 10] show ?thesis
    using demo_queue_empty
    by (auto simp: demo_queue_def iqObjectInit_def elim!: returnsE split: call.splits)
qed

section \<open>Writing\<close>

lemma sleep_only_takes:
  assumes "only {Dequeue} e"
    and "osalThreadEnqueueTimeoutS (fifo_run put get reset) currp t (sleeps e) q = Some (msg, ins, outs, q', rest)"
  shows "ins = []"
  using assms takes_put_nothing
  by (fastforce simp: only_def osalThreadEnqueueTimeoutS_def Let_def bind_eq_Some_conv split: if_splits list.splits option.splits)

definition write_ok :: "nat \<Rightarrow> u8 list \<Rightarrow> io_queue \<Rightarrow>
    nat call \<times> u8 list \<times> u8 list \<times> io_queue \<times> environment \<Rightarrow> bool" where
  "write_ok w bs q = (\<lambda>(r, ins, outs, q', e').
    oq_inv q' \<and> q_top q' = q_top q \<and> ins = [] \<and>
    (\<exists>k \<le> length bs. (case r of Asleep \<Rightarrow> True | Returned n \<Rightarrow> n = w + k) \<and>
       oq_contents q @ take k bs = outs @ oq_contents q' \<and>
       min (length bs) (q_top q - length (oq_contents q)) \<le> k))"

lemma oqWrite_loop_fifo:
  assumes "oq_inv q" "only {Dequeue} e" "bs \<noteq> []"
  shows "returns (oqWrite_loop currp timeout deadline w bs q e) (write_ok w bs q)"
  using assms
proof (induction currp timeout deadline w bs q e rule: oqWrite_loop.induct)
  case (1 currp timeout deadline w bs q e)
  show ?case
  proof (cases "oqIsFullI q")
    case True
    then have c: "length (oq_contents q) = q_top q" using oq_full [OF 1(3)] by simp
    obtain t e1 where nt: "next_timeout timeout deadline e = (t, e1)" by fastforce
    then have e1: "only {Dequeue} e1" using 1(4) by (simp add: only_next_timeout)
    show ?thesis
    proof (cases t)
      case None
      with nt True c 1(3) show ?thesis by (auto simp: oqWrite_loop.simps [of _ _ _ _ _ q] write_ok_def)
    next
      case (Some to)
      obtain msg ins outs q1 rest where sleep:
          "osalThreadEnqueueTimeoutS oq_events currp to (sleeps e1) q = Some (msg, ins, outs, q1, rest)"
          "oq_inv q1" "q_top q1 = q_top q"
          "(\<forall>es \<in> set (sleeps e1). Reset \<notin> set es) \<longrightarrow> oq_contents q @ ins = outs @ oq_contents q1"
        by (rule oq.sleep_cases [OF 1(3), of currp to "sleeps e1"])
      have ins: "oq_contents q = outs @ oq_contents q1" "ins = []"
        using sleep(4) no_reset [OF e1] sleep_only_takes [OF e1 sleep(1)] by auto
      show ?thesis
      proof (cases "msg = Some MSG_OK")
        case False
        then show ?thesis
          using sleep nt Some True c ins
          by (cases msg) (auto simp: oqWrite_loop.simps [of _ _ _ _ _ q] write_ok_def)
      next
        case ok: True
        have "returns (oqWrite_loop currp timeout deadline w bs q1 (e1\<lparr>sleeps := rest\<rparr>)) (write_ok w bs q1)"
          by (rule 1(1) [OF True nt [symmetric] Some sleep(1) refl refl refl refl refl ok])
             (use sleep(2) only_sleeps [OF e1 sleep(1)] 1(5) in simp_all)
        then show ?thesis
          using sleep(1,3) nt Some True ok c ins
          by (auto simp: oqWrite_loop.simps [of _ _ _ _ _ q] write_ok_def elim!: returnsE)
      qed
    qed
  next
    case False
    then have room: "length (oq_contents q) < q_top q" using oq_full [OF 1(3)] oq.within [OF 1(3)] by simp
    obtain b bs' where bs: "bs = b # bs'" using 1(5) by (cases bs) auto
    from oq_give_fits [OF 1(3) room, of b] obtain q1 where q1: "oq_give b q = Some q1" "oq_inv q1"
        "oq_contents q1 = oq_contents q @ [b]" "q_top q1 = q_top q" by (auto elim!: returnsE)
    show ?thesis
    proof (cases "bs' = []")
      case True
      with False q1 bs show ?thesis
        by (auto simp: oqWrite_loop.simps [of _ _ _ _ _ q] write_ok_def intro!: exI [of _ 1])
    next
      case more: False
      obtain es e1 where p: "preemption e = (es, e1)" by fastforce
      then have e1: "set es \<subseteq> {Dequeue}" "only {Dequeue} e1" using only_preemption 1(4) by blast+
      from oq.run_fifo [OF q1(2), of es] obtain ins outs q2 where q2: "oq_events es q1 = Some (ins, outs, q2)"
          "oq_inv q2" "q_top q2 = q_top q" "Reset \<notin> set es \<longrightarrow> oq_contents q1 @ ins = outs @ oq_contents q2"
        using q1(4) by (auto elim!: returnsE)
      have o: "ins = []" "oq_contents q @ [b] = outs @ oq_contents q2"
        using takes_put_nothing [OF e1(1) q2(1)] q2(4) e1(1) q1(3) by auto
      have len: "length (oq_contents q2) \<le> Suc (length (oq_contents q))"
        using arg_cong [OF o(2), of length] by simp
      have "returns (oqWrite_loop currp timeout deadline (w + 1) bs' q2 e1) (write_ok (w + 1) bs' q2)"
        by (rule 1(2) [OF False bs q1(1) more p [symmetric] q2(1) refl refl q2(2) e1(2)]) (use more in simp)
      then obtain r ins' outs' q3 e2 k where rec: "oqWrite_loop currp timeout deadline (w + 1) bs' q2 e1 = Some (r, ins', outs', q3, e2)"
          "oq_inv q3" "q_top q3 = q_top q" "ins' = []" "k \<le> length bs'"
          "case r of Asleep \<Rightarrow> True | Returned n \<Rightarrow> n = w + 1 + k"
          "oq_contents q2 @ take k bs' = outs' @ oq_contents q3"
          "min (length bs') (q_top q - length (oq_contents q2)) \<le> k"
        unfolding write_ok_def using q2(3) by (auto elim!: returnsE)
      have "oq_contents q @ take (Suc k) bs = (outs @ outs') @ oq_contents q3"
        using append_chain [OF o(2) rec(7)] bs by simp
      moreover have "min (length bs) (q_top q - length (oq_contents q)) \<le> Suc k"
        using rec(8) len bs by (auto simp: min_def split: if_splits)
      ultimately show ?thesis
        using False q1(1) q2(1) bs p more o(1) rec(1-6)
        by (auto simp: oqWrite_loop.simps [of _ _ _ _ _ q] write_ok_def intro!: exI [of _ "Suc k"] split: call.splits)
    qed
  qed
qed

text \<open>
  C28. \<open>oqWriteTimeout\<close>, as long as the other end only takes bytes out, at any time: it is memory safe and
  keeps the queue's invariant; a prefix of the bytes is written, in order, behind the old contents, at
  least as many bytes as there was room for, and the result is their number.
\<close>

theorem oqWriteTimeout_is_fifo:
  assumes "oq_inv q" and "only {Dequeue} e" and "bs \<noteq> []"
  shows "returns (oqWriteTimeout currp bs timeout q e) (\<lambda>(r, ins, outs, q', e').
    oq_inv q' \<and> q_top q' = q_top q \<and> ins = [] \<and>
    (\<exists>k \<le> length bs. (case r of Asleep \<Rightarrow> True | Returned n \<Rightarrow> n = k) \<and>
       oq_contents q @ take k bs = outs @ oq_contents q' \<and>
       min (length bs) (q_top q - length (oq_contents q)) \<le> k))"
proof -
  obtain now e1 where t: "osalOsGetSystemTimeX e = (now, e1)" by fastforce
  then have "only {Dequeue} e1" using assms(2) by (auto simp: only_def osalOsGetSystemTimeX_def split: list.splits)
  from oqWrite_loop_fifo [OF assms(1) this assms(3), of currp timeout "now + timeout" 0] show ?thesis
    using assms(3) t by (simp add: oqWriteTimeout_def write_ok_def del: add_0_left) (simp only: add_0)
qed

definition demo_output :: io_queue where
  "demo_output = oqObjectInit [0, 0] 2 True"

definition demo_drain :: environment where
  "demo_drain = \<lparr>sleeps = [[Dequeue]], systimes = [100, 105], preemptions = [[Dequeue]]\<rparr>"

theorem oqWriteTimeout_is_fifo_witness:
  "returns (oqWriteTimeout 5 [1, 2, 3] 10 demo_output demo_drain) (\<lambda>(r, ins, outs, q', e').
    oq_inv q' \<and> q_top q' = q_top demo_output \<and> ins = [] \<and>
    (\<exists>k \<le> length [1, 2, 3 :: u8]. (case r of Asleep \<Rightarrow> True | Returned n \<Rightarrow> n = k) \<and>
       take k [1, 2, 3] = outs @ oq_contents q' \<and> 2 \<le> k))"
proof -
  have inv: "oq_inv demo_output" and c: "oq_contents demo_output = []" and top: "q_top demo_output = 2"
    by (simp_all add: demo_output_def oqObjectInit_def oq_inv_def oq_contents_def oq_level_def ring_inv_def filled_def)
  have "only {Dequeue} demo_drain" by (simp add: only_def demo_drain_def)
  from oqWriteTimeout_is_fifo [OF inv this, of "[1, 2, 3]" 5 10] show ?thesis
    by (simp add: c top eval_nat_numeral)
qed

end
