(* ===== verification/Hal_Serial.thy ===== *)
theory Hal_Serial
  imports Chprintf_Inv Hal_Transfers
begin

text \<open>
  The serial driver that the bootloader logs to: the high level (\<open>os/hal/src/hal_serial.c\<close>) and the
  driver of the USART of the STM32F1 (\<open>os/hal/ports/STM32/LLD/USARTv1/hal_serial_lld.c\<close>), compiled for
  one port, \<open>SD1\<close>. The implemented bits of the control registers are fields of the state; what the line does
  is an argument, the successive values of the status and data registers that an interrupt handler reads.
  What the driver writes to the data and status registers is recorded. The clock gates and the interrupt
  controller are not modelled.
\<close>

section \<open>Data\<close>

datatype sdstate_t = SD_UNINIT | SD_STOP | SD_READY

abbreviation (input) CHN_INPUT_AVAILABLE :: u32 where "CHN_INPUT_AVAILABLE \<equiv> 4"
abbreviation (input) CHN_OUTPUT_EMPTY :: u32 where "CHN_OUTPUT_EMPTY \<equiv> 8"
abbreviation (input) CHN_TRANSMISSION_END :: u32 where "CHN_TRANSMISSION_END \<equiv> 16"
abbreviation (input) SD_PARITY_ERROR :: u32 where "SD_PARITY_ERROR \<equiv> 32"
abbreviation (input) SD_FRAMING_ERROR :: u32 where "SD_FRAMING_ERROR \<equiv> 64"
abbreviation (input) SD_OVERRUN_ERROR :: u32 where "SD_OVERRUN_ERROR \<equiv> 128"
abbreviation (input) SD_NOISE_ERROR :: u32 where "SD_NOISE_ERROR \<equiv> 256"
abbreviation (input) SD_BREAK_DETECTED :: u32 where "SD_BREAK_DETECTED \<equiv> 512"
abbreviation (input) SD_QUEUE_FULL_ERROR :: u32 where "SD_QUEUE_FULL_ERROR \<equiv> 1024"

abbreviation (input) SERIAL_BUFFERS_SIZE :: nat where "SERIAL_BUFFERS_SIZE \<equiv> 256"

abbreviation (input) USART_SR_PE :: u16 where "USART_SR_PE \<equiv> 0x1"
abbreviation (input) USART_SR_FE :: u16 where "USART_SR_FE \<equiv> 0x2"
abbreviation (input) USART_SR_NE :: u16 where "USART_SR_NE \<equiv> 0x4"
abbreviation (input) USART_SR_ORE :: u16 where "USART_SR_ORE \<equiv> 0x8"
abbreviation (input) USART_SR_RXNE :: u16 where "USART_SR_RXNE \<equiv> 0x20"
abbreviation (input) USART_SR_TC :: u16 where "USART_SR_TC \<equiv> 0x40"
abbreviation (input) USART_SR_TXE :: u16 where "USART_SR_TXE \<equiv> 0x80"
abbreviation (input) USART_SR_LBD :: u16 where "USART_SR_LBD \<equiv> 0x100"
abbreviation (input) USART_CR1_RE :: u16 where "USART_CR1_RE \<equiv> 0x4"
abbreviation (input) USART_CR1_TE :: u16 where "USART_CR1_TE \<equiv> 0x8"
abbreviation (input) USART_CR1_RXNEIE :: u16 where "USART_CR1_RXNEIE \<equiv> 0x20"
abbreviation (input) USART_CR1_TCIE :: u16 where "USART_CR1_TCIE \<equiv> 0x40"
abbreviation (input) USART_CR1_TXEIE :: u16 where "USART_CR1_TXEIE \<equiv> 0x80"
abbreviation (input) USART_CR1_PEIE :: u16 where "USART_CR1_PEIE \<equiv> 0x100"
abbreviation (input) USART_CR1_PCE :: u16 where "USART_CR1_PCE \<equiv> 0x400"
abbreviation (input) USART_CR1_M :: u16 where "USART_CR1_M \<equiv> 0x1000"
abbreviation (input) USART_CR1_UE :: u16 where "USART_CR1_UE \<equiv> 0x2000"
abbreviation (input) USART_CR2_LBDIE :: u16 where "USART_CR2_LBDIE \<equiv> 0x40"
abbreviation (input) USART_CR3_EIE :: u16 where "USART_CR3_EIE \<equiv> 0x1"

text \<open>
  \<open>events\<close> are the flags broadcast by the event source of the driver, oldest first; \<open>SR_writes\<close> and
  \<open>DR_writes\<close> what was written to the status and data registers.
\<close>

record SerialDriver =
  sd_state :: sdstate_t
  iqueue :: io_queue
  oqueue :: io_queue
  rxmask :: u8
  events :: "u32 list"
  CR1 :: u16
  CR2 :: u16
  CR3 :: u16
  BRR :: u32
  SR_writes :: "u16 list"
  DR_writes :: "u8 list"

record SerialConfig =
  speed :: u32
  cr1 :: u16
  cr2 :: u16
  cr3 :: u16

definition chnAddFlagsI :: "u32 \<Rightarrow> SerialDriver \<Rightarrow> SerialDriver" where
  "chnAddFlagsI flags sd = sd\<lparr>events := events sd @ [flags]\<rparr>"

section \<open>The USART\<close>

text \<open>A clock of \<open>pclk2\<close> Hertz; dividing by a bit rate of zero has no meaning.\<close>

definition usart_init :: "u32 \<Rightarrow> SerialConfig \<Rightarrow> SerialDriver \<Rightarrow> SerialDriver option" where
  "usart_init pclk2 config sd = do {
     canard_assert (speed config \<noteq> 0);
     Some (sd\<lparr>BRR := pclk2 div speed config,
       CR2 := cr2 config OR USART_CR2_LBDIE,
       CR3 := cr3 config OR USART_CR3_EIE,
       CR1 := cr1 config OR USART_CR1_UE OR USART_CR1_PEIE OR USART_CR1_RXNEIE OR USART_CR1_TE OR USART_CR1_RE,
       SR_writes := SR_writes sd @ [0],
       rxmask := (if cr1 config AND (USART_CR1_M OR USART_CR1_PCE) = USART_CR1_PCE then 0x7F else 0xFF)\<rparr>)
   }"

definition usart_deinit :: "SerialDriver \<Rightarrow> SerialDriver" where
  "usart_deinit sd = sd\<lparr>CR1 := 0, CR2 := 0, CR3 := 0\<rparr>"

text \<open>\<open>SERIAL_DEFAULT_BITRATE\<close> of \<open>halconf.h\<close>.\<close>

definition default_config :: SerialConfig where
  "default_config = \<lparr>speed = 38400, cr1 = 0, cr2 = 0, cr3 = 0\<rparr>"

definition sd_lld_start :: "u32 \<Rightarrow> SerialConfig option \<Rightarrow> SerialDriver \<Rightarrow> SerialDriver option" where
  "sd_lld_start pclk2 config sd =
     usart_init pclk2 (case config of None \<Rightarrow> default_config | Some config \<Rightarrow> config) sd"

definition sd_lld_stop :: "SerialDriver \<Rightarrow> SerialDriver" where
  "sd_lld_stop sd = (if sd_state sd = SD_READY then usart_deinit sd else sd)"

definition notify1 :: "SerialDriver \<Rightarrow> SerialDriver" where
  "notify1 sd = sd\<lparr>CR1 := CR1 sd OR USART_CR1_TXEIE\<rparr>"

definition set_error :: "u16 \<Rightarrow> SerialDriver \<Rightarrow> SerialDriver" where
  "set_error sr sd =
     chnAddFlagsI
       ((if sr AND USART_SR_ORE \<noteq> 0 then SD_OVERRUN_ERROR else 0) OR
        (if sr AND USART_SR_PE \<noteq> 0 then SD_PARITY_ERROR else 0) OR
        (if sr AND USART_SR_FE \<noteq> 0 then SD_FRAMING_ERROR else 0) OR
        (if sr AND USART_SR_NE \<noteq> 0 then SD_NOISE_ERROR else 0)) sd"

section \<open>The driver\<close>

text \<open>\<open>ib\<close> and \<open>ob\<close> are what the buffers hold; an input queue is not watched, an output queue by \<open>notify1\<close>.\<close>

definition sdObjectInit :: "u8 list \<Rightarrow> u8 list \<Rightarrow> bool \<Rightarrow> bool \<Rightarrow> SerialDriver \<Rightarrow> SerialDriver" where
  "sdObjectInit ib ob inotify onotify sd =
     sd\<lparr>events := [], sd_state := SD_STOP,
       iqueue := iqObjectInit ib SERIAL_BUFFERS_SIZE inotify, oqueue := oqObjectInit ob SERIAL_BUFFERS_SIZE onotify\<rparr>"

definition sd_lld_init :: "u8 list \<Rightarrow> u8 list \<Rightarrow> SerialDriver \<Rightarrow> SerialDriver" where
  "sd_lld_init ib ob sd = sdObjectInit ib ob False True sd"

definition sdInit :: "u8 list \<Rightarrow> u8 list \<Rightarrow> SerialDriver \<Rightarrow> SerialDriver" where
  "sdInit ib ob sd = sd_lld_init ib ob sd"

definition sdStart :: "u32 \<Rightarrow> SerialConfig option \<Rightarrow> SerialDriver \<Rightarrow> SerialDriver option" where
  "sdStart pclk2 config sd = do {
     canard_assert (sd_state sd = SD_STOP \<or> sd_state sd = SD_READY);
     sd \<leftarrow> sd_lld_start pclk2 config sd;
     Some (sd\<lparr>sd_state := SD_READY\<rparr>)
   }"

definition sdStop :: "SerialDriver \<Rightarrow> SerialDriver option" where
  "sdStop sd = do {
     canard_assert (sd_state sd = SD_STOP \<or> sd_state sd = SD_READY);
     let sd = sd_lld_stop sd;
     let sd = sd\<lparr>sd_state := SD_STOP\<rparr>;
     let sd = sd\<lparr>oqueue := oqResetI (oqueue sd)\<rparr>;
     Some (sd\<lparr>iqueue := iqResetI (iqueue sd)\<rparr>)
   }"

definition sdIncomingDataI :: "u8 \<Rightarrow> SerialDriver \<Rightarrow> SerialDriver option" where
  "sdIncomingDataI b sd = do {
     let sd = (if iqIsEmptyI (iqueue sd) then chnAddFlagsI CHN_INPUT_AVAILABLE sd else sd);
     (msg, q) \<leftarrow> iqPutI (iqueue sd) b;
     let sd = sd\<lparr>iqueue := q\<rparr>;
     Some (if msg < MSG_OK then chnAddFlagsI SD_QUEUE_FULL_ERROR sd else sd)
   }"

definition sdRequestDataI :: "SerialDriver \<Rightarrow> (int \<times> SerialDriver) option" where
  "sdRequestDataI sd = do {
     (b, q) \<leftarrow> oqGetI (oqueue sd);
     let sd = sd\<lparr>oqueue := q\<rparr>;
     Some (b, if b < MSG_OK then chnAddFlagsI CHN_OUTPUT_EMPTY sd else sd)
   }"

definition sdPutWouldBlock :: "SerialDriver \<Rightarrow> bool" where "sdPutWouldBlock sd = oqIsFullI (oqueue sd)"
definition sdGetWouldBlock :: "SerialDriver \<Rightarrow> bool" where "sdGetWouldBlock sd = iqIsEmptyI (iqueue sd)"

text \<open>
  The methods of the stream, for a call that does not sleep (with a sleep, see \<open>oqPutTimeout\<close> and
  \<open>iqGetTimeout\<close>). An operation on the output queue that has informed the low side has called
  \<open>notify1\<close>.
\<close>

definition with_oqueue :: "io_queue \<Rightarrow> SerialDriver \<Rightarrow> SerialDriver" where
  "with_oqueue q sd = (if notified q > notified (oqueue sd) then notify1 (sd\<lparr>oqueue := q\<rparr>) else sd\<lparr>oqueue := q\<rparr>)"

definition sd_putt :: "thread \<Rightarrow> u8 \<Rightarrow> systime_t \<Rightarrow> SerialDriver \<Rightarrow> (int \<times> SerialDriver) option" where
  "sd_putt currp b timeout sd = do {
     (r, ins, outs, q) \<leftarrow> oqPutTimeout b currp timeout [] (oqueue sd);
     case r of Returned msg \<Rightarrow> Some (msg, with_oqueue q sd) | Asleep \<Rightarrow> None
   }"

definition sd_put :: "thread \<Rightarrow> u8 \<Rightarrow> SerialDriver \<Rightarrow> (int \<times> SerialDriver) option" where
  "sd_put currp b sd = sd_putt currp b TIME_INFINITE sd"

definition sd_gett :: "thread \<Rightarrow> systime_t \<Rightarrow> SerialDriver \<Rightarrow> (int \<times> SerialDriver) option" where
  "sd_gett currp timeout sd = do {
     (r, ins, outs, q) \<leftarrow> iqGetTimeout currp timeout [] (iqueue sd);
     case r of Returned msg \<Rightarrow> Some (msg, sd\<lparr>iqueue := q\<rparr>) | Asleep \<Rightarrow> None
   }"

definition sd_get :: "thread \<Rightarrow> SerialDriver \<Rightarrow> (int \<times> SerialDriver) option" where
  "sd_get currp sd = sd_gett currp TIME_INFINITE sd"

section \<open>The interrupt handler\<close>

text \<open>
  \<open>line\<close>: the value of the status register at each of the handler's reads, with the value that the data
  register has then. A handler that would read on for longer than that has no meaning.
\<close>

abbreviation (input) RX_FLAGS :: u16 where
  "RX_FLAGS \<equiv> USART_SR_RXNE OR USART_SR_ORE OR USART_SR_NE OR USART_SR_FE OR USART_SR_PE"

abbreviation (input) RX_ERRORS :: u16 where
  "RX_ERRORS \<equiv> USART_SR_ORE OR USART_SR_NE OR USART_SR_FE OR USART_SR_PE"

primrec receive_loop :: "(u16 \<times> u16) list \<Rightarrow> SerialDriver \<Rightarrow> (u16 \<times> SerialDriver) option" where
  "receive_loop [] sd = None"
| "receive_loop (x # line) sd = (case x of (sr, dr) \<Rightarrow>
     if sr AND RX_FLAGS \<noteq> 0 then do {
       let sd = (if sr AND RX_ERRORS \<noteq> 0 then set_error sr sd else sd);
       let b = ucast dr AND rxmask sd;
       sd \<leftarrow> (if sr AND USART_SR_RXNE \<noteq> 0 then sdIncomingDataI b sd else Some sd);
       receive_loop line sd
     }
     else Some (sr, sd))"

definition serve_interrupt :: "(u16 \<times> u16) list \<Rightarrow> SerialDriver \<Rightarrow> SerialDriver option" where
  "serve_interrupt line sd = do {
     let cr1 = CR1 sd;
     sr \<leftarrow> (case line of [] \<Rightarrow> None | (sr, dr) # _ \<Rightarrow> Some sr);
     let sd = (if sr AND USART_SR_LBD \<noteq> 0
               then (chnAddFlagsI SD_BREAK_DETECTED sd)\<lparr>SR_writes := SR_writes sd @ [NOT USART_SR_LBD]\<rparr> else sd);
     (sr, sd) \<leftarrow> receive_loop line sd;
     sd \<leftarrow> (if cr1 AND USART_CR1_TXEIE \<noteq> 0 \<and> sr AND USART_SR_TXE \<noteq> 0 then do {
              (b, q) \<leftarrow> oqGetI (oqueue sd);
              let sd = sd\<lparr>oqueue := q\<rparr>;
              Some (if b < MSG_OK
                    then (chnAddFlagsI CHN_OUTPUT_EMPTY sd)\<lparr>CR1 := (cr1 AND NOT USART_CR1_TXEIE) OR USART_CR1_TCIE\<rparr>
                    else sd\<lparr>DR_writes := DR_writes sd @ [word_of_int b]\<rparr>)
            }
            else Some sd);
     Some (if sr AND USART_SR_TC \<noteq> 0
           then (if oqIsEmptyI (oqueue sd) then chnAddFlagsI CHN_TRANSMISSION_END sd else sd)
                  \<lparr>CR1 := cr1 AND NOT USART_CR1_TCIE, SR_writes := SR_writes sd @ [NOT USART_SR_TC]\<rparr>
           else sd)
   }"

end
