(* ===== verification/Hal_Serial_Inv.thy ===== *)
theory Hal_Serial_Inv
  imports Hal_Serial
begin

text \<open>
  What the serial driver does with the bytes of its queues: its invariant, what one interrupt moves, and
  the way of the output of \<open>chprintf\<close> to the line.
\<close>

section \<open>The invariant\<close>

text \<open>Bytes that wait for transmission have the transmission interrupt enabled.\<close>

definition serial_inv :: "SerialDriver \<Rightarrow> bool" where
  "serial_inv sd \<longleftrightarrow> iq_inv (iqueue sd) \<and> oq_inv (oqueue sd) \<and> q_notify (oqueue sd) \<and>
     (oq_contents (oqueue sd) \<noteq> [] \<longrightarrow> CR1 sd AND USART_CR1_TXEIE \<noteq> 0)"

definition serial_room :: "SerialDriver \<Rightarrow> nat" where
  "serial_room sd = q_top (oqueue sd) - length (oq_contents (oqueue sd))"

lemma TXEIE_set [simp]: "(c OR USART_CR1_TXEIE) AND USART_CR1_TXEIE \<noteq> 0"
proof -
  have "bit ((c OR USART_CR1_TXEIE) AND USART_CR1_TXEIE) 7" by (simp add: bit_simps)
  then show ?thesis by fastforce
qed

lemma oq_give_fields:
  "oq_give b q = Some q' \<Longrightarrow> q_notify q' = q_notify q \<and> notified q' = notified q + (if q_notify q then 1 else 0)"
  by (auto simp: oq_give_def ring_write_def notify_def upd_opt_def Let_def split: if_splits)

lemma sd_put_fits:
  assumes "serial_inv sd" and "0 < serial_room sd"
  shows "\<exists>q. sd_put currp b sd = Some (MSG_OK, sd\<lparr>oqueue := q, CR1 := CR1 sd OR USART_CR1_TXEIE\<rparr>) \<and>
    oq_inv q \<and> oq_contents q = oq_contents (oqueue sd) @ [b] \<and> q_top q = q_top (oqueue sd) \<and> q_notify q"
proof -
  let ?q = "oqueue sd"
  have inv: "oq_inv ?q" "q_notify ?q" and room: "length (oq_contents ?q) < q_top ?q"
    using assms by (simp_all add: serial_inv_def serial_room_def)
  from oq_give_fits [OF inv(1) room, of b] obtain q where q: "oq_give b ?q = Some q" "oq_inv q"
      "oq_contents q = oq_contents ?q @ [b]" "q_top q = q_top ?q" by (auto elim!: returnsE)
  have "oqPutTimeout b currp TIME_INFINITE [] ?q = Some (Returned MSG_OK, [], [], q)"
    using oq_full [OF inv(1)] room q(1) by (simp add: oqPutTimeout_def oqPut_loop.simps [of b currp _ "[]" ?q])
  moreover have "notified ?q < notified q" "q_notify q" using oq_give_fields [OF q(1)] inv(2) by simp_all
  ultimately show ?thesis using q by (auto simp: sd_put_def sd_putt_def with_oqueue_def notify1_def)
qed

text \<open>The output of a driver, seen as a stream that changes nothing else than its queue and its interrupt.\<close>

definition sends :: "SerialDriver \<Rightarrow> SerialDriver \<Rightarrow> bool" where
  "sends base sd \<longleftrightarrow> serial_inv sd \<and> q_top (oqueue sd) = q_top (oqueue base) \<and>
     sd = base\<lparr>oqueue := oqueue sd, CR1 := CR1 sd\<rparr> \<and> CR1 sd \<in> {CR1 base, CR1 base OR USART_CR1_TXEIE}"

interpretation serial: byte_stream "sd_put currp" "sends base" "\<lambda>sd. oq_contents (oqueue sd)" serial_room for currp base
proof
  fix sd b
  assume s: "sends base sd" and room: "0 < serial_room sd"
  then have inv: "serial_inv sd" by (simp add: sends_def)
  from sd_put_fits [OF inv room] obtain q where q: "sd_put currp b sd = Some (MSG_OK, sd\<lparr>oqueue := q, CR1 := CR1 sd OR USART_CR1_TXEIE\<rparr>)"
      "oq_inv q" "oq_contents q = oq_contents (oqueue sd) @ [b]" "q_top q = q_top (oqueue sd)" "q_notify q" by blast
  have iq: "iqueue base = iqueue sd" 
  proof -
    obtain q0 c where "sd = base\<lparr>oqueue := q0, CR1 := c\<rparr>" using s by (auto simp only: sends_def)
    then show ?thesis by simp
  qed
  have "(sd\<lparr>oqueue := q, CR1 := CR1 sd OR USART_CR1_TXEIE\<rparr>) =
      base\<lparr>oqueue := q, CR1 := CR1 sd OR USART_CR1_TXEIE\<rparr>"
  proof -
    obtain q0 c where "sd = base\<lparr>oqueue := q0, CR1 := c\<rparr>" using s by (auto simp only: sends_def)
    then show ?thesis by simp
  qed
  then have "sends base (sd\<lparr>oqueue := q, CR1 := CR1 sd OR USART_CR1_TXEIE\<rparr>)"
    using s q iq by (auto simp: sends_def serial_inv_def or.assoc)
  with q show "\<exists>msg sd'. sd_put currp b sd = Some (msg, sd') \<and> sends base sd' \<and>
      oq_contents (oqueue sd') = oq_contents (oqueue sd) @ [b] \<and> serial_room sd' = serial_room sd - 1"
    by (auto simp: serial_room_def)
qed

section \<open>Interrupts\<close>

lemma sdIncomingDataI_outcome:
  assumes "iq_inv (iqueue sd)"
  shows "\<exists>q es. sdIncomingDataI b sd = Some (sd\<lparr>iqueue := q, events := events sd @ es\<rparr>) \<and> iq_inv q \<and>
    q_top q = q_top (iqueue sd) \<and> iq_contents q = take (q_top q) (iq_contents (iqueue sd) @ [b]) \<and>
    (length (iq_contents (iqueue sd)) = q_top (iqueue sd) \<longrightarrow> SD_QUEUE_FULL_ERROR \<in> set es)"
proof (cases "length (iq_contents (iqueue sd)) < q_top (iqueue sd)")
  case True
  from iqPutI_fits [OF assms True, of b] obtain q where "iqPutI (iqueue sd) b = Some (MSG_OK, q)" "iq_inv q"
      "iq_contents q = iq_contents (iqueue sd) @ [b]" "q_top q = q_top (iqueue sd)"
    by (auto elim!: returnsE)
  with True show ?thesis
    by (intro exI [of _ q] exI [of _ "if iqIsEmptyI (iqueue sd) then [CHN_INPUT_AVAILABLE] else []"])
       (simp add: sdIncomingDataI_def chnAddFlagsI_def)
next
  case False
  then have full: "length (iq_contents (iqueue sd)) = q_top (iqueue sd)" using iq.within [OF assms] by simp
  then have "iqPutI (iqueue sd) b = Some (MSG_TIMEOUT, iqueue sd)"
    using iq_full [OF assms] by (simp add: iqPutI_def iq_contents_def)
  with full assms show ?thesis
    by (intro exI [of _ "iqueue sd"] exI [of _ "(if iqIsEmptyI (iqueue sd) then [CHN_INPUT_AVAILABLE] else []) @ [SD_QUEUE_FULL_ERROR]"])
       (simp add: sdIncomingDataI_def chnAddFlagsI_def)
qed

text \<open>The bytes that the handler reads from the line, parity removed.\<close>

definition rx_bytes :: "u8 \<Rightarrow> (u16 \<times> u16) list \<Rightarrow> u8 list" where
  "rx_bytes m rx = map (\<lambda>(sr, dr). ucast dr AND m) (filter (\<lambda>(sr, dr). sr AND USART_SR_RXNE \<noteq> 0) rx)"

lemma take_take_append: "take n (take n xs @ ys) = take n (xs @ ys)"
  by (simp add: min_def)

lemma receive_loop_outcome:
  assumes "iq_inv (iqueue sd)" and "\<forall>(s, d) \<in> set rx. s AND RX_FLAGS \<noteq> 0" and "sr AND RX_FLAGS = 0"
  shows "\<exists>q es. receive_loop (rx @ (sr, dr) # rest) sd = Some (sr, sd\<lparr>iqueue := q, events := events sd @ es\<rparr>) \<and>
    iq_inv q \<and> q_top q = q_top (iqueue sd) \<and>
    iq_contents q = take (q_top q) (iq_contents (iqueue sd) @ rx_bytes (rxmask sd) rx) \<and>
    (length (iq_contents (iqueue sd)) + length (rx_bytes (rxmask sd) rx) > q_top (iqueue sd) \<longrightarrow>
       SD_QUEUE_FULL_ERROR \<in> set es)"
  using assms(1,2)
proof (induction rx arbitrary: sd)
  case Nil
  then have "take (q_top (iqueue sd)) (iq_contents (iqueue sd)) = iq_contents (iqueue sd)"
    using iq.within [of "iqueue sd"] by simp
  with Nil assms(3) iq.within [of "iqueue sd"] show ?case
    by (intro exI [of _ "iqueue sd"] exI [of _ "[]"]) (simp add: rx_bytes_def)
next
  case (Cons x rx)
  obtain s d where x: "x = (s, d)" by (cases x)
  have s: "s AND RX_FLAGS \<noteq> 0" and rx: "\<forall>(s, d) \<in> set rx. s AND RX_FLAGS \<noteq> 0" using Cons.prems(2) x by auto
  let ?b = "ucast d AND rxmask sd :: u8"
  define sd1 where "sd1 = (if s AND RX_ERRORS \<noteq> 0 then set_error s sd else sd)"
  obtain e1 where sd1: "sd1 = sd\<lparr>events := events sd @ e1\<rparr>"
  proof (cases "s AND RX_ERRORS \<noteq> 0")
    case True
    then show ?thesis by (intro that) (simp add: sd1_def set_error_def chnAddFlagsI_def)
  next
    case False
    then show ?thesis by (intro that [of "[]"]) (simp add: sd1_def)
  qed
  have step: "receive_loop ((s, d) # line) sd = do {
      sd' \<leftarrow> (if s AND USART_SR_RXNE \<noteq> 0 then sdIncomingDataI (ucast d AND rxmask sd1) sd1 else Some sd1);
      receive_loop line sd'
    }" for line using s by (simp add: sd1_def Let_def)
  show ?case
  proof (cases "s AND USART_SR_RXNE \<noteq> 0")
    case False
    from Cons.IH [of sd1] Cons.prems(1) rx sd1 obtain q es where
        "receive_loop (rx @ (sr, dr) # rest) sd1 = Some (sr, sd1\<lparr>iqueue := q, events := events sd1 @ es\<rparr>)" "iq_inv q"
        "q_top q = q_top (iqueue sd)" "iq_contents q = take (q_top q) (iq_contents (iqueue sd) @ rx_bytes (rxmask sd) rx)"
        "length (iq_contents (iqueue sd)) + length (rx_bytes (rxmask sd) rx) > q_top (iqueue sd) \<longrightarrow> SD_QUEUE_FULL_ERROR \<in> set es"
      by auto
    with False s x sd1 show ?thesis
      by (intro exI [of _ q] exI [of _ "e1 @ es"]) (simp add: step rx_bytes_def del: receive_loop.simps)
  next
    case True
    from sdIncomingDataI_outcome [of sd1 ?b] Cons.prems(1) sd1 obtain q1 e2 where q1:
        "sdIncomingDataI ?b sd1 = Some (sd1\<lparr>iqueue := q1, events := events sd1 @ e2\<rparr>)" "iq_inv q1"
        "q_top q1 = q_top (iqueue sd)" "iq_contents q1 = take (q_top q1) (iq_contents (iqueue sd) @ [?b])"
        "length (iq_contents (iqueue sd)) = q_top (iqueue sd) \<longrightarrow> SD_QUEUE_FULL_ERROR \<in> set e2"
      by auto
    let ?sd2 = "sd1\<lparr>iqueue := q1, events := events sd1 @ e2\<rparr>"
    from Cons.IH [of ?sd2] rx q1(2) sd1 obtain q es where q:
        "receive_loop (rx @ (sr, dr) # rest) ?sd2 = Some (sr, ?sd2\<lparr>iqueue := q, events := events ?sd2 @ es\<rparr>)" "iq_inv q"
        "q_top q = q_top q1" "iq_contents q = take (q_top q) (iq_contents q1 @ rx_bytes (rxmask sd) rx)"
        "length (iq_contents q1) + length (rx_bytes (rxmask sd) rx) > q_top q1 \<longrightarrow> SD_QUEUE_FULL_ERROR \<in> set es"
      by auto
    have b: "rx_bytes (rxmask sd) ((s, d) # rx) = ?b # rx_bytes (rxmask sd) rx" using True by (simp add: rx_bytes_def)
    have c: "iq_contents q = take (q_top q) (iq_contents (iqueue sd) @ ?b # rx_bytes (rxmask sd) rx)"
      by (simp only: q(3,4) q1(4) take_take_append append_assoc append_Cons append_Nil)
    have lost: "length (iq_contents (iqueue sd)) + Suc (length (rx_bytes (rxmask sd) rx)) > q_top (iqueue sd) \<longrightarrow>
        SD_QUEUE_FULL_ERROR \<in> set (e2 @ es)"
      using q(5) q1(3,4,5) iq.within [OF Cons.prems(1)] by (auto simp: min_def split: if_splits)
    show ?thesis
      using q(1,2,3) q1(1,3) c lost x s True sd1
      by (intro exI [of _ q] exI [of _ "e1 @ e2 @ es"]) (simp add: step b del: receive_loop.simps)
  qed
qed


lemma oqGetI_empty: "oq_inv q \<Longrightarrow> oq_contents q = [] \<Longrightarrow> oqGetI q = Some (MSG_TIMEOUT, q)"
  by (simp add: oqGetI_def oq_empty)

lemma oqGetI_notify: "oqGetI q = Some (m, q') \<Longrightarrow> q_notify q' = q_notify q"
  by (auto simp: oqGetI_def ring_read_def osalThreadDequeueNextI_def nth_opt_def Let_def split: if_splits list.splits)

lemma keeps_TXEIE: "c AND USART_CR1_TXEIE \<noteq> 0 \<Longrightarrow> (c AND NOT USART_CR1_TCIE) AND USART_CR1_TXEIE \<noteq> 0"
proof -
  assume "c AND USART_CR1_TXEIE \<noteq> 0"
  then have "bit c 7" using and_flag_iff [of USART_CR1_TXEIE 7 c] by simp
  then have "bit ((c AND NOT USART_CR1_TCIE) AND USART_CR1_TXEIE) 7" by (simp add: bit_simps)
  then show ?thesis by fastforce
qed

text \<open>What the transmission part of the handler leaves, with its two kinds of interrupts.\<close>

definition sent :: "bool \<Rightarrow> SerialDriver \<Rightarrow> SerialDriver \<Rightarrow> bool" where
  "sent tx sd sd' \<longleftrightarrow>
     (if tx then (case oq_contents (oqueue sd) of
        [] \<Rightarrow> oq_contents (oqueue sd') = [] \<and> DR_writes sd' = DR_writes sd \<and> CHN_OUTPUT_EMPTY \<in> set (events sd')
      | b # bs \<Rightarrow> oq_contents (oqueue sd') = bs \<and> DR_writes sd' = DR_writes sd @ [b])
      else oq_contents (oqueue sd') = oq_contents (oqueue sd) \<and> DR_writes sd' = DR_writes sd)"

lemma serve_outcome:
  assumes "serial_inv sd" and "\<forall>(s, d) \<in> set rx. s AND RX_FLAGS \<noteq> 0" and "sr AND RX_FLAGS = 0"
  shows "returns (serve_interrupt (rx @ (sr, dr) # rest) sd) (\<lambda>sd'. serial_inv sd' \<and>
    q_top (iqueue sd') = q_top (iqueue sd) \<and> q_top (oqueue sd') = q_top (oqueue sd) \<and>
    iq_contents (iqueue sd') = take (q_top (iqueue sd)) (iq_contents (iqueue sd) @ rx_bytes (rxmask sd) rx) \<and>
    (length (iq_contents (iqueue sd)) + length (rx_bytes (rxmask sd) rx) > q_top (iqueue sd) \<longrightarrow>
       SD_QUEUE_FULL_ERROR \<in> set (events sd')) \<and>
    sent (CR1 sd AND USART_CR1_TXEIE \<noteq> 0 \<and> sr AND USART_SR_TXE \<noteq> 0) sd sd')"
proof -
  let ?line = "rx @ (sr, dr) # rest"
  obtain s0 d0 line where line: "?line = (s0, d0) # line" by (cases ?line) auto
  define sd0 where "sd0 = (if s0 AND USART_SR_LBD \<noteq> 0
      then (chnAddFlagsI SD_BREAK_DETECTED sd)\<lparr>SR_writes := SR_writes sd @ [NOT USART_SR_LBD]\<rparr> else sd)"
  have sd0: "iqueue sd0 = iqueue sd" "oqueue sd0 = oqueue sd" "CR1 sd0 = CR1 sd" "DR_writes sd0 = DR_writes sd"
      "rxmask sd0 = rxmask sd" by (simp_all add: sd0_def chnAddFlagsI_def)
  have inv: "iq_inv (iqueue sd0)" "oq_inv (oqueue sd)" "q_notify (oqueue sd)" using assms(1) sd0(1) by (simp_all add: serial_inv_def)
  from receive_loop_outcome [OF inv(1) assms(2,3), of dr rest] obtain q es where q:
      "receive_loop ?line sd0 = Some (sr, sd0\<lparr>iqueue := q, events := events sd0 @ es\<rparr>)" "iq_inv q" "q_top q = q_top (iqueue sd)"
      "iq_contents q = take (q_top q) (iq_contents (iqueue sd) @ rx_bytes (rxmask sd) rx)"
      "length (iq_contents (iqueue sd)) + length (rx_bytes (rxmask sd) rx) > q_top (iqueue sd) \<longrightarrow> SD_QUEUE_FULL_ERROR \<in> set es"
    by (auto simp: sd0)
  define sd1 where "sd1 = sd0\<lparr>iqueue := q, events := events sd0 @ es\<rparr>"
  let ?tx = "CR1 sd AND USART_CR1_TXEIE \<noteq> 0 \<and> sr AND USART_SR_TXE \<noteq> 0"
  let ?step = "if ?tx then do {
      (b, q) \<leftarrow> oqGetI (oqueue sd1);
      let sd' = sd1\<lparr>oqueue := q\<rparr>;
      Some (if b < MSG_OK
            then (chnAddFlagsI CHN_OUTPUT_EMPTY sd')\<lparr>CR1 := (CR1 sd AND NOT USART_CR1_TXEIE) OR USART_CR1_TCIE\<rparr>
            else sd'\<lparr>DR_writes := DR_writes sd' @ [word_of_int b]\<rparr>)
    } else Some sd1"
  have run: "serve_interrupt ?line sd = do {
      sd' \<leftarrow> ?step;
      Some (if sr AND USART_SR_TC \<noteq> 0
            then (if oqIsEmptyI (oqueue sd') then chnAddFlagsI CHN_TRANSMISSION_END sd' else sd')
                   \<lparr>CR1 := CR1 sd AND NOT USART_CR1_TCIE, SR_writes := SR_writes sd' @ [NOT USART_SR_TC]\<rparr>
            else sd')
    }"
    using q(1) by (simp add: serve_interrupt_def line Let_def sd0_def [symmetric] sd1_def [symmetric] sd0 del: receive_loop.simps)
  have sd1: "iqueue sd1 = q" "oqueue sd1 = oqueue sd" "CR1 sd1 = CR1 sd" "DR_writes sd1 = DR_writes sd" "set es \<subseteq> set (events sd1)"
    by (simp_all add: sd1_def sd0)
  have "returns ?step (\<lambda>sd'. iqueue sd' = q \<and> oq_inv (oqueue sd') \<and> q_notify (oqueue sd') \<and> q_top (oqueue sd') = q_top (oqueue sd) \<and>
      (oq_contents (oqueue sd') \<noteq> [] \<longrightarrow> CR1 sd AND USART_CR1_TXEIE \<noteq> 0 \<and> CR1 sd' = CR1 sd) \<and>
      set es \<subseteq> set (events sd') \<and> sent ?tx sd sd')"
  proof (cases ?tx)
    case False
    then show ?thesis using sd1 inv assms(1) by (auto simp: sent_def serial_inv_def)
  next
    case True
    show ?thesis
    proof (cases "oq_contents (oqueue sd)")
      case Nil
      with True sd1 inv show ?thesis by (auto simp: oqGetI_empty chnAddFlagsI_def sent_def)
    next
      case (Cons b bs)
      from oqGetI_first [OF inv(2) Cons] obtain q' where q': "oqGetI (oqueue sd) = Some (uint b, q')" "oq_inv q'"
          "oq_contents q' = bs" "q_top q' = q_top (oqueue sd)" by (auto elim!: returnsE)
      from True sd1 inv(3) Cons q' oqGetI_notify [OF q'(1)] show ?thesis by (auto simp: sent_def)
    qed
  qed
  then obtain sd' where sd': "?step = Some sd'" "iqueue sd' = q" "oq_inv (oqueue sd')" "q_notify (oqueue sd')"
      "q_top (oqueue sd') = q_top (oqueue sd)"
      "oq_contents (oqueue sd') \<noteq> [] \<longrightarrow> CR1 sd AND USART_CR1_TXEIE \<noteq> 0 \<and> CR1 sd' = CR1 sd"
      "set es \<subseteq> set (events sd')" "sent ?tx sd sd'"
    by (auto elim!: returnsE)
  define sd2 where "sd2 = (if sr AND USART_SR_TC \<noteq> 0
      then (if oqIsEmptyI (oqueue sd') then chnAddFlagsI CHN_TRANSMISSION_END sd' else sd')
             \<lparr>CR1 := CR1 sd AND NOT USART_CR1_TCIE, SR_writes := SR_writes sd' @ [NOT USART_SR_TC]\<rparr>
      else sd')"
  have sd2: "iqueue sd2 = q" "oqueue sd2 = oqueue sd'" "DR_writes sd2 = DR_writes sd'" "set (events sd') \<subseteq> set (events sd2)"
      "CR1 sd2 = CR1 sd AND NOT USART_CR1_TCIE \<or> CR1 sd2 = CR1 sd'"
    using sd'(2) by (auto simp: sd2_def chnAddFlagsI_def)
  have "serve_interrupt ?line sd = Some sd2" using run sd'(1) by (simp add: sd2_def)
  moreover have "oq_contents (oqueue sd2) \<noteq> [] \<longrightarrow> CR1 sd2 AND USART_CR1_TXEIE \<noteq> 0"
    using sd'(6) sd2(2,5) keeps_TXEIE [of "CR1 sd"] by auto
  moreover have "sent ?tx sd sd2" using sd'(8) sd2(2-4) by (auto simp: sent_def split: list.splits)
  ultimately show ?thesis
    using sd' sd2 q by (auto simp: serial_inv_def)
qed


text \<open>
  C34. One run of the interrupt handler, for any readings of the line: the bytes received, parity removed,
  go to the end of the input queue as far as they fit, and a byte that is dropped is reported; with its
  interrupt enabled and the transmitter empty, the first byte of the output queue goes to the data
  register, or the end of the output is reported. Bytes that are left have their interrupt enabled.
\<close>

theorem serve_interrupt_moves_bytes:
  assumes "serial_inv sd" and "\<forall>(s, d) \<in> set rx. s AND RX_FLAGS \<noteq> 0" and "sr AND RX_FLAGS = 0"
  shows "returns (serve_interrupt (rx @ (sr, dr) # rest) sd) (\<lambda>sd'. serial_inv sd' \<and>
    iq_contents (iqueue sd') = take (q_top (iqueue sd)) (iq_contents (iqueue sd) @ rx_bytes (rxmask sd) rx) \<and>
    (length (iq_contents (iqueue sd)) + length (rx_bytes (rxmask sd) rx) > q_top (iqueue sd) \<longrightarrow>
       SD_QUEUE_FULL_ERROR \<in> set (events sd')) \<and>
    sent (CR1 sd AND USART_CR1_TXEIE \<noteq> 0 \<and> sr AND USART_SR_TXE \<noteq> 0) sd sd')"
  by (rule returns_mono [OF serve_outcome [OF assms]]) simp

definition demo_serial :: SerialDriver where
  "demo_serial =
     \<lparr>sd_state = SD_READY, iqueue = iqObjectInit [0, 0, 0, 0] 4 False, oqueue = oqObjectInit [0, 0, 0, 0, 0, 0] 6 True,
      rxmask = 0x7F, events = [], CR1 = 0x252C, CR2 = 0x40, CR3 = 1, BRR = 937, SR_writes = [0], DR_writes = []\<rparr>"

lemma demo_serial_inv:
  "serial_inv demo_serial" "iq_contents (iqueue demo_serial) = []" "oq_contents (oqueue demo_serial) = []"
  "q_top (iqueue demo_serial) = 4" "q_top (oqueue demo_serial) = 6" "rxmask demo_serial = 0x7F"
  by (simp_all add: demo_serial_def iqObjectInit_def oqObjectInit_def serial_inv_def iq_inv_def oq_inv_def ring_inv_def
      iq_contents_def oq_contents_def oq_level_def filled_def)

theorem serve_interrupt_moves_bytes_witness:
  "returns (serve_interrupt [(0x21, 0xC1), (0xC0, 0)] demo_serial) (\<lambda>sd'. iq_contents (iqueue sd') = [0x41])"
proof -
  have "\<forall>(s, d) \<in> set [(0x21, 0xC1)]. s AND RX_FLAGS \<noteq> 0" "0xC0 AND RX_FLAGS = 0" by simp_all
  from serve_interrupt_moves_bytes [where dr = 0 and rest = "[]", OF demo_serial_inv(1) this] show ?thesis
    by (auto simp: demo_serial_inv rx_bytes_def elim!: returnsE)
qed

section \<open>From the log to the line\<close>

text \<open>\<open>n\<close> interrupts of an empty transmitter.\<close>

primrec tx_interrupts :: "nat \<Rightarrow> SerialDriver \<Rightarrow> SerialDriver option" where
  "tx_interrupts 0 sd = Some sd"
| "tx_interrupts (Suc n) sd = do { sd \<leftarrow> serve_interrupt [(USART_SR_TXE, 0)] sd; tx_interrupts n sd }"

lemma tx_interrupts_send:
  "serial_inv sd \<Longrightarrow> oq_contents (oqueue sd) = bs \<Longrightarrow>
     returns (tx_interrupts (length bs) sd) (\<lambda>sd'. serial_inv sd' \<and> oq_contents (oqueue sd') = [] \<and>
       DR_writes sd' = DR_writes sd @ bs)"
proof (induction bs arbitrary: sd)
  case Nil
  then show ?case by simp
next
  case (Cons b bs)
  have "CR1 sd AND USART_CR1_TXEIE \<noteq> 0" using Cons.prems by (simp add: serial_inv_def)
  with serve_outcome [OF Cons.prems(1), of "[]" USART_SR_TXE 0 "[]"] Cons.prems(2) obtain sd1 where
      "serve_interrupt [(USART_SR_TXE, 0)] sd = Some sd1" "serial_inv sd1" "oq_contents (oqueue sd1) = bs"
      "DR_writes sd1 = DR_writes sd @ [b]"
    by (auto simp: sent_def elim!: returnsE)
  with Cons.IH [of sd1] show ?case by (auto elim!: returnsE)
qed

text \<open>
  The initialized driver, with the buffers' contents \<open>ib\<close> and \<open>ob\<close>, started with any bit rate.
\<close>

lemma started_driver:
  assumes "length ib = SERIAL_BUFFERS_SIZE" "length ob = SERIAL_BUFFERS_SIZE"
    and "case config of None \<Rightarrow> True | Some c \<Rightarrow> speed c \<noteq> 0"
  shows "returns (sdStart pclk2 config (sdInit ib ob sd)) (\<lambda>sd'. serial_inv sd' \<and> sd_state sd' = SD_READY \<and>
    iq_contents (iqueue sd') = [] \<and> oq_contents (oqueue sd') = [] \<and> q_top (iqueue sd') = SERIAL_BUFFERS_SIZE \<and>
    q_top (oqueue sd') = SERIAL_BUFFERS_SIZE)"
  using assms
  by (auto simp: sdStart_def sdInit_def sd_lld_init_def sdObjectInit_def sd_lld_start_def usart_init_def default_config_def
      iqObjectInit_def oqObjectInit_def serial_inv_def iq_inv_def oq_inv_def ring_inv_def iq_contents_def oq_contents_def
      oq_level_def filled_def split: option.splits)

text \<open>
  C33. Composition of the log, the stream, the queue and the interrupt handler: what \<open>chprintf\<close> prints to an
  idle serial port whose buffer has room for it does not block, and one interrupt per byte hands exactly
  the formatted text to the transmitter, in order; the queue is empty again.
\<close>

theorem log_is_transmitted:
  assumes "serial_inv sd" and "oq_contents (oqueue sd) = []" and "chvprintf list_put fmt ap [] = Some (out, n)"
    and "length out \<le> q_top (oqueue sd)"
  shows "returns (do {
      (sd, n) \<leftarrow> chprintf (sd_put currp) fmt ap sd;
      sd \<leftarrow> tx_interrupts (nat n) sd;
      Some (n, sd)
    }) (\<lambda>(n, sd'). n = int (length out) \<and> DR_writes sd' = DR_writes sd @ out \<and> oq_contents (oqueue sd') = [] \<and>
      serial_inv sd')"
proof -
  have "sends sd sd" using assms(1) by (simp add: sends_def)
  from serial.print_fits [OF this assms(3), of currp] assms(2,4) obtain sd1 where sd1:
      "chvprintf (sd_put currp) fmt ap sd = Some (sd1, int (length out))" "sends sd sd1" "oq_contents (oqueue sd1) = out"
    by (auto simp: serial_room_def)
  have dr: "DR_writes sd1 = DR_writes sd"
  proof -
    obtain q0 c where "sd1 = sd\<lparr>oqueue := q0, CR1 := c\<rparr>" using sd1(2) by (auto simp only: sends_def)
    then show ?thesis by simp
  qed
  from tx_interrupts_send [OF _ sd1(3)] sd1(2) dr obtain sd2 where "tx_interrupts (length out) sd1 = Some sd2"
      "serial_inv sd2" "oq_contents (oqueue sd2) = []" "DR_writes sd2 = DR_writes sd @ out"
    by (auto simp: sends_def elim!: returnsE)
  with sd1(1) show ?thesis by (simp add: chprintf_def)
qed


theorem log_is_transmitted_witness:
  "returns (do {
      (sd, n) \<leftarrow> chprintf (sd_put 0) [118, 37, 100, 33, 0] [Word 123] demo_serial;
      sd \<leftarrow> tx_interrupts (nat n) sd;
      Some (n, sd)
    }) (\<lambda>(n, sd'). n = 5 \<and> DR_writes sd' = [118, 49, 50, 51, 33])"
proof -
  have "directive [100, 33, 0] [Word 123] = Some ([49, 50, 51], [33, 0], [])"
    by code_simp
  then have "chvprintf list_put [118, 37, 100, 33, 0] [Word 123] [] = Some ([118, 49, 50, 51, 33], 5)"
    by (simp add: chvprintf_def chvprintf_loop.simps)
  moreover have "length [118, 49, 50, 51, 33 :: u8] \<le> q_top (oqueue demo_serial)" by (simp add: demo_serial_inv)
  ultimately have "returns (do {
      (sd, n) \<leftarrow> chprintf (sd_put 0) [118, 37, 100, 33, 0] [Word 123] demo_serial;
      sd \<leftarrow> tx_interrupts (nat n) sd;
      Some (n, sd)
    }) (\<lambda>(n, sd'). n = int (length [118, 49, 50, 51, 33 :: u8]) \<and> DR_writes sd' = DR_writes demo_serial @ [118, 49, 50, 51, 33] \<and>
      oq_contents (oqueue sd') = [] \<and> serial_inv sd')"
    by (rule log_is_transmitted [OF demo_serial_inv(1,3)])
  then show ?thesis by (rule returns_mono) (auto simp: demo_serial_def)
qed

end
