(* ===== verification/Memcore.thy ===== *)
theory Memcore
  imports Canard_Prelude
begin

text \<open>
  The core memory manager of ChibiOS (\<open>os/common/oslib/src/chmemcore.c\<close>, alignment macros of
  \<open>os/rt/include/chalign.h\<close>): a region of memory from which blocks are taken and never given back.
\<close>

section \<open>Alignment\<close>

definition MEM_ALIGN_MASK :: "u32 \<Rightarrow> u32" where "MEM_ALIGN_MASK a = a - 1"
definition MEM_ALIGN_PREV :: "u32 \<Rightarrow> u32 \<Rightarrow> u32" where "MEM_ALIGN_PREV p a = p AND NOT (MEM_ALIGN_MASK a)"
definition MEM_ALIGN_NEXT :: "u32 \<Rightarrow> u32 \<Rightarrow> u32" where "MEM_ALIGN_NEXT p a = MEM_ALIGN_PREV (p + MEM_ALIGN_MASK a) a"
definition MEM_IS_ALIGNED :: "u32 \<Rightarrow> u32 \<Rightarrow> bool" where "MEM_IS_ALIGNED p a \<longleftrightarrow> p AND MEM_ALIGN_MASK a = 0"
definition MEM_IS_VALID_ALIGNMENT :: "u32 \<Rightarrow> bool" where
  "MEM_IS_VALID_ALIGNMENT a \<longleftrightarrow> a \<noteq> 0 \<and> a AND (a - 1) = 0"

text \<open>A valid alignment is a power of two, and the macros round to its multiples.\<close>

lemma valid_alignment_power:
  assumes "MEM_IS_VALID_ALIGNMENT a"
  shows "\<exists>k < 32. a = 2 ^ k"
proof -
  have a: "a \<noteq> 0" "a AND (a - 1) = 0" using assms by (simp_all add: MEM_IS_VALID_ALIGNMENT_def)
  then obtain j where "bit a j" by (metis bit_0_eq bit_word_eqI bot_apply bot_bool_def)
  then obtain k where k: "bit a k" "\<And>n. n < k \<Longrightarrow> \<not> bit a n"
    by (metis (no_types) exists_least_iff)
  define h where "h = a AND NOT (mask (Suc k))"
  have h: "bit h n \<longleftrightarrow> bit a n \<and> k < n" for n
    by (auto simp: h_def bit_simps not_less dest: bit_imp_le_length)
  have k32: "k < 32" using bit_imp_le_length [OF k(1)] by simp
  have "a = h OR 2 ^ k"
    using k k32 by (intro bit_word_eqI) (auto simp: bit_or_iff bit_exp_iff h possible_bit_def nat_neq_iff)
  also have "\<dots> = h + 2 ^ k"
    by (rule disjunctive_add [symmetric]) (auto simp: bit_exp_iff h)
  finally have "a - 1 = h + mask k" by (simp add: mask_eq_exp_minus_1)
  also have "\<dots> = h OR mask k"
    by (rule disjunctive_add) (auto simp: bit_mask_iff h)
  finally have "bit (a - 1) n" if "bit a n" "k < n" for n using that by (simp add: bit_or_iff h)
  then have "\<not> bit a n" if "k < n" for n
    using that a(2) by (metis bit_and_iff bit_0_eq bot_apply bot_bool_def)
  then have "a = 2 ^ k"
    using k k32 by (intro bit_word_eqI) (auto simp: bit_exp_iff possible_bit_def intro: linorder_neqE_nat)
  with k32 show ?thesis by blast
qed

lemma align_prev: "unat (MEM_ALIGN_PREV p (2 ^ k)) = unat p div 2 ^ k * 2 ^ k"
proof -
  have "(p AND NOT (mask k)) + take_bit k p = p"
    by (subst disjunctive_add) (auto simp: bit_simps take_bit_eq_mask intro: bit_word_eqI)
  then have "MEM_ALIGN_PREV p (2 ^ k) = p - take_bit k p"
    by (simp add: MEM_ALIGN_PREV_def MEM_ALIGN_MASK_def mask_eq_exp_minus_1 [symmetric] eq_diff_eq)
  moreover have "unat (take_bit k p) = unat p mod 2 ^ k"
    by (simp only: unsigned_take_bit_eq) (simp only: take_bit_eq_mod)
  moreover from this have "take_bit k p \<le> p" by (simp add: word_le_nat_alt)
  ultimately show ?thesis by (simp add: unat_sub minus_mod_eq_div_mult)
qed

lemma is_aligned_iff: "MEM_IS_ALIGNED p (2 ^ k) \<longleftrightarrow> 2 ^ k dvd unat p"
proof -
  have "MEM_IS_ALIGNED p (2 ^ k) \<longleftrightarrow> take_bit k p = 0"
    by (simp add: MEM_IS_ALIGNED_def MEM_ALIGN_MASK_def mask_eq_exp_minus_1 [symmetric] take_bit_eq_mask)
  also have "\<dots> \<longleftrightarrow> unat p mod 2 ^ k = 0"
    by (simp only: word_unat_eq_iff unsigned_take_bit_eq unsigned_0) (simp only: take_bit_eq_mod)
  finally show ?thesis by (simp add: dvd_eq_mod_eq_0)
qed

lemma unat_two_power: "k < 32 \<Longrightarrow> unat (2 ^ k :: u32) = 2 ^ k"
proof -
  assume "k < 32"
  then have "(2 :: nat) ^ k < 2 ^ LENGTH(32)" by (intro power_strict_increasing) simp_all
  moreover have "(2 :: u32) ^ k = of_nat (2 ^ k)" by simp
  ultimately show ?thesis by (simp only: unat_of_nat mod_less)
qed

lemma align_next:
  assumes "k < 32" "unat p + 2 ^ k \<le> 2 ^ 32"
  shows "unat (MEM_ALIGN_NEXT p (2 ^ k)) = (unat p + 2 ^ k - 1) div 2 ^ k * 2 ^ k"
proof -
  have "unat (2 ^ k - 1 :: u32) = 2 ^ k - 1"
    using assms(1) unat_two_power [of k] by (simp add: unat_minus_one)
  then have "unat (p + (2 ^ k - 1)) = unat p + 2 ^ k - 1" using assms by (simp add: unat_word_ariths)
  then show ?thesis by (simp add: MEM_ALIGN_NEXT_def MEM_ALIGN_MASK_def align_prev)
qed

lemma round_up_bounds:
  fixes x :: nat
  shows "x \<le> (x + 2 ^ k - 1) div 2 ^ k * 2 ^ k" "(x + 2 ^ k - 1) div 2 ^ k * 2 ^ k < x + 2 ^ k"
    "2 ^ k dvd (x + 2 ^ k - 1) div 2 ^ k * 2 ^ k"
proof -
  let ?d = "2 ^ k :: nat"
  have d: "0 < ?d" by simp
  have "x + ?d - 1 < (x + ?d - 1) div ?d * ?d + ?d"
    using mod_less_divisor [OF d, of "x + ?d - 1"] div_mult_mod_eq [of "x + ?d - 1" ?d] by linarith
  then show "x \<le> (x + 2 ^ k - 1) div 2 ^ k * 2 ^ k" using d by linarith
  show "(x + 2 ^ k - 1) div 2 ^ k * 2 ^ k < x + 2 ^ k"
    using div_times_less_eq_dividend [of "x + ?d - 1" ?d] d by linarith
qed simp

section \<open>The allocator\<close>

text \<open>Addresses are those of the processor; \<open>NULL\<close> is address 0.\<close>

record memcore =
  nextmem :: u32
  endmem :: u32

definition core_init :: "u32 \<Rightarrow> u32 \<Rightarrow> memcore" where
  "core_init heap_base heap_end = \<lparr>nextmem = heap_base, endmem = heap_end\<rparr>"

definition chCoreAllocAlignedWithOffsetI :: "u32 \<Rightarrow> u32 \<Rightarrow> u32 \<Rightarrow> memcore \<Rightarrow> (u32 \<times> memcore) option" where
  "chCoreAllocAlignedWithOffsetI n align offset mc = do {
     canard_assert (MEM_IS_VALID_ALIGNMENT align);
     let n = MEM_ALIGN_NEXT n align;
     let p = MEM_ALIGN_NEXT (nextmem mc + offset) align;
     let next = p + n;
     if next > endmem mc \<or> next < nextmem mc then Some (0, mc)
     else Some (p, mc\<lparr>nextmem := next\<rparr>)
   }"

definition chCoreAllocAlignedWithOffset :: "u32 \<Rightarrow> u32 \<Rightarrow> u32 \<Rightarrow> memcore \<Rightarrow> (u32 \<times> memcore) option" where
  "chCoreAllocAlignedWithOffset n align offset mc = chCoreAllocAlignedWithOffsetI n align offset mc"

definition chCoreGetStatusX :: "memcore \<Rightarrow> u32" where
  "chCoreGetStatusX mc = endmem mc - nextmem mc"

section \<open>What it promises\<close>

text \<open>
  \<open>chCoreAllocAlignedWithOffsetI\<close> with a valid alignment, as long as size, offset and twice the
  alignment together fit into the address space and the end of the region is not too close to its end:
  it returns either \<open>NULL\<close>, when not even rounding down would make the block fit, and leaves the core as
  it is, or an aligned block of at least the requested size, with the offset in front of it, inside the
  free region, which then begins behind the block.
\<close>

theorem core_alloc_correct:
  assumes "MEM_IS_VALID_ALIGNMENT align" and "nextmem mc \<le> endmem mc" and "nextmem mc \<noteq> 0"
    and "unat n + unat offset + 2 * unat align \<le> 2 ^ 32" and "unat (nextmem mc) + unat offset + unat align \<le> 2 ^ 32"
  shows "\<exists>p mc'. chCoreAllocAlignedWithOffsetI n align offset mc = Some (p, mc') \<and>
    (if p = 0 then mc' = mc \<and> unat (chCoreGetStatusX mc) < unat n + unat offset + 2 * unat align
     else unat align dvd unat p \<and> unat (nextmem mc) + unat offset \<le> unat p \<and>
       unat p + unat n \<le> unat (nextmem mc') \<and> nextmem mc' \<le> endmem mc' \<and> endmem mc' = endmem mc)"
proof -
  obtain k where k: "k < 32" "align = 2 ^ k" using valid_alignment_power [OF assms(1)] by blast
  then have al: "unat align = 2 ^ k" by (simp add: unat_two_power)
  let ?n = "MEM_ALIGN_NEXT n align" and ?p = "MEM_ALIGN_NEXT (nextmem mc + offset) align"
  have pos: "(0 :: nat) < 2 ^ k" by simp
  have "unat (nextmem mc) + unat offset < 2 ^ 32" using assms(5) al pos by linarith
  then have start: "unat (nextmem mc + offset) = unat (nextmem mc) + unat offset"
    by (simp add: unat_word_ariths)
  have n: "unat n \<le> unat ?n" "unat ?n < unat n + 2 ^ k"
    using round_up_bounds [of "unat n" k] align_next [OF k(1), of n] assms(4) al k(2) by simp_all
  have p: "unat (nextmem mc) + unat offset \<le> unat ?p" "unat ?p < unat (nextmem mc) + unat offset + 2 ^ k" "2 ^ k dvd unat ?p"
    using round_up_bounds [of "unat (nextmem mc + offset)" k] align_next [OF k(1), of "nextmem mc + offset"] assms(5) al k(2) start
    by simp_all
  have status: "unat (chCoreGetStatusX mc) = unat (endmem mc) - unat (nextmem mc)"
    using assms(2) by (simp add: chCoreGetStatusX_def unat_sub)
  have le: "unat (nextmem mc) \<le> unat (endmem mc)" using assms(2) by (simp add: word_le_nat_alt)
  have e32: "unat (endmem mc) < 2 ^ 32" using unsigned_less [of "endmem mc", where 'a = nat] by simp
  have p0: "?p \<noteq> 0" using p(1) assms(3) by (auto simp: unat_eq_0)
  consider (wraps) "2 ^ 32 \<le> unat ?p + unat ?n" | (too_big) "unat ?p + unat ?n < 2 ^ 32" "unat (endmem mc) < unat ?p + unat ?n"
    | (fits) "unat ?p + unat ?n \<le> unat (endmem mc)" using e32 by linarith
  then show ?thesis
  proof cases
    case wraps
    have "unat ?p + unat ?n < 2 ^ 32 + 2 ^ 32" using unsigned_less [of ?p, where 'a = nat] unsigned_less [of ?n, where 'a = nat] by simp
    then have "unat (?p + ?n) = unat ?p + unat ?n - 2 ^ 32"
      using wraps by (simp add: unat_word_ariths mod_if)
    then have "?p + ?n < nextmem mc"
      using wraps n(2) p(2) assms(4) al by (simp add: word_less_nat_alt)
    moreover have "unat (endmem mc) - unat (nextmem mc) < unat n + unat offset + 2 * 2 ^ k" using wraps n(2) p(2) e32 by linarith
    ultimately show ?thesis
      using assms(1) status al by (simp add: chCoreAllocAlignedWithOffsetI_def Let_def)
  next
    case too_big
    then have "unat (?p + ?n) = unat ?p + unat ?n" by (simp add: unat_word_ariths)
    then have "?p + ?n > endmem mc" using too_big by (simp add: word_less_nat_alt)
    moreover have "unat (endmem mc) - unat (nextmem mc) < unat n + unat offset + 2 * 2 ^ k" using too_big(2) n(2) p(2) by linarith
    ultimately show ?thesis
      using assms(1) status al by (simp add: chCoreAllocAlignedWithOffsetI_def Let_def)
  next
    case fits
    then have sum: "unat (?p + ?n) = unat ?p + unat ?n" using e32 by (simp add: unat_word_ariths)
    then have "\<not> ?p + ?n > endmem mc" "\<not> ?p + ?n < nextmem mc" "?p + ?n \<le> endmem mc"
      using fits p(1) by (simp_all add: word_less_nat_alt word_le_nat_alt)
    then show ?thesis
      using assms(1) p p0 n sum al by (simp add: chCoreAllocAlignedWithOffsetI_def Let_def)
  qed
qed

theorem core_alloc_correct_witness:
  "\<exists>p mc'. chCoreAllocAlignedWithOffsetI 20 8 8 (core_init 0x20001004 0x20005000) = Some (p, mc') \<and>
     (p = 0 \<or> 8 dvd unat p \<and> 0x2000100C \<le> unat p)"
  using core_alloc_correct [of 8 "core_init 0x20001004 0x20005000" 20 8]
  by (auto simp: core_init_def MEM_IS_VALID_ALIGNMENT_def split: if_splits)

text \<open>
  The check for numeric overflow does not see every wrap-around: with an offset, as the heap uses it,
  a request for nearly the whole address space succeeds, and the core is as free afterwards as before.
\<close>

theorem core_alloc_overflow_succeeds:
  "chCoreAllocAlignedWithOffsetI 0xFFFFFFF8 8 8 (core_init 0x20001000 0x20005000) =
     Some (0x20001008, core_init 0x20001000 0x20005000)"
  by (simp add: chCoreAllocAlignedWithOffsetI_def core_init_def MEM_ALIGN_NEXT_def MEM_ALIGN_PREV_def
      MEM_ALIGN_MASK_def MEM_IS_VALID_ALIGNMENT_def)

end
