(* ===== verification/Chheap.thy ===== *)
theory Chheap
  imports Memcore
begin

text \<open>
  The heap allocator of ChibiOS (\<open>os/common/oslib/src/chheap.c\<close>): first fit over a list of free blocks,
  sorted by address, that merges neighbours when a block comes back. Memory is counted in pages of
  \<open>CH_HEAP_ALIGNMENT\<close>, eight bytes, the size of a block header; the address of a header is its page
  number. The mutex of a heap makes each operation atomic.
\<close>

section \<open>Data\<close>

abbreviation (input) CH_HEAP_ALIGNMENT :: u32 where "CH_HEAP_ALIGNMENT \<equiv> 8"

type_synonym heap_id = nat

text \<open>The header of a block is a union: a free block links to the next, a used one names its heap.\<close>

datatype heap_header = Free ptr nat | Used heap_id u32

text \<open>
  \<open>heap_next\<close> is the \<open>next\<close> pointer in the descriptor of each heap. The only provider of memory in the
  code is the core allocator; \<open>provider\<close> says which heaps have it.
\<close>

record memory_heap =
  heap_next :: "heap_id \<Rightarrow> ptr"
  provider :: "heap_id \<Rightarrow> bool"
  headers :: "addr \<rightharpoonup> heap_header"
  ch_memcore :: memcore

text \<open>A pointer \<open>qp\<close> is to the header in the descriptor or to that of a block.\<close>

datatype header_ptr = Descriptor | Block addr

definition H_NEXT :: "heap_id \<Rightarrow> header_ptr \<Rightarrow> memory_heap \<Rightarrow> ptr option" where
  "H_NEXT h qp s =
     (case qp of
        Descriptor \<Rightarrow> Some (heap_next s h)
      | Block a \<Rightarrow> (case headers s a of Some (Free next pages) \<Rightarrow> Some next | _ \<Rightarrow> None))"

definition H_PAGES :: "header_ptr \<Rightarrow> memory_heap \<Rightarrow> nat option" where
  "H_PAGES qp s =
     (case qp of
        Descriptor \<Rightarrow> Some 0
      | Block a \<Rightarrow> (case headers s a of Some (Free next pages) \<Rightarrow> Some pages | _ \<Rightarrow> None))"

definition set_next :: "heap_id \<Rightarrow> header_ptr \<Rightarrow> ptr \<Rightarrow> memory_heap \<Rightarrow> memory_heap option" where
  "set_next h qp next s =
     (case qp of
        Descriptor \<Rightarrow> Some (s\<lparr>heap_next := (heap_next s)(h := next)\<rparr>)
      | Block a \<Rightarrow>
          (case headers s a of
             Some (Free _ pages) \<Rightarrow> Some (s\<lparr>headers := (headers s)(a \<mapsto> Free next pages)\<rparr>)
           | _ \<Rightarrow> None))"

definition set_pages :: "addr \<Rightarrow> nat \<Rightarrow> memory_heap \<Rightarrow> memory_heap option" where
  "set_pages a pages s =
     (case headers s a of
        Some (Free next _) \<Rightarrow> Some (s\<lparr>headers := (headers s)(a \<mapsto> Free next pages)\<rparr>)
      | _ \<Rightarrow> None)"

definition write_header :: "addr \<Rightarrow> heap_header \<Rightarrow> memory_heap \<Rightarrow> memory_heap" where
  "write_header a c s = s\<lparr>headers := (headers s)(a \<mapsto> c)\<rparr>"

abbreviation H_BLOCK :: "addr \<Rightarrow> addr" where "H_BLOCK hp \<equiv> hp + 1"

text \<open>Sizes in bytes become pages, rounded up, with the wrap-around of the macro.\<close>

definition pages_of_size :: "u32 \<Rightarrow> nat" where
  "pages_of_size n = unat (MEM_ALIGN_NEXT n CH_HEAP_ALIGNMENT div CH_HEAP_ALIGNMENT)"

text \<open>\<open>MEM_ALIGN_NEXT(p, align)\<close> for a pointer to a page, with an alignment of \<open>k\<close> pages.\<close>

definition align_page :: "nat \<Rightarrow> addr \<Rightarrow> addr" where
  "align_page k p = (p + k - 1) div k * k"

section \<open>Initialization\<close>

definition heap_init :: "memory_heap \<Rightarrow> memory_heap" where
  "heap_init s = s\<lparr>provider := (provider s)(0 := True), heap_next := (heap_next s)(0 := None)\<rparr>"

text \<open>A heap in a buffer of \<open>n\<close> bytes at the byte address \<open>buf\<close>.\<close>

definition chHeapObjectInit :: "heap_id \<Rightarrow> u32 \<Rightarrow> u32 \<Rightarrow> memory_heap \<Rightarrow> memory_heap option" where
  "chHeapObjectInit heapp buf n s = do {
     let hp = MEM_ALIGN_NEXT buf CH_HEAP_ALIGNMENT;
     canard_assert (n > 0);
     let n = n - (hp - buf);
     let s = s\<lparr>provider := (provider s)(heapp := False),
               heap_next := (heap_next s)(heapp := Some (unat hp div 8))\<rparr>;
     Some (write_header (unat hp div 8) (Free None (unat ((n - 8) div CH_HEAP_ALIGNMENT))) s)
   }"

section \<open>Allocation\<close>

text \<open>
  Taking a block out of the free block \<open>hp\<close>, the successor of \<open>qp\<close>: the result is the header of the
  block, \<open>ahp\<close> if the front of the free block stays in the list, else \<open>hp\<close>.
\<close>

definition heap_take ::
  "heap_id \<Rightarrow> header_ptr \<Rightarrow> addr \<Rightarrow> addr \<Rightarrow> nat \<Rightarrow> nat \<Rightarrow> memory_heap \<Rightarrow> (addr \<times> memory_heap) option" where
  "heap_take heapp qp hp ahp pages hpages s = do {
     let limit = H_BLOCK hp + hpages;
     next \<leftarrow> H_NEXT heapp (Block hp) s;
     if ahp > hp then do {
       let bpages = limit - H_BLOCK ahp;
       s \<leftarrow> set_pages hp (ahp - H_BLOCK hp) s;
       s \<leftarrow> (if bpages > pages
            then (let fp = H_BLOCK ahp + pages
                  in set_next heapp (Block hp) (Some fp) (write_header fp (Free next ((bpages - pages) - 1)) s))
            else Some s);
       Some (ahp, s)
     }
     else if hpages = pages then do {
       s \<leftarrow> set_next heapp qp next s;
       Some (hp, s)
     }
     else do {
       let fp = H_BLOCK hp + pages;
       s \<leftarrow> set_next heapp qp (Some fp) (write_header fp (Free next (limit - H_BLOCK fp)) s);
       Some (hp, s)
     }
   }"

partial_function (option) alloc_loop ::
  "heap_id \<Rightarrow> nat \<Rightarrow> nat \<Rightarrow> header_ptr \<Rightarrow> memory_heap \<Rightarrow> (ptr \<times> memory_heap) option" where
  "alloc_loop heapp pages k qp s = do {
     next \<leftarrow> H_NEXT heapp qp s;
     case next of
       None \<Rightarrow> Some (None, s)
     | Some hp \<Rightarrow> do {
         hpages \<leftarrow> H_PAGES (Block hp) s;
         let limit = H_BLOCK hp + hpages;
         let ahp = align_page k (H_BLOCK hp) - 1;
         if ahp < limit \<and> pages \<le> limit - H_BLOCK ahp then do {
           (hp, s) \<leftarrow> heap_take heapp qp hp ahp pages hpages s;
           Some (Some hp, s)
         }
         else alloc_loop heapp pages k (Block hp) s
       }
   }"

text \<open>The result is the page number behind the header, \<open>None\<close> for \<open>NULL\<close>.\<close>

definition chHeapAllocAligned :: "heap_id \<Rightarrow> u32 \<Rightarrow> u32 \<Rightarrow> memory_heap \<Rightarrow> (ptr \<times> memory_heap) option" where
  "chHeapAllocAligned heapp n align s = do {
     canard_assert (n > 0 \<and> MEM_IS_VALID_ALIGNMENT align);
     let align = (if align < CH_HEAP_ALIGNMENT then CH_HEAP_ALIGNMENT else align);
     let pages = pages_of_size n;
     (r, s) \<leftarrow> alloc_loop heapp pages (unat align div 8) Descriptor s;
     case r of
       Some hp \<Rightarrow> Some (Some (H_BLOCK hp), write_header hp (Used heapp n) s)
     | None \<Rightarrow>
         if provider s heapp then do {
           (ahp, mc) \<leftarrow> chCoreAllocAlignedWithOffset ((of_nat pages + 1) * CH_HEAP_ALIGNMENT) align 8 (ch_memcore s);
           let s = s\<lparr>ch_memcore := mc\<rparr>;
           if ahp \<noteq> 0
           then Some (Some (unat ahp div 8), write_header (unat ahp div 8 - 1) (Used heapp n) s)
           else Some (None, s)
         }
         else Some (None, s)
   }"

section \<open>Deallocation\<close>

text \<open>
  \<open>hp < qp\<close> and \<open>hp > qp\<close> for a pointer to the descriptor: the descriptor is no block, so the assertion
  holds of it, and no block lies directly behind it.
\<close>

definition outside_block :: "addr \<Rightarrow> header_ptr \<Rightarrow> nat \<Rightarrow> bool" where
  "outside_block hp qp qpages = (case qp of Descriptor \<Rightarrow> True | Block q \<Rightarrow> hp < q \<or> hp \<ge> H_BLOCK q + qpages)"

text \<open>Insertion after \<open>qp\<close>, with the merges.\<close>

definition heap_insert :: "heap_id \<Rightarrow> header_ptr \<Rightarrow> addr \<Rightarrow> memory_heap \<Rightarrow> memory_heap option" where
  "heap_insert heapp qp hp s = do {
     next \<leftarrow> H_NEXT heapp qp s;
     s \<leftarrow> set_next heapp (Block hp) next s;
     s \<leftarrow> set_next heapp qp (Some hp) s;
     pages \<leftarrow> H_PAGES (Block hp) s;
     s \<leftarrow> (if Some (H_BLOCK hp + pages) = next then do {
            npages \<leftarrow> H_PAGES (Block (H_BLOCK hp + pages)) s;
            s \<leftarrow> set_pages hp (pages + (npages + 1)) s;
            nnext \<leftarrow> H_NEXT heapp (Block (H_BLOCK hp + pages)) s;
            set_next heapp (Block hp) nnext s
          }
          else Some s);
     qpages \<leftarrow> H_PAGES qp s;
     case qp of
       Descriptor \<Rightarrow> Some s
     | Block q \<Rightarrow>
         if H_BLOCK q + qpages = hp then do {
           pages \<leftarrow> H_PAGES (Block hp) s;
           s \<leftarrow> set_pages q (qpages + (pages + 1)) s;
           next \<leftarrow> H_NEXT heapp (Block hp) s;
           set_next heapp qp next s
         }
         else Some s
   }"

partial_function (option) free_loop ::
  "heap_id \<Rightarrow> addr \<Rightarrow> header_ptr \<Rightarrow> memory_heap \<Rightarrow> memory_heap option" where
  "free_loop heapp hp qp s = do {
     qpages \<leftarrow> H_PAGES qp s;
     canard_assert (outside_block hp qp qpages);
     next \<leftarrow> H_NEXT heapp qp s;
     if (case qp of Descriptor \<Rightarrow> True | Block q \<Rightarrow> hp > q) \<and>
        (case next of None \<Rightarrow> True | Some n \<Rightarrow> hp < n)
     then heap_insert heapp qp hp s
     else (case next of None \<Rightarrow> None | Some n \<Rightarrow> free_loop heapp hp (Block n) s)
   }"

definition chHeapFree :: "addr \<Rightarrow> memory_heap \<Rightarrow> memory_heap option" where
  "chHeapFree p s = do {
     canard_assert (p \<noteq> 0);
     let hp = p - 1;
     case headers s hp of
       Some (Used heapp n) \<Rightarrow> free_loop heapp hp Descriptor (write_header hp (Free None (pages_of_size n)) s)
     | _ \<Rightarrow> None
   }"

section \<open>Status\<close>

partial_function (option) status_loop ::
  "heap_id \<Rightarrow> header_ptr \<Rightarrow> nat \<Rightarrow> nat \<Rightarrow> nat \<Rightarrow> memory_heap \<Rightarrow> (nat \<times> nat \<times> nat) option" where
  "status_loop heapp qp n tpages lpages s = do {
     next \<leftarrow> H_NEXT heapp qp s;
     case next of
       None \<Rightarrow> Some (n, tpages, lpages)
     | Some a \<Rightarrow> do {
         pages \<leftarrow> H_PAGES (Block a) s;
         status_loop heapp (Block a) (n + 1) (tpages + pages) (if pages > lpages then pages else lpages) s
       }
   }"

text \<open>Number of fragments, total and largest free space in bytes.\<close>

definition chHeapStatus :: "heap_id \<Rightarrow> memory_heap \<Rightarrow> (nat \<times> nat \<times> nat) option" where
  "chHeapStatus heapp s = do {
     (n, tpages, lpages) \<leftarrow> status_loop heapp Descriptor 0 0 0 s;
     Some (n, tpages * 8, lpages * 8)
   }"

end
