(* ===== verification/Chheap_Links.thy ===== *)
theory Chheap_Links
  imports Chheap
begin

text \<open>
  The free list of a heap as a list of blocks (header page, number of pages), and what each operation of
  \<open>Chheap\<close> on the links does to it.
\<close>

section \<open>The linked list\<close>

definition heap_view :: "memory_heap \<Rightarrow> nat view" where
  "heap_view s a = (case headers s a of Some (Free next pages) \<Rightarrow> Some (next, pages) | _ \<Rightarrow> None)"

definition linked :: "heap_id \<Rightarrow> memory_heap \<Rightarrow> (addr \<times> nat) list \<Rightarrow> bool" where
  "linked h s L \<longleftrightarrow> chain (heap_view s) (heap_next s h) L"

definition pred_ptr :: "(addr \<times> nat) list \<Rightarrow> header_ptr" where
  "pred_ptr pre = (if pre = [] then Descriptor else Block (fst (last pre)))"

text \<open>Everything outside a heap and a set of headers stays.\<close>

definition frame :: "heap_id \<Rightarrow> addr set \<Rightarrow> memory_heap \<Rightarrow> memory_heap \<Rightarrow> bool" where
  "frame h A s s' \<longleftrightarrow> (\<forall>h'. h' \<noteq> h \<longrightarrow> heap_next s' h' = heap_next s h') \<and> provider s' = provider s \<and>
     ch_memcore s' = ch_memcore s \<and> (\<forall>a. a \<notin> A \<longrightarrow> headers s' a = headers s a)"

lemma frame_trans: "frame h A s s' \<Longrightarrow> frame h B s' s'' \<Longrightarrow> frame h (A \<union> B) s s''"
  by (simp add: frame_def)

lemma frame_mono: "frame h A s s' \<Longrightarrow> A \<subseteq> B \<Longrightarrow> frame h B s s'"
  by (auto simp: frame_def)

lemma frame_view: "frame h A s s' \<Longrightarrow> a \<notin> A \<Longrightarrow> heap_view s' a = heap_view s a"
  by (simp add: frame_def heap_view_def)

lemma frame_write [simp]: "frame h {a} s (write_header a c s)"
  by (simp add: frame_def write_header_def)

lemma view_write [simp]:
  "heap_view (write_header a (Free next pages) s) b = (if b = a then Some (next, pages) else heap_view s b)"
  by (simp add: heap_view_def write_header_def)

lemma next_write [simp]: "heap_next (write_header a c s) = heap_next s"
  by (simp add: write_header_def)

lemma H_NEXT_Descriptor: "H_NEXT h Descriptor s = Some (heap_next s h)"
  by (simp add: H_NEXT_def)

lemma H_NEXT_Block: "H_NEXT h (Block a) s = map_option fst (heap_view s a)"
  by (auto simp: H_NEXT_def heap_view_def split: option.split heap_header.split)

lemma H_PAGES_Block: "H_PAGES (Block a) s = map_option snd (heap_view s a)"
  by (auto simp: H_PAGES_def heap_view_def split: option.split heap_header.split)

lemma set_next_Block:
  "heap_view s a = Some (n, p) \<Longrightarrow> set_next h (Block a) n' s = Some (write_header a (Free n' p) s)"
  by (auto simp: set_next_def heap_view_def write_header_def split: option.splits heap_header.splits)

lemma set_pages_view:
  "heap_view s a = Some (n, p) \<Longrightarrow> set_pages a p' s = Some (write_header a (Free n p') s)"
  by (auto simp: set_pages_def heap_view_def write_header_def split: option.splits heap_header.splits)

section \<open>Changing the list\<close>

text \<open>
  What the predecessor's pointer leads to: \<open>pre\<close> stays, \<open>new\<close> is in place already, and the link from
  \<open>pre\<close> to it is set.
\<close>

lemma relink:
  assumes "linked h s (pre @ old)" and "\<And>a. a \<in> set (addrs pre) \<Longrightarrow> heap_view s1 a = heap_view s a"
    and "heap_next s1 h = heap_next s h" and "chain (heap_view s1) np new"
    and "set (addrs pre) \<inter> set (addrs new) = {}"
  shows "\<exists>s2. set_next h (pred_ptr pre) np s1 = Some s2 \<and> linked h s2 (pre @ new) \<and> frame h (set (addrs pre)) s1 s2"
proof (cases pre rule: rev_cases)
  case Nil
  have "heap_view (s1\<lparr>heap_next := (heap_next s1)(h := np)\<rparr>) = heap_view s1"
    by (rule ext) (simp add: heap_view_def)
  with assms Nil show ?thesis by (simp add: pred_ptr_def set_next_def linked_def frame_def)
next
  case (snoc pre' x)
  obtain q p where x: "x = (q, p)" by fastforce
  have L: "chain (heap_view s) (heap_next s h) (pre' @ (q, p) # old)"
    using assms(1) snoc x by (simp add: linked_def)
  then obtain n where q: "heap_view s q = Some (n, p)" and pre': "segment (heap_view s) (heap_next s h) pre' (Some q)"
    by (auto simp: segment_append)
  have dist: "q \<notin> set (addrs pre')" using chain_distinct [OF L] by simp
  let ?s2 = "write_header q (Free np p) s1"
  have v1: "heap_view s1 q = Some (n, p)" using q assms(2) snoc x by simp
  have "segment (heap_view ?s2) (heap_next s h) pre' (Some q)"
    using pre' dist assms(2) snoc
    by (subst segment_cong [where w = "heap_view s"]) auto
  moreover have "chain (heap_view ?s2) np new"
    using assms(4,5) snoc x by (subst segment_cong [where w = "heap_view s1"]) auto
  ultimately have "linked h ?s2 (pre @ new)"
    using assms(3) snoc x by (auto simp: linked_def segment_append)
  moreover have "frame h (set (addrs pre)) s1 ?s2"
    by (rule frame_mono [OF frame_write]) (simp add: snoc x)
  ultimately show ?thesis
    using set_next_Block [OF v1, of h np] snoc x by (auto simp: pred_ptr_def)
qed

lemma resize:
  assumes "linked h s (pre @ (a, p) # post)"
  shows "\<exists>s'. set_pages a p' s = Some s' \<and> linked h s' (pre @ (a, p') # post) \<and> frame h {a} s s' \<and> heap_next s' = heap_next s"
proof -
  have L: "chain (heap_view s) (heap_next s h) (pre @ (a, p) # post)" using assms by (simp add: linked_def)
  then obtain n where a: "heap_view s a = Some (n, p)" and pre: "segment (heap_view s) (heap_next s h) pre (Some a)"
      and post: "chain (heap_view s) n post"
    by (auto simp: segment_append)
  have d: "a \<notin> set (addrs pre)" "a \<notin> set (addrs post)" using chain_distinct [OF L] by auto
  let ?s = "write_header a (Free n p') s"
  have "segment (heap_view ?s) (heap_next s h) pre (Some a)"
    using pre d by (subst segment_cong [where w = "heap_view s"]) auto
  moreover have "chain (heap_view ?s) n post"
    using post d by (subst segment_cong [where w = "heap_view s"]) auto
  ultimately show ?thesis
    using set_pages_view [OF a, of p'] by (auto simp: linked_def segment_append)
qed

text \<open>Following the pointers.\<close>

lemma linked_pred:
  assumes "linked h s (pre @ (a, p) # post)"
  shows "H_NEXT h (pred_ptr pre) s = Some (Some a)" and "H_PAGES (Block a) s = Some p"
    and "\<exists>n. heap_view s a = Some (n, p) \<and> chain (heap_view s) n post"
proof -
  have L: "chain (heap_view s) (heap_next s h) (pre @ (a, p) # post)" using assms by (simp add: linked_def)
  then show v: "\<exists>n. heap_view s a = Some (n, p) \<and> chain (heap_view s) n post" by (auto simp: segment_append)
  then show "H_PAGES (Block a) s = Some p" by (auto simp: H_PAGES_Block)
  show "H_NEXT h (pred_ptr pre) s = Some (Some a)"
    using L by (cases pre rule: rev_cases) (auto simp: pred_ptr_def H_NEXT_Descriptor H_NEXT_Block [of h] segment_append)
qed

lemma linked_last:
  assumes "linked h s pre"
  shows "H_NEXT h (pred_ptr pre) s = Some None"
  using assms by (cases pre rule: rev_cases) (auto simp: pred_ptr_def H_NEXT_Descriptor linked_def H_NEXT_Block [of h] segment_append)

section \<open>First fit\<close>

definition fits :: "nat \<Rightarrow> nat \<Rightarrow> addr \<times> nat \<Rightarrow> bool" where
  "fits k pages b \<longleftrightarrow> (case b of (a, p) \<Rightarrow>
     let ahp = align_page k (a + 1) - 1 in ahp < a + 1 + p \<and> pages \<le> a + 1 + p - (ahp + 1))"

text \<open>What is left of a free block when a block of \<open>pages\<close> pages with its header at \<open>ahp\<close> is taken out.\<close>

definition remains :: "addr \<Rightarrow> nat \<Rightarrow> addr \<times> nat \<Rightarrow> (addr \<times> nat) list" where
  "remains ahp pages b = (case b of (a, p) \<Rightarrow>
     (if a < ahp then [(a, ahp - (a + 1))] else []) @
     (if ahp + 1 + pages < a + 1 + p then [(ahp + 1 + pages, a + p - (ahp + 1 + pages))] else []))"

lemma pred_ptr_snoc [simp]: "pred_ptr (pre @ [(a, p)]) = Block a"
  by (simp add: pred_ptr_def)

lemma linked_distinct: "linked h s L \<Longrightarrow> distinct (addrs L)"
  by (simp add: linked_def chain_distinct)

lemma heap_take_links:
  assumes "linked h s (pre @ (a, p) # post)" and "a \<le> ahp" and "ahp < a + 1 + p" and "pages \<le> a + 1 + p - (ahp + 1)"
    and "\<And>x. a < x \<Longrightarrow> x < a + 1 + p \<Longrightarrow> x \<notin> set (addrs (pre @ post))"
  shows "\<exists>s'. heap_take h (pred_ptr pre) a ahp pages p s = Some (ahp, s') \<and>
    linked h s' (pre @ remains ahp pages (a, p) @ post) \<and>
    frame h (set (addrs (pre @ [(a, p)])) \<union> {x. a < x \<and> x < a + 1 + p}) s s'"
proof -
  obtain n where n: "heap_view s a = Some (n, p)" "chain (heap_view s) n post" using linked_pred(3) [OF assms(1)] by blast
  have d: "distinct (addrs (pre @ (a, p) # post))" by (rule linked_distinct [OF assms(1)])
  let ?fp = "ahp + 1 + pages" and ?F = "set (addrs (pre @ [(a, p)])) \<union> {x. a < x \<and> x < a + 1 + p}"
  have nx: "H_NEXT h (Block a) s = Some n" using n by (simp add: H_NEXT_Block)
  show ?thesis
  proof (cases "a < ahp")
    case True
    obtain s1 where s1: "set_pages a (ahp - (a + 1)) s = Some s1" "linked h s1 (pre @ (a, ahp - (a + 1)) # post)" "frame h {a} s s1"
      using resize [OF assms(1), of "ahp - (a + 1)"] by blast
    show ?thesis
    proof (cases "?fp < a + 1 + p")
      case False
      then have "frame h ?F s s1" by (intro frame_mono [OF s1(3)]) auto
      with True False s1 nx assms(3,4) show ?thesis
        by (auto simp: heap_take_def remains_def Let_def)
    next
      case more: True
      let ?s2 = "write_header ?fp (Free n (a + 1 + p - (ahp + 1) - pages - 1)) s1"
      have fp: "?fp \<notin> set (addrs (pre @ post))" "?fp \<noteq> a" using assms(5) [of ?fp] True more by auto
      have "heap_view ?s2 b = heap_view s b" if b: "b \<in> set (addrs post)" for b
      proof -
        have "b \<noteq> a" "b \<noteq> ?fp" using b d fp(1) by auto
        then show ?thesis using frame_view [OF s1(3), of b] by simp
      qed
      then have "chain (heap_view ?s2) n post"
        using n(2) by (subst segment_cong [where w = "heap_view s"]) auto
      then have "chain (heap_view ?s2) (Some ?fp) ((?fp, a + 1 + p - (ahp + 1) - pages - 1) # post)" by simp
      from relink [OF _ _ _ this, where h = h and pre = "pre @ [(a, ahp - (a + 1))]" and s = s1 and old = post]
      obtain s3 where s3: "set_next h (Block a) (Some ?fp) ?s2 = Some s3"
          "linked h s3 (pre @ (a, ahp - (a + 1)) # (?fp, a + 1 + p - (ahp + 1) - pages - 1) # post)"
          "frame h (set (addrs (pre @ [(a, ahp - (a + 1))]))) ?s2 s3"
        using s1(2) fp d by fastforce
      have "frame h ({a} \<union> ({?fp} \<union> set (addrs (pre @ [(a, ahp - (a + 1))])))) s s3"
        by (intro frame_trans [OF s1(3)] frame_trans [OF frame_write s3(3)])
      then have "frame h ?F s s3" by (rule frame_mono) (use True more in auto)
      moreover have "remains ahp pages (a, p) = [(a, ahp - (a + 1)), (?fp, a + 1 + p - (ahp + 1) - pages - 1)]"
        using True more by (simp add: remains_def)
      moreover have "pages < a + 1 + p - (ahp + 1)" using True more by linarith
      ultimately show ?thesis
        using True more s1(1) s3(1,2) nx by (simp add: heap_take_def Let_def)
    qed
  next
    case False
    then have [simp]: "ahp = a" using assms(2) by simp
    show ?thesis
    proof (cases "p = pages")
      case True
      from relink [OF assms(1) _ _ n(2)] obtain s1 where "set_next h (pred_ptr pre) n s = Some s1" "linked h s1 (pre @ post)"
          "frame h (set (addrs pre)) s s1"
        using d by fastforce
      moreover from this(3) have "frame h ?F s s1" by (rule frame_mono) auto
      ultimately show ?thesis using True nx by (auto simp: heap_take_def remains_def)
    next
      case more: False
      then have lt: "?fp < a + 1 + p" using assms(4) by simp
      let ?s1 = "write_header ?fp (Free n (a + 1 + p - (?fp + 1))) s"
      have fp: "?fp \<notin> set (addrs (pre @ post))" "?fp \<noteq> a" using assms(5) [of ?fp] lt by auto
      have "chain (heap_view ?s1) n post"
        using n(2) d fp by (subst segment_cong [where w = "heap_view s"]) auto
      then have "chain (heap_view ?s1) (Some ?fp) ((?fp, a + 1 + p - (?fp + 1)) # post)" by simp
      from relink [OF assms(1) _ _ this] obtain s2 where s2: "set_next h (pred_ptr pre) (Some ?fp) ?s1 = Some s2"
          "linked h s2 (pre @ (?fp, a + 1 + p - (?fp + 1)) # post)" "frame h (set (addrs pre)) ?s1 s2"
        using d fp by fastforce
      have "frame h ?F s s2" by (rule frame_mono [OF frame_trans [OF frame_write s2(3)]]) (use lt in auto)
      with more lt s2(1,2) nx show ?thesis by (simp add: heap_take_def remains_def Let_def)
    qed
  qed
qed

lemma alloc_loop_links:
  assumes "linked h s (pre @ L)" and "\<forall>b \<in> set pre. \<not> fits k pages b"
  shows "alloc_loop h pages k (pred_ptr pre) s =
    (case dropWhile (\<lambda>b. \<not> fits k pages b) L of
       [] \<Rightarrow> Some (None, s)
     | (a, p) # post \<Rightarrow> do {
         (hp, s') \<leftarrow> heap_take h (pred_ptr (pre @ takeWhile (\<lambda>b. \<not> fits k pages b) L)) a
           (align_page k (a + 1) - 1) pages p s;
         Some (Some hp, s')
       })"
  using assms
proof (induction L arbitrary: pre)
  case Nil
  then show ?case
    using linked_last [of h s pre] by (simp add: alloc_loop.simps [of _ _ _ "pred_ptr pre"])
next
  case (Cons b L)
  obtain a p where b: "b = (a, p)" by fastforce
  note ptr = linked_pred(1,2) [OF Cons.prems(1) [unfolded b]]
  show ?case
  proof (cases "fits k pages b")
    case True
    with ptr b show ?thesis
      by (simp add: alloc_loop.simps [of _ _ _ "pred_ptr pre"] fits_def Let_def)
  next
    case False
    have "alloc_loop h pages k (pred_ptr pre) s = alloc_loop h pages k (pred_ptr (pre @ [b])) s"
      using False ptr b by (auto simp: alloc_loop.simps [of _ _ _ "pred_ptr pre"] fits_def Let_def)
    moreover have "(pre @ [b]) @ takeWhile (\<lambda>b. \<not> fits k pages b) L = pre @ takeWhile (\<lambda>b. \<not> fits k pages b) (b # L)"
      "dropWhile (\<lambda>b. \<not> fits k pages b) (b # L) = dropWhile (\<lambda>b. \<not> fits k pages b) L"
      using False by simp_all
    moreover have "linked h s ((pre @ [b]) @ L)" "\<forall>b \<in> set (pre @ [b]). \<not> fits k pages b"
      using Cons.prems False by auto
    note Cons.IH [OF this]
    ultimately show ?thesis by (simp only:)
  qed
qed

section \<open>Insertion\<close>

text \<open>Putting a block between two neighbours, merged with them where they touch.\<close>

definition merge_next :: "addr \<Rightarrow> nat \<Rightarrow> (addr \<times> nat) list \<Rightarrow> (addr \<times> nat) list" where
  "merge_next a p post =
     (case post of (b, q) # post' \<Rightarrow> if a + 1 + p = b then (a, p + (q + 1)) # post' else (a, p) # post | [] \<Rightarrow> [(a, p)])"

definition merge_pred :: "(addr \<times> nat) list \<Rightarrow> (addr \<times> nat) list \<Rightarrow> (addr \<times> nat) list" where
  "merge_pred pre rest =
     (if pre \<noteq> [] \<and> rest \<noteq> [] \<and> fst (last pre) + 1 + snd (last pre) = fst (hd rest)
      then butlast pre @ (fst (last pre), snd (last pre) + (snd (hd rest) + 1)) # tl rest else pre @ rest)"

lemma linked_next:
  assumes "linked h s (pre @ post)"
  shows "\<exists>n. H_NEXT h (pred_ptr pre) s = Some n \<and> chain (heap_view s) n post"
proof (cases post)
  case Nil
  then show ?thesis using linked_last assms by simp
next
  case (Cons x post')
  then obtain a p where L: "linked h s (pre @ (a, p) # post')" "post = (a, p) # post'" using assms by (cases x) auto
  from linked_pred [OF L(1)] L(2) show ?thesis by auto
qed

lemma absorb:
  assumes "linked h s (pre @ (a, p) # (b, q) # post)"
  shows "\<exists>s'. do { s \<leftarrow> set_pages a (p + (q + 1)) s; next \<leftarrow> H_NEXT h (Block b) s; set_next h (Block a) next s } = Some s' \<and>
    linked h s' (pre @ (a, p + (q + 1)) # post) \<and> frame h (set (addrs (pre @ [(a, p)]))) s s'"
proof -
  obtain s1 where s1: "set_pages a (p + (q + 1)) s = Some s1" "linked h s1 (pre @ (a, p + (q + 1)) # (b, q) # post)"
      "frame h {a} s s1"
    using resize [OF assms, of "p + (q + 1)"] by blast
  from linked_next [of h s1 "pre @ [(a, p + (q + 1)), (b, q)]" post] s1(2) obtain n where
      n: "H_NEXT h (Block b) s1 = Some n" "chain (heap_view s1) n post"
    by (auto simp: pred_ptr_def)
  from relink [OF _ refl refl n(2), where h = h and pre = "pre @ [(a, p + (q + 1))]" and old = "(b, q) # post"]
  obtain s2 where s2: "set_next h (Block a) n s1 = Some s2" "linked h s2 (pre @ (a, p + (q + 1)) # post)"
      "frame h (set (addrs (pre @ [(a, p + (q + 1))]))) s1 s2"
    using s1(2) linked_distinct [OF s1(2)] by fastforce
  have "frame h (set (addrs (pre @ [(a, p)]))) s s2"
    by (rule frame_mono [OF frame_trans [OF s1(3) s2(3)]]) auto
  with s1(1) n(1) s2(1,2) show ?thesis by auto
qed

lemma heap_insert_links:
  assumes "linked h s (pre @ post)" and "heap_view s a = Some (n0, p)" and "a \<notin> set (addrs (pre @ post))"
    and "\<And>b q. (b, q) \<in> set post \<Longrightarrow> a < b" and "\<And>b q. (b, q) \<in> set pre \<Longrightarrow> b < a"
  shows "\<exists>s'. heap_insert h (pred_ptr pre) a s = Some s' \<and> linked h s' (merge_pred pre (merge_next a p post)) \<and>
    frame h (set (addrs (pre @ (a, p) # post))) s s'"
proof -
  let ?F = "set (addrs (pre @ (a, p) # post))"
  have d: "distinct (addrs (pre @ post))" by (rule linked_distinct [OF assms(1)])
  obtain n where n: "H_NEXT h (pred_ptr pre) s = Some n" "chain (heap_view s) n post"
    using linked_next [OF assms(1)] by blast
  let ?s1 = "write_header a (Free n p) s"
  have s1: "set_next h (Block a) n s = Some ?s1" by (rule set_next_Block [OF assms(2)])
  have "chain (heap_view ?s1) n post"
    using n(2) assms(3) by (subst segment_cong [where w = "heap_view s"]) auto
  then have "chain (heap_view ?s1) (Some a) ((a, p) # post)" by simp
  from relink [OF assms(1) _ _ this] obtain s2 where s2: "set_next h (pred_ptr pre) (Some a) ?s1 = Some s2"
      "linked h s2 (pre @ (a, p) # post)" "frame h (set (addrs pre)) ?s1 s2"
    using assms(3) d by fastforce
  have F2: "frame h ?F s s2" by (rule frame_mono [OF frame_trans [OF frame_write s2(3)]]) auto
  have pages: "H_PAGES (Block a) s2 = Some p" by (rule linked_pred(2) [OF s2(2)])
  have "\<exists>p' post'. merge_next a p post = (a, p') # post'"
    by (auto simp: merge_next_def split: list.split)
  then obtain p' post' where m: "merge_next a p post = (a, p') # post'" by blast
  obtain s3 where s3: "(if Some (a + 1 + p) = n then do {
        npages \<leftarrow> H_PAGES (Block (a + 1 + p)) s2;
        s \<leftarrow> set_pages a (p + (npages + 1)) s2;
        nnext \<leftarrow> H_NEXT h (Block (a + 1 + p)) s;
        set_next h (Block a) nnext s
      } else Some s2) = Some s3" "linked h s3 (pre @ (a, p') # post')" "frame h ?F s s3"
  proof (cases "Some (a + 1 + p) = n")
    case True
    then obtain q rest where post: "post = (a + 1 + p, q) # rest" using n(2) by (cases post) auto
    from absorb [of h s2 pre a p "a + 1 + p" q rest] s2(2) post obtain s' where s':
        "do { s \<leftarrow> set_pages a (p + (q + 1)) s2; next \<leftarrow> H_NEXT h (Block (a + 1 + p)) s; set_next h (Block a) next s } = Some s'"
        "linked h s' (pre @ (a, p + (q + 1)) # rest)" "frame h (set (addrs (pre @ [(a, p)]))) s2 s'"
      by auto
    have "frame h ?F s s'" by (rule frame_mono [OF frame_trans [OF F2 s'(3)]]) auto
    moreover have "H_PAGES (Block (a + 1 + p)) s2 = Some q"
      using linked_pred(2) [of h s2 "pre @ [(a, p)]" "a + 1 + p" q rest] s2(2) post by simp
    moreover have "p' = p + (q + 1)" "post' = rest" using m post by (simp_all add: merge_next_def)
    ultimately show ?thesis using that [of s'] True s'(1,2) by simp
  next
    case False
    have "merge_next a p post = (a, p) # post"
      using False n(2) by (cases post) (auto simp: merge_next_def)
    then show ?thesis using that [of s2] False s2(2) F2 m by simp
  qed
  show ?thesis
  proof (cases pre rule: rev_cases)
    case Nil
    then show ?thesis
      using n(1) s1 s2(1) pages s3 m by (simp add: heap_insert_def merge_pred_def pred_ptr_def H_PAGES_def)
  next
    case (snoc pre' x)
    obtain q qp where x: "x = (q, qp)" by fastforce
    have ptr: "pred_ptr pre = Block q" and L3: "linked h s3 (pre' @ (q, qp) # (a, p') # post')"
      using snoc x s3(2) by simp_all
    have qpages: "H_PAGES (Block q) s3 = Some qp" by (rule linked_pred(2) [OF L3])
    show ?thesis
    proof (cases "q + 1 + qp = a")
      case False
      then show ?thesis
        using n(1) s1 s2(1) pages s3 m snoc x ptr qpages by (simp add: heap_insert_def merge_pred_def)
    next
      case True
      from absorb [OF L3] obtain s' where s':
          "do { s \<leftarrow> set_pages q (qp + (p' + 1)) s3; next \<leftarrow> H_NEXT h (Block a) s; set_next h (Block q) next s } = Some s'"
          "linked h s' (pre' @ (q, qp + (p' + 1)) # post')" "frame h (set (addrs (pre' @ [(q, qp)]))) s3 s'"
        by blast
      have "frame h ?F s s'" by (rule frame_mono [OF frame_trans [OF s3(3) s'(3)]]) (auto simp: snoc x)
      moreover have "H_PAGES (Block a) s3 = Some p'"
        using linked_pred(2) [of h s3 "pre' @ [(q, qp)]" a p' post'] L3 by simp
      ultimately show ?thesis
        using True n(1) s1 s2(1) pages s3(1) s'(1,2) m snoc x ptr qpages
        by (simp add: heap_insert_def merge_pred_def) blast
    qed
  qed
qed

lemma free_loop_step:
  assumes "linked h s (pre @ L)" and "\<And>b q. (b, q) \<in> set pre \<Longrightarrow> b + 1 + q \<le> a"
  shows "free_loop h a (pred_ptr pre) s =
    (case L of
       [] \<Rightarrow> heap_insert h (pred_ptr pre) a s
     | (b, q) # L' \<Rightarrow> if a < b then heap_insert h (pred_ptr pre) a s else free_loop h a (Block b) s)"
proof -
  have nxt: "H_NEXT h (pred_ptr pre) s = Some (case L of [] \<Rightarrow> None | (b, q) # L' \<Rightarrow> Some b)"
    using linked_next [OF assms(1)] by (cases L) auto
  show ?thesis
  proof (cases pre rule: rev_cases)
    case Nil
    then show ?thesis
      using nxt by (subst free_loop.simps) (auto simp: pred_ptr_def H_PAGES_def outside_block_def split: list.split)
  next
    case (snoc pre' x)
    obtain b q where x: "x = (b, q)" by fastforce
    then have "b + 1 + q \<le> a" using assms(2) snoc by simp
    moreover have "H_PAGES (Block b) s = Some q"
      using linked_pred(2) [of h s pre' b q L] assms(1) snoc x by simp
    ultimately show ?thesis
      using nxt snoc x by (subst free_loop.simps) (auto simp: outside_block_def split: list.split)
  qed
qed

lemma free_loop_links:
  assumes "linked h s (pre @ L)" and "\<And>b q. (b, q) \<in> set pre \<Longrightarrow> b + 1 + q \<le> a"
    and "\<And>b q. (b, q) \<in> set L \<Longrightarrow> a < b \<or> b + 1 + q \<le> a"
  shows "free_loop h a (pred_ptr pre) s = heap_insert h (pred_ptr (pre @ takeWhile (\<lambda>b. fst b < a) L)) a s"
  using assms
proof (induction L arbitrary: pre)
  case Nil
  then show ?case using free_loop_step [OF Nil.prems(1,2)] by simp
next
  case (Cons x L)
  obtain b q where x: "x = (b, q)" by fastforce
  note step = free_loop_step [OF Cons.prems(1,2)]
  show ?case
  proof (cases "a < b")
    case True
    with step x show ?thesis by simp
  next
    case False
    then have "b + 1 + q \<le> a" using Cons.prems(3) x by auto
    then have "free_loop h a (pred_ptr (pre @ [x])) s =
        heap_insert h (pred_ptr ((pre @ [x]) @ takeWhile (\<lambda>b. fst b < a) L)) a s"
      using Cons.prems x by (intro Cons.IH) auto
    with step x False \<open>b + 1 + q \<le> a\<close> show ?thesis by simp
  qed
qed

end
