(* ===== verification/Chheap_Inv.thy ===== *)
theory Chheap_Inv
  imports Chheap_Links
begin

text \<open>
  Correctness of the heap: free and used blocks partition the memory, the free list is always completely
  merged, allocation is first fit and finds a block whenever there is one, and freeing a block right
  after its allocation restores the free list exactly.
\<close>

section \<open>Sets of pages\<close>

definition span :: "addr \<times> nat \<Rightarrow> addr set" where "span b = {fst b ..< fst b + 1 + snd b}"
definition covered :: "(addr \<times> nat) list \<Rightarrow> addr set" where "covered L = (\<Union>b \<in> set L. span b)"

text \<open>Between two free blocks there is at least one page that is not free.\<close>

definition gap :: "addr \<times> nat \<Rightarrow> addr \<times> nat \<Rightarrow> bool" where "gap x y \<longleftrightarrow> fst x + 1 + snd x < fst y"

lemma covered_simps [simp]: "covered [] = {}" "covered (b # L) = span b \<union> covered L" "covered (L @ M) = covered L \<union> covered M"
  by (auto simp: covered_def)

lemma in_span: "x \<in> span (a, p) \<longleftrightarrow> a \<le> x \<and> x < a + 1 + p"
  by (auto simp: span_def)

lemma in_covered: "x \<in> covered L \<longleftrightarrow> (\<exists>(a, p) \<in> set L. a \<le> x \<and> x < a + 1 + p)"
  unfolding covered_def span_def by force

lemma covered_gap: "\<forall>y \<in> set L. gap (a, p) y \<Longrightarrow> x \<in> covered L \<Longrightarrow> a + 1 + p < x"
  by (fastforce simp: in_covered gap_def)

text \<open>A merged free list is determined by the pages in it.\<close>

lemma covered_inj:
  "sorted_wrt gap L \<Longrightarrow> sorted_wrt gap M \<Longrightarrow> covered L = covered M \<Longrightarrow> L = M"
proof (induction L arbitrary: M)
  case Nil
  then show ?case by (cases M) (auto simp: span_def)
next
  case (Cons x L)
  obtain a p where x: "x = (a, p)" by fastforce
  obtain y M' where M: "M = y # M'" using Cons.prems(3) x by (cases M) (auto simp: span_def)
  obtain b q where y: "y = (b, q)" by fastforce
  have gL: "z \<in> covered L \<Longrightarrow> a + 1 + p < z" for z using covered_gap [of L a p] Cons.prems(1) x by auto
  have gM: "z \<in> covered M' \<Longrightarrow> b + 1 + q < z" for z using covered_gap [of M' b q] Cons.prems(2) M y by auto
  have eq: "z \<in> span (a, p) \<or> z \<in> covered L \<longleftrightarrow> z \<in> span (b, q) \<or> z \<in> covered M'" for z
    using Cons.prems(3) x M y by auto
  have "a = b"
    using eq [of a] eq [of b] gL [of b] gM [of a] by (auto simp: in_span)
  moreover have "p = q"
    using eq [of "a + 1 + p"] eq [of "b + 1 + q"] gL [of "a + 1 + p"] gL [of "b + 1 + q"] gM [of "a + 1 + p"]
      gM [of "b + 1 + q"] \<open>a = b\<close> by (auto simp: in_span)
  moreover have "covered L = covered M'"
  proof (rule set_eqI)
    fix z
    show "z \<in> covered L \<longleftrightarrow> z \<in> covered M'"
      using eq [of z] gL [of z] gM [of z] \<open>a = b\<close> \<open>p = q\<close> by (auto simp: in_span)
  qed
  ultimately show ?case using Cons.IH [of M'] Cons.prems(1,2) x M y by auto
qed

lemma remains_set:
  assumes "a \<le> ahp" "ahp + pages \<le> a + p"
  shows "\<forall>(b, q) \<in> set (remains ahp pages (a, p)). a \<le> b \<and> b + q \<le> a + p"
    and "sorted_wrt gap (remains ahp pages (a, p))"
    and "covered (remains ahp pages (a, p)) = span (a, p) - span (ahp, pages)"
  using assms by (auto simp: remains_def gap_def in_span)

lemma covered_before: "\<forall>y \<in> set L. gap y (a, p) \<Longrightarrow> x \<in> covered L \<Longrightarrow> x < a"
  by (fastforce simp: in_covered gap_def)

lemma take_out:
  assumes "sorted_wrt gap (pre @ (a, p) # post)" and "a \<le> ahp" and "ahp + pages \<le> a + p"
  shows "sorted_wrt gap (pre @ remains ahp pages (a, p) @ post)"
    and "covered (pre @ remains ahp pages (a, p) @ post) = covered (pre @ (a, p) # post) - span (ahp, pages)"
proof -
  note R = remains_set [OF assms(2,3)]
  have pre: "\<forall>x \<in> set pre. gap x (a, p)" and post: "\<forall>y \<in> set post. gap (a, p) y"
    and parts: "sorted_wrt gap pre" "sorted_wrt gap post" "\<forall>x \<in> set pre. \<forall>y \<in> set post. gap x y"
    using assms(1) by (auto simp: sorted_wrt_append)
  have "gap x r" if "x \<in> set pre" "r \<in> set (remains ahp pages (a, p))" for x r
    using pre R(1) that by (fastforce simp: gap_def)
  moreover have "gap r y" if "y \<in> set post" "r \<in> set (remains ahp pages (a, p))" for r y
    using post R(1) that by (fastforce simp: gap_def)
  ultimately show "sorted_wrt gap (pre @ remains ahp pages (a, p) @ post)"
    using parts R(2) by (auto simp: sorted_wrt_append)
  have "x \<notin> span (ahp, pages)" if "x \<in> covered pre \<or> x \<in> covered post" for x
    using that covered_before [OF pre, of x] covered_gap [OF post, of x] assms(2,3) by (auto simp: in_span)
  then show "covered (pre @ remains ahp pages (a, p) @ post) = covered (pre @ (a, p) # post) - span (ahp, pages)"
    using R(3) by auto
qed

lemma merge_next_props:
  assumes "sorted_wrt gap post" and "\<forall>(b, q) \<in> set post. a + 1 + p \<le> b"
  shows "sorted_wrt gap (merge_next a p post)" and "covered (merge_next a p post) = span (a, p) \<union> covered post"
    and "\<exists>p' post'. merge_next a p post = (a, p') # post'"
proof -
  show "\<exists>p' post'. merge_next a p post = (a, p') # post'" by (auto simp: merge_next_def split: list.split)
  show "covered (merge_next a p post) = span (a, p) \<union> covered post"
    by (auto simp: merge_next_def in_span split: list.split)
  show "sorted_wrt gap (merge_next a p post)"
  proof (cases post)
    case Nil
    then show ?thesis by (simp add: merge_next_def)
  next
    case (Cons y rest)
    obtain b q where y: "y = (b, q)" by fastforce
    have rest: "\<forall>z \<in> set rest. gap (b, q) z" "sorted_wrt gap rest" "a + 1 + p \<le> b" using assms Cons y by auto
    then show ?thesis using Cons y by (fastforce simp: merge_next_def gap_def)
  qed
qed

lemma put_back:
  assumes "sorted_wrt gap (pre @ post)" and "\<forall>(b, q) \<in> set pre. b + 1 + q \<le> a" and "\<forall>(b, q) \<in> set post. a + 1 + p \<le> b"
  shows "sorted_wrt gap (merge_pred pre (merge_next a p post))"
    and "covered (merge_pred pre (merge_next a p post)) = covered (pre @ post) \<union> span (a, p)"
proof -
  have parts: "sorted_wrt gap pre" "sorted_wrt gap post" using assms(1) by (auto simp: sorted_wrt_append)
  note M = merge_next_props [OF parts(2) assms(3)]
  obtain p' post' where m: "merge_next a p post = (a, p') # post'" using M(3) by blast
  have post': "\<forall>z \<in> set post'. gap (a, p') z" "sorted_wrt gap post'" using M(1) m by auto
  have "sorted_wrt gap (merge_pred pre (merge_next a p post)) \<and>
      covered (merge_pred pre (merge_next a p post)) = covered pre \<union> covered (merge_next a p post)"
  proof (cases pre rule: rev_cases)
    case Nil
    then show ?thesis using M(1) by (simp add: merge_pred_def)
  next
    case (snoc pre' x)
    obtain q qp where x: "x = (q, qp)" by fastforce
    have pre': "\<forall>y \<in> set pre'. gap y (q, qp)" "sorted_wrt gap pre'" "q + 1 + qp \<le> a"
      using parts(1) assms(2) snoc x by (auto simp: sorted_wrt_append)
    have far: "gap y z" if "y \<in> set pre'" "z \<in> set post'" for y z
      using pre' post'(1) that by (fastforce simp: gap_def)
    have near: "gap y (a, p')" if "y \<in> set pre'" for y using pre' that by (fastforce simp: gap_def)
    show ?thesis
    proof (cases "q + 1 + qp = a")
      case True
      have c: "span (q, qp + (p' + 1)) = span (q, qp) \<union> span (a, p')" using True by (auto simp: in_span)
      have "\<forall>z \<in> set post'. gap (q, qp + (p' + 1)) z" "\<forall>y \<in> set pre'. gap y (q, qp + (p' + 1))"
        using post'(1) pre'(1) True by (auto simp: gap_def)
      then show ?thesis
        using True snoc x m pre' post' far c by (auto simp: merge_pred_def sorted_wrt_append)
    next
      case False
      then have g: "gap (q, qp) (a, p')" "\<forall>z \<in> set post'. gap (q, qp) z"
        using pre'(3) post'(1) by (fastforce simp: gap_def)+
      then show ?thesis
        using False snoc x m pre' post' far near by (auto simp: merge_pred_def sorted_wrt_append)
    qed
  qed
  then show "sorted_wrt gap (merge_pred pre (merge_next a p post))"
    and "covered (merge_pred pre (merge_next a p post)) = covered (pre @ post) \<union> span (a, p)"
    using M(2) by auto
qed

section \<open>The invariant\<close>

text \<open>\<open>L\<close> is the free list of heap \<open>h\<close>, \<open>U\<close> the set of its used blocks.\<close>

definition heap_inv :: "heap_id \<Rightarrow> (addr \<times> nat) list \<Rightarrow> (addr \<times> nat) set \<Rightarrow> memory_heap \<Rightarrow> bool" where
  "heap_inv h L U s \<longleftrightarrow> linked h s L \<and> sorted_wrt gap L \<and>
     (\<forall>(a, p) \<in> U. \<exists>n. headers s a = Some (Used h n) \<and> pages_of_size n = p) \<and>
     (\<forall>u \<in> U. span u \<inter> covered L = {}) \<and> (\<forall>u \<in> U. \<forall>v \<in> U. u \<noteq> v \<longrightarrow> span u \<inter> span v = {})"

lemma addrs_covered: "a \<in> set (addrs L) \<Longrightarrow> a \<in> covered L"
  by (fastforce simp: addrs_def covered_def span_def)

lemma write_used_linked: "a \<notin> set (addrs L) \<Longrightarrow> linked h (write_header a c s) L = linked h s L"
  unfolding linked_def next_write by (rule segment_cong) (auto simp: heap_view_def write_header_def)

lemma used_frame:
  assumes "frame h A s s'" and "\<forall>u \<in> U. span u \<inter> A = {}"
    and "\<forall>(a, p) \<in> U. \<exists>n. headers s a = Some (Used h n) \<and> pages_of_size n = p"
  shows "\<forall>(a, p) \<in> U. \<exists>n. headers s' a = Some (Used h n) \<and> pages_of_size n = p"
proof -
  have "a \<notin> A" if "(a, p) \<in> U" for a p
    using assms(2) that by (fastforce simp: in_span)
  then show ?thesis using assms(1,3) unfolding frame_def by fastforce
qed

section \<open>Sizes and alignments\<close>

lemma pages_of_size_enough:
  assumes "0 < n" "unat n + 8 \<le> 2 ^ 32"
  shows "unat n \<le> 8 * pages_of_size n" "8 * pages_of_size n < unat n + 8" "0 < pages_of_size n"
proof -
  have "unat (MEM_ALIGN_NEXT n (2 ^ 3)) = (unat n + 2 ^ 3 - 1) div 2 ^ 3 * 2 ^ 3"
    by (rule align_next) (use assms in simp_all)
  then have p: "pages_of_size n = (unat n + 7) div 8" by (simp add: pages_of_size_def unat_div)
  show "unat n \<le> 8 * pages_of_size n" "8 * pages_of_size n < unat n + 8" unfolding p by linarith+
  then show "0 < pages_of_size n" using assms(1) by (cases "pages_of_size n") (auto simp: word_less_nat_alt)
qed

lemma align_page_props:
  assumes "0 < k"
  shows "k dvd align_page k p" "p \<le> align_page k p" "k dvd x \<Longrightarrow> p \<le> x \<Longrightarrow> align_page k p \<le> x"
proof -
  show "k dvd align_page k p" by (simp add: align_page_def)
  have "p + k - 1 < (p + k - 1) div k * k + k"
    using mod_less_divisor [OF assms, of "p + k - 1"] div_mult_mod_eq [of "p + k - 1" k] by linarith
  then show "p \<le> align_page k p" unfolding align_page_def using assms by linarith
  show "align_page k p \<le> x" if "k dvd x" "p \<le> x"
  proof -
    from that(1) obtain j where x: "x = j * k" by (metis dvd_def mult.commute)
    have "(p + k - 1) div k \<le> (j * k + (k - 1)) div k" using that(2) x assms by (intro div_le_mono) simp
    also have "\<dots> = j" using assms by (simp only: div_mult_self3) simp
    finally show ?thesis unfolding align_page_def x by simp
  qed
qed

lemma alignment_pages:
  assumes "MEM_IS_VALID_ALIGNMENT align"
  defines "k \<equiv> unat (if align < 8 then 8 else align) div 8"
  shows "0 < k" and "k dvd x \<Longrightarrow> unat align dvd 8 * x"
proof -
  obtain m where m: "m < 32" "align = 2 ^ m" using valid_alignment_power [OF assms(1)] by blast
  then have al: "unat align = 2 ^ m" by (simp add: unat_two_power)
  have small: "align < 8 \<longleftrightarrow> m < 3"
  proof -
    have "align < 8 \<longleftrightarrow> (2 :: nat) ^ m < 2 ^ 3" using al by (simp add: word_less_nat_alt)
    moreover have "(2 :: nat) ^ m < 2 ^ 3 \<longleftrightarrow> m < 3" by (rule power_strict_increasing_iff) simp
    ultimately show ?thesis by blast
  qed
  have "k = 2 ^ (m - 3)"
  proof (cases "m < 3")
    case True
    then show ?thesis by (simp add: k_def small)
  next
    case False
    then have "m = (m - 3) + 3" by simp
    then have "(2 :: nat) ^ m = 2 ^ (m - 3) * 2 ^ 3" by (metis power_add)
    with False show ?thesis by (simp add: k_def small al)
  qed
  then show "0 < k" by simp
  show "unat align dvd 8 * x" if "k dvd x"
  proof -
    have "(2 :: nat) ^ m dvd 8 * 2 ^ (m - 3)"
      using le_imp_power_dvd [of m "3 + (m - 3)" "2 :: nat"] by (simp add: power_add)
    also have "\<dots> dvd 8 * x" using that \<open>k = 2 ^ (m - 3)\<close> by (intro mult_dvd_mono) simp_all
    finally show ?thesis by (simp add: al)
  qed
qed

section \<open>Allocation\<close>

lemma first_fit_split:
  assumes "dropWhile (\<lambda>b. \<not> fits k pages b) L = (a, p) # post"
  shows "L = takeWhile (\<lambda>b. \<not> fits k pages b) L @ (a, p) # post" and "fits k pages (a, p)"
  using assms takeWhile_dropWhile_id [of "\<lambda>b. \<not> fits k pages b" L] hd_dropWhile [of "\<lambda>b. \<not> fits k pages b" L]
  by (auto simp del: takeWhile_dropWhile_id)

text \<open>The search and the split, on the free list.\<close>

lemma pred_ptr_Nil [simp]: "pred_ptr [] = Descriptor"
  by (simp add: pred_ptr_def)

lemma alloc_loop_correct:
  assumes inv: "heap_inv h L U s" and k: "0 < k" and pages: "0 < pages"
  shows "\<exists>r s'. alloc_loop h pages k Descriptor s = Some (r, s') \<and>
    (case r of
       None \<Rightarrow> s' = s \<and> (\<forall>(a, p) \<in> set L. \<forall>x. k dvd x \<and> a + 1 \<le> x \<longrightarrow> a + 1 + p < x + pages)
     | Some hp \<Rightarrow> \<exists>L'. k dvd hp + 1 \<and> linked h s' L' \<and> sorted_wrt gap L' \<and> span (hp, pages) \<subseteq> covered L \<and>
         covered L' = covered L - span (hp, pages) \<and> frame h (covered L) s s')"
proof -
  have L: "linked h s ([] @ L)" "sorted_wrt gap L" using inv by (simp_all add: heap_inv_def)
  note loop = alloc_loop_links [OF L(1), of k pages, simplified]
  show ?thesis
  proof (cases "dropWhile (\<lambda>b. \<not> fits k pages b) L")
    case Nil
    have "a + 1 + p < x + pages" if b: "(a, p) \<in> set L" "k dvd x" "a + 1 \<le> x" for a p x
    proof (rule ccontr)
      assume "\<not> a + 1 + p < x + pages"
      then have "fits k pages (a, p)"
        using align_page_props(2) [OF k, of "a + 1"] align_page_props(3) [OF k b(2,3)] pages
        by (auto simp: fits_def Let_def)
      with Nil b(1) show False by (metis dropWhile_eq_Nil_conv)
    qed
    with loop Nil show ?thesis by auto
  next
    case (Cons b post)
    obtain a p where b: "b = (a, p)" by fastforce
    define pre where "pre = takeWhile (\<lambda>b. \<not> fits k pages b) L"
    have split: "L = pre @ (a, p) # post" "fits k pages (a, p)"
      using first_fit_split [OF Cons [unfolded b]] by (simp_all add: pre_def)
    define ahp where "ahp = align_page k (a + 1) - 1"
    have ahp: "a \<le> ahp" "ahp < a + 1 + p" "pages \<le> a + 1 + p - (ahp + 1)" "k dvd ahp + 1"
      using split(2) align_page_props(1,2) [OF k, of "a + 1"] by (auto simp: fits_def Let_def ahp_def)
    have S: "sorted_wrt gap (pre @ (a, p) # post)" "ahp + pages \<le> a + p" using L(2) split(1) ahp by simp_all
    note T = take_out [OF S(1) ahp(1) S(2)]
    have "x \<notin> set (addrs (pre @ post))" if "a < x" "x < a + 1 + p" for x
    proof
      assume "x \<in> set (addrs (pre @ post))"
      then have "x \<in> covered pre \<or> x \<in> covered post" using addrs_covered by fastforce
      then show False
        using S(1) that covered_before [of pre a p x] covered_gap [of post a p x] by (auto simp: sorted_wrt_append)
    qed
    from heap_take_links [OF _ ahp(1-3) this, of h s] L(1) split(1) obtain s' where s':
        "heap_take h (pred_ptr pre) a ahp pages p s = Some (ahp, s')" "linked h s' (pre @ remains ahp pages (a, p) @ post)"
        "frame h (set (addrs (pre @ [(a, p)])) \<union> {x. a < x \<and> x < a + 1 + p}) s s'"
      by auto
    have "set (addrs (pre @ [(a, p)])) \<union> {x. a < x \<and> x < a + 1 + p} \<subseteq> covered L"
      using addrs_covered [of _ pre] split(1) by (auto simp: in_span)
    from frame_mono [OF s'(3) this] have F: "frame h (covered L) s s'" .
    have "span (ahp, pages) \<subseteq> covered L" using split(1) ahp(1) S(2) by (auto simp: in_span)
    moreover have "alloc_loop h pages k Descriptor s = Some (Some ahp, s')"
      using loop Cons b s'(1) by (simp add: pre_def ahp_def)
    ultimately show ?thesis using T F s'(2) ahp(4) split(1) by (auto intro!: exI [of _ "pre @ remains ahp pages (a, p) @ post"])
  qed
qed

lemma heap_alloc_outcome:
  assumes "heap_inv h L U s" and "0 < n" and "unat n + 8 \<le> 2 ^ 32" and "MEM_IS_VALID_ALIGNMENT align"
    and "\<not> provider s h"
  shows "\<exists>r s'. chHeapAllocAligned h n align s = Some (r, s') \<and>
    (let pages = pages_of_size n; k = unat (if align < 8 then 8 else align) div 8
     in case r of
          None \<Rightarrow> s' = s \<and> (\<forall>(a, p) \<in> set L. \<forall>x. k dvd x \<and> a + 1 \<le> x \<longrightarrow> a + 1 + p < x + pages)
        | Some x \<Rightarrow> 0 < x \<and> unat align dvd 8 * x \<and> unat n \<le> 8 * pages \<and> (x - 1, pages) \<notin> U \<and>
            (\<exists>L'. heap_inv h L' (insert (x - 1, pages) U) s' \<and> span (x - 1, pages) \<subseteq> covered L \<and>
              covered L' = covered L - span (x - 1, pages)))"
proof -
  define pages where "pages = pages_of_size n"
  define k where "k = unat (if align < 8 then 8 else align) div 8"
  note sz = pages_of_size_enough [OF assms(2,3), folded pages_def]
  note al = alignment_pages [OF assms(4), folded k_def]
  obtain r s1 where r: "alloc_loop h pages k Descriptor s = Some (r, s1)"
      "case r of None \<Rightarrow> s1 = s \<and> (\<forall>(a, p) \<in> set L. \<forall>x. k dvd x \<and> a + 1 \<le> x \<longrightarrow> a + 1 + p < x + pages)
       | Some hp \<Rightarrow> \<exists>L'. k dvd hp + 1 \<and> linked h s1 L' \<and> sorted_wrt gap L' \<and> span (hp, pages) \<subseteq> covered L \<and>
           covered L' = covered L - span (hp, pages) \<and> frame h (covered L) s s1"
    using alloc_loop_correct [OF assms(1) al(1) sz(3)] by blast
  have used: "\<forall>(a, p) \<in> U. \<exists>n. headers s a = Some (Used h n) \<and> pages_of_size n = p"
    "\<forall>u \<in> U. span u \<inter> covered L = {}" "\<forall>u \<in> U. \<forall>v \<in> U. u \<noteq> v \<longrightarrow> span u \<inter> span v = {}"
    using assms(1) by (simp_all add: heap_inv_def)
  show ?thesis
  proof (cases r)
    case None
    with r assms(2,4,5) show ?thesis
      by (simp add: chHeapAllocAligned_def Let_def pages_def k_def)
  next
    case (Some hp)
    with r(2) obtain L' where L': "k dvd hp + 1" "linked h s1 L'" "sorted_wrt gap L'" "span (hp, pages) \<subseteq> covered L"
        "covered L' = covered L - span (hp, pages)" "frame h (covered L) s s1" by auto
    let ?s2 = "write_header hp (Used h n) s1"
    have hp: "hp \<in> span (hp, pages)" by (simp add: in_span)
    then have "hp \<notin> set (addrs L')" using addrs_covered L'(5) by blast
    then have "linked h ?s2 L'" using L'(2) by (simp add: write_used_linked)
    moreover have "\<forall>(a, p) \<in> U. \<exists>n. headers ?s2 a = Some (Used h n) \<and> pages_of_size n = p"
    proof (rule used_frame [OF frame_trans [OF L'(6) frame_write] _ used(1)])
      show "\<forall>u \<in> U. span u \<inter> (covered L \<union> {hp}) = {}" using used(2) hp L'(4) by blast
    qed
    moreover have "headers ?s2 hp = Some (Used h n)" by (simp add: write_header_def)
    moreover have "span (hp, pages) \<inter> covered L' = {}" "\<forall>u \<in> U. span u \<inter> covered L' = {}"
      using L'(5) used(2) by auto
    moreover have "\<forall>u \<in> U. span u \<inter> span (hp, pages) = {}" using used(2) L'(4) by blast
    ultimately have "heap_inv h L' (insert (hp, pages) U) ?s2"
      using L'(3) used(3) unfolding heap_inv_def pages_def by (auto simp: Int_commute)
    moreover have "(hp, pages) \<notin> U" using used(2) hp L'(4) by blast
    ultimately show ?thesis
      using r(1) Some assms(2,4) al(2) [OF L'(1)] sz(1) L'(4,5)
      by (auto simp: chHeapAllocAligned_def Let_def pages_def k_def)
  qed
qed

text \<open>
  C29. Allocation from a heap without a provider, for a size that does not wrap around: it is memory safe
  and returns. A block that it returns is aligned, large enough, was free and is now a used block of its
  own; the other used blocks keep their headers, the rest of the pages stays free, and the free list
  stays sorted and merged. \<open>NULL\<close> means that no free block has room for the aligned block anywhere.
\<close>

theorem heap_alloc_correct:
  assumes "heap_inv h L U s" and "0 < n" and "unat n + 8 \<le> 2 ^ 32" and "MEM_IS_VALID_ALIGNMENT align"
    and "\<not> provider s h"
  shows "\<exists>r s'. chHeapAllocAligned h n align s = Some (r, s') \<and>
    (let pages = pages_of_size n; k = unat (if align < 8 then 8 else align) div 8
     in case r of
          None \<Rightarrow> s' = s \<and> (\<forall>(a, p) \<in> set L. \<forall>x. k dvd x \<and> a + 1 \<le> x \<longrightarrow> a + 1 + p < x + pages)
        | Some x \<Rightarrow> 0 < x \<and> unat align dvd 8 * x \<and> unat n \<le> 8 * pages \<and> (x - 1, pages) \<notin> U \<and>
            (\<exists>L'. heap_inv h L' (insert (x - 1, pages) U) s' \<and> span (x - 1, pages) \<subseteq> covered L \<and>
              covered L' = covered L - span (x - 1, pages)))"
  using heap_alloc_outcome [OF assms] .

section \<open>Deallocation\<close>

lemma free_outcome:
  assumes "heap_inv h L U s" and "(a, p) \<in> U"
  shows "\<exists>s' L'. chHeapFree (a + 1) s = Some s' \<and> heap_inv h L' (U - {(a, p)}) s' \<and>
    covered L' = covered L \<union> span (a, p)"
proof -
  have L: "linked h s L" "sorted_wrt gap L" and used: "\<forall>(a, p) \<in> U. \<exists>n. headers s a = Some (Used h n) \<and> pages_of_size n = p"
    and disj: "\<forall>u \<in> U. span u \<inter> covered L = {}" "\<forall>u \<in> U. \<forall>v \<in> U. u \<noteq> v \<longrightarrow> span u \<inter> span v = {}"
    using assms(1) by (simp_all add: heap_inv_def)
  obtain n where n: "headers s a = Some (Used h n)" "pages_of_size n = p" using used assms(2) by fast
  define s1 where "s1 = write_header a (Free None p) s"
  have "a \<in> span (a, p)" by (simp add: in_span)
  then have a: "a \<notin> covered L" using disj(1) assms(2) by blast
  then have a': "a \<notin> set (addrs L)" using addrs_covered by blast
  have L1: "linked h s1 ([] @ L)" using L(1) a' by (simp add: s1_def write_used_linked)
  have sides: "b + 1 + q \<le> a \<or> a + 1 + p \<le> b" if "(b, q) \<in> set L" for b q
  proof (rule ccontr)
    assume "\<not> ?thesis"
    then have "max a b \<in> span (a, p)" "max a b \<in> span (b, q)" by (auto simp: in_span)
    moreover have "span (b, q) \<subseteq> covered L" using that by (auto simp: covered_def)
    ultimately show False using disj(1) assms(2) by blast
  qed
  define pre post where "pre = takeWhile (\<lambda>b. fst b < a) L" and "post = dropWhile (\<lambda>b. fst b < a) L"
  have split: "L = pre @ post" by (simp add: pre_def post_def)
  have pre: "b + 1 + q \<le> a" if "(b, q) \<in> set pre" for b q
    using that sides [of b q] set_takeWhileD [of "(b, q)" "\<lambda>b. fst b < a" L] by (auto simp: pre_def)
  have post: "a + 1 + p \<le> b" if bq: "(b, q) \<in> set post" for b q
  proof -
    obtain x rest where x: "post = x # rest" using bq by (cases post) auto
    have "\<not> fst x < a" using x hd_dropWhile [of "\<lambda>b. fst b < a" L] by (auto simp: post_def)
    moreover have "sorted_wrt gap (x # rest)" using L(2) split x by (simp add: sorted_wrt_append)
    ultimately have "\<not> b < a" using bq x by (auto simp: gap_def)
    with sides [of b q] bq split show ?thesis by auto
  qed
  have "free_loop h a Descriptor s1 = heap_insert h (pred_ptr pre) a s1"
    using free_loop_links [OF L1, of a] sides by (fastforce simp: pre_def pred_ptr_def)
  moreover obtain s2 where s2: "heap_insert h (pred_ptr pre) a s1 = Some s2"
      "linked h s2 (merge_pred pre (merge_next a p post))" "frame h (set (addrs (pre @ (a, p) # post))) s1 s2"
  proof -
    have "heap_view s1 a = Some (None, p)" by (simp add: s1_def)
    moreover have "linked h s1 (pre @ post)" "a \<notin> set (addrs (pre @ post))" using L1 a' split by simp_all
    moreover have "a < b" if "(b, q) \<in> set post" for b q using post [OF that] by simp
    moreover have "b < a" if "(b, q) \<in> set pre" for b q using pre [OF that] by simp
    ultimately show ?thesis using heap_insert_links [of h s1 pre post a None p] that by blast
  qed
  ultimately have run: "chHeapFree (a + 1) s = Some s2"
    using n by (simp add: chHeapFree_def s1_def)
  have "sorted_wrt gap (merge_pred pre (merge_next a p post))"
      and cov: "covered (merge_pred pre (merge_next a p post)) = covered L \<union> span (a, p)"
  proof -
    have "\<forall>(b, q) \<in> set pre. b + 1 + q \<le> a" "\<forall>(b, q) \<in> set post. a + 1 + p \<le> b" using pre post by blast+
    from put_back [OF _ this] L(2) split show "sorted_wrt gap (merge_pred pre (merge_next a p post))"
      and "covered (merge_pred pre (merge_next a p post)) = covered L \<union> span (a, p)" by auto
  qed
  moreover have "\<forall>(b, q) \<in> U - {(a, p)}. \<exists>n. headers s2 b = Some (Used h n) \<and> pages_of_size n = q"
  proof (rule used_frame [OF frame_trans [OF frame_write s2(3) [unfolded s1_def]]])
    have "set (addrs (pre @ (a, p) # post)) \<subseteq> covered L \<union> span (a, p)"
      using addrs_covered [of _ L] split by (auto simp: in_span)
    moreover have "span u \<inter> span (a, p) = {}" if "u \<in> U - {(a, p)}" for u
      using disj(2) assms(2) that by blast
    moreover have "a \<in> span (a, p)" by (simp add: in_span)
    ultimately show "\<forall>u \<in> U - {(a, p)}. span u \<inter> ({a} \<union> set (addrs (pre @ (a, p) # post))) = {}"
      using disj(1) by blast
  qed (use used in fast)
  moreover have "\<forall>u \<in> U - {(a, p)}. span u \<inter> (covered L \<union> span (a, p)) = {}"
    using disj assms(2) by blast
  moreover have "\<forall>u \<in> U - {(a, p)}. \<forall>v \<in> U - {(a, p)}. u \<noteq> v \<longrightarrow> span u \<inter> span v = {}" using disj(2) by blast
  ultimately have "heap_inv h (merge_pred pre (merge_next a p post)) (U - {(a, p)}) s2"
    using s2(2) unfolding heap_inv_def cov by blast
  with run cov show ?thesis by blast
qed

text \<open>
  C30. Freeing a used block: no assertion fails, the block's pages become free, and the free list is again
  sorted and completely merged; the other used blocks stay as they are.
\<close>

theorem heap_free_correct:
  assumes "heap_inv h L U s" and "(a, p) \<in> U"
  shows "\<exists>s' L'. chHeapFree (a + 1) s = Some s' \<and> heap_inv h L' (U - {(a, p)}) s' \<and>
    covered L' = covered L \<union> span (a, p)"
  using free_outcome [OF assms] .

text \<open>
  C31. Freeing a block right after its allocation restores the heap: the same free list, block by block,
  and the same used blocks.
\<close>

theorem heap_alloc_free_roundtrip:
  assumes "heap_inv h L U s" and "0 < n" and "unat n + 8 \<le> 2 ^ 32" and "MEM_IS_VALID_ALIGNMENT align"
    and "\<not> provider s h" and "chHeapAllocAligned h n align s = Some (Some x, s1)"
  shows "\<exists>s2. chHeapFree x s1 = Some s2 \<and> heap_inv h L U s2"
proof -
  note A = assms
  from \<open>chHeapAllocAligned h n align s = Some (Some x, s1)\<close> obtain L' where L':
      "0 < x" "(x - 1, pages_of_size n) \<notin> U" "heap_inv h L' (insert (x - 1, pages_of_size n) U) s1"
      "span (x - 1, pages_of_size n) \<subseteq> covered L" "covered L' = covered L - span (x - 1, pages_of_size n)"
    using heap_alloc_outcome [OF A(1-5)] by (auto simp: Let_def)
  from free_outcome [OF L'(3), of "x - 1" "pages_of_size n"] L'(1) obtain s2 L2 where s2: "chHeapFree x s1 = Some s2"
      "heap_inv h L2 (insert (x - 1, pages_of_size n) U - {(x - 1, pages_of_size n)}) s2"
      "covered L2 = covered L' \<union> span (x - 1, pages_of_size n)" by auto
  have "insert (x - 1, pages_of_size n) U - {(x - 1, pages_of_size n)} = U" using L'(2) by auto
  moreover have "L2 = L"
    using s2(2,3) L'(4,5) A(1) by (intro covered_inj) (auto simp: heap_inv_def)
  ultimately show ?thesis using s2 by auto
qed

section \<open>A small heap\<close>

text \<open>One free block of seven pages in a buffer of 64 bytes.\<close>

definition demo_heap :: memory_heap where
  "demo_heap = \<lparr>heap_next = (\<lambda>h. if h = 1 then Some 512 else None), provider = (\<lambda>h. False),
     headers = [512 \<mapsto> Free None 7], ch_memcore = core_init 0 0\<rparr>"

lemma demo_heap_init:
  "chHeapObjectInit 1 0x1000 64 \<lparr>heap_next = (\<lambda>h. None), provider = (\<lambda>h. False), headers = Map.empty, ch_memcore = core_init 0 0\<rparr>
     = Some demo_heap"
  by (auto simp: chHeapObjectInit_def demo_heap_def write_header_def MEM_ALIGN_NEXT_def MEM_ALIGN_PREV_def MEM_ALIGN_MASK_def)

lemma demo_heap_inv: "heap_inv 1 [(512, 7)] {} demo_heap"
  by (simp add: heap_inv_def linked_def demo_heap_def heap_view_def)

lemma demo_heap_provider [simp]: "provider demo_heap h = False" and valid_8: "MEM_IS_VALID_ALIGNMENT 8"
  by (simp_all add: demo_heap_def MEM_IS_VALID_ALIGNMENT_def)

lemma align_page_eq: "align_page k p = (p + k - 1) div k * k" by (rule align_page_def)

lemma demo_alloc: "\<exists>s'. chHeapAllocAligned 1 20 8 demo_heap = Some (Some 513, s') \<and> headers s' 512 = Some (Used 1 20)"
  unfolding chHeapAllocAligned_def
  by (subst alloc_loop.simps)
     (simp add: demo_heap_def valid_8 pages_of_size_def MEM_ALIGN_NEXT_def MEM_ALIGN_PREV_def MEM_ALIGN_MASK_def H_NEXT_def
       H_PAGES_def align_page_def heap_take_def set_next_def write_header_def)

theorem heap_alloc_correct_witness:
  "\<exists>s' L'. chHeapAllocAligned 1 20 8 demo_heap = Some (Some 513, s') \<and> heap_inv 1 L' {(512, pages_of_size 20)} s'"
proof -
  obtain s' where s': "chHeapAllocAligned 1 20 8 demo_heap = Some (Some 513, s')" using demo_alloc by blast
  with heap_alloc_correct [OF demo_heap_inv, of 20 8] valid_8 show ?thesis by (auto simp: Let_def)
qed

theorem heap_alloc_free_roundtrip_witness:
  "\<exists>s1 s2. chHeapAllocAligned 1 20 8 demo_heap = Some (Some 513, s1) \<and> chHeapFree 513 s1 = Some s2 \<and>
     heap_inv 1 [(512, 7)] {} s2"
  using demo_alloc heap_alloc_free_roundtrip [OF demo_heap_inv _ _ valid_8 demo_heap_provider [THEN eq_False [THEN iffD1]], of 20]
  by auto

theorem heap_free_correct_witness:
  "\<exists>s1 s2 L'. chHeapAllocAligned 1 20 8 demo_heap = Some (Some 513, s1) \<and> chHeapFree (512 + 1) s1 = Some s2 \<and>
     heap_inv 1 L' {} s2"
proof -
  obtain s1 where s1: "chHeapAllocAligned 1 20 8 demo_heap = Some (Some 513, s1)" using demo_alloc by blast
  with heap_alloc_outcome [OF demo_heap_inv, of 20 8] valid_8 obtain L1 where
      "heap_inv 1 L1 {(512, pages_of_size 20)} s1" by (auto simp: Let_def)
  from heap_free_correct [OF this, of 512 "pages_of_size 20"] s1 show ?thesis by auto
qed


section \<open>Status\<close>

lemma status_loop_links:
  "linked h s (pre @ L) \<Longrightarrow>
     status_loop h (pred_ptr pre) n t m s = Some (n + length L, t + sum_list (map snd L), foldl max m (map snd L))"
proof (induction L arbitrary: pre n t m)
  case Nil
  then show ?case using linked_last [of h s pre] by (subst status_loop.simps) simp
next
  case (Cons b L)
  obtain a p where b: "b = (a, p)" by fastforce
  note ptr = linked_pred(1,2) [OF Cons.prems [unfolded b]]
  have "status_loop h (pred_ptr pre) n t m s = status_loop h (pred_ptr (pre @ [b])) (n + 1) (t + p) (max m p) s"
    using ptr b by (subst status_loop.simps) (simp add: max_def)
  also have "\<dots> = Some (n + 1 + length L, t + p + sum_list (map snd L), foldl max (max m p) (map snd L))"
    using Cons.prems by (intro Cons.IH) simp
  finally show ?case using b by simp
qed

text \<open>\<open>chHeapStatus\<close> counts the free blocks, all their pages, and those of the largest.\<close>

lemma heap_status_correct:
  "heap_inv h L U s \<Longrightarrow>
     chHeapStatus h s = Some (length L, 8 * sum_list (map snd L), 8 * foldl max 0 (map snd L))"
  using status_loop_links [of h s "[]" L 0 0 0] by (simp add: heap_inv_def chHeapStatus_def mult.commute)

end
