(* ===== verification/Spec2Isabelle.thy ===== *)
theory Spec2Isabelle
  imports Canard_Reception App_Storage Loader_Tasks_Inv Bxcan_Init Bxcan_Timings Bxcan_Frames Hal_Serial_Inv Chheap_Inv
begin

text \<open>
  Verification of the firmware of a UAVCAN adapter. Paths are relative to \<open>src/bootloader/\<close>; \<open>ChibiOS/\<close>
  is \<open>modules/ChibiOS/\<close> and \<open>libcanard/\<close> is \<open>modules/libcanard/\<close>.

  \<^bold>\<open>The program.\<close> A bootloader for an STM32F1 looks for a valid application image in the flash, starts it
  or waits for an upgrade, and is itself a UAVCAN node that can be told to download a new image. The
  node runs in a thread of ChibiOS (\<open>src/l_uavcan.hpp\<close>). It speaks UAVCAN through libcanard
  (\<open>libcanard/canard.c\<close>), which splits transfers into CAN frames and puts them together again, in blocks
  of a fixed pool of memory; frames go to and come from the CAN macrocell through a driver (libcanard
  has one for the bxCAN). A downloaded image is written to the flash by the storage backend
  (\<open>src/app_storage_backend.hpp\<close>) under the control of the state machine of the bootloader
  (\<open>src/bootloader.hpp\<close>). Log messages go through \<open>chprintf\<close> to the serial driver, whose output queue is
  emptied by an interrupt handler.

  \<^bold>\<open>Conventions\<close> (\<^theory_text>\<open>Canard_Prelude\<close>, \<^theory_text>\<open>Canard_Types\<close>). Machine integers are words of their C width and
  wrap around where the C integers do. A structure is a record, an enumeration a datatype, a pointer to
  a pool block \<open>None\<close> or the index of the block. A computation that can go wrong yields an option, and
  \<open>None\<close> stands for everything a correct run must avoid: undefined behaviour, a failed assertion, no
  return. \<open>returns c Q\<close> says that \<open>c\<close> is \<open>Some\<close> result with \<open>Q\<close>, so that it is total correctness with
  memory safety; theorems about operations are stated with it, or as equations with \<open>Some\<close>.

  \<^bold>\<open>Which theory models what\<close>

  \<^item> Pool, instance: \<open>Canard_Pool\<close> has the free list threaded through the arena (\<open>allocateBlock\<close>,
    \<open>freeBlock\<close>, \<open>initPoolAllocator\<close>) and the set-up of an instance, and the interface \<open>block_pool\<close>
    that everything else uses the pool through. \<open>Canard_Layout\<close> has the invariant of the library: a
    \<open>layout\<close> says where every block of the arena is (free, in the transmission queue, in a receive state,
    held by a transfer that is being delivered), and \<open>canard_inv\<close> that the pointers of the instance lead
    to just these lists and no block is lost or in two places.
  \<^item> Checksums: \<open>Crc_Register\<close> is the theory of shift registers (the locale \<open>msb_crc\<close>: linearity,
    equivalence of the byte-wise and the bit-serial form, detection of bursts, the zero residue);
    \<open>Canard_Crc\<close> (CRC-16 of transfers) and \<open>Image_Crc\<close> (CRC-64 of images, \<open>src/util.hpp\<close>) are its
    interpretations.
  \<^item> Identifiers: \<open>Canard_Id\<close> has the fields of CAN identifiers and tail bytes and \<open>isPriorityHigher\<close>,
    which is arbitration on the bus.
  \<^item> Transmission: \<open>Canard_Tx\<close> has the operations and what they do to a layout, \<open>Canard_Publish\<close> the calls of
    the application. The abstract specification is a list of frames, stably sorted by identifier;
    broadcasting inserts the frames of the transfer into it, and polling sends its head.
  \<^item> Reception: \<open>Canard_Rx\<close> has all operations; \<open>Canard_RxStore\<close> what storing, completing and releasing
    do to one receive state (\<open>entry_inv\<close>); \<open>Canard_RxHandle\<close> the whole frame handler on an instance
    (\<open>rx_inv\<close>); \<open>Canard_Cleanup\<close> the removal of stale states. \<open>rx_trap\<close> names the three situations in which
    the handler does run into an assertion or loses count; outside them it is safe for every
    application that keeps the contract \<open>rx_application\<close>.
  \<^item> Payloads: \<open>Canard_Descatter\<close> has \<open>copyBitArray\<close> and \<open>descatterTransferPayload\<close>, \<open>Canard_Scalar\<close> the
    codec of scalars with the byte order of the machine as an argument, \<open>Canard_Reception\<close> the round trip.
  \<^item> bxCAN driver (\<open>libcanard/drivers/stm32/\<close>): \<open>Bxcan\<close> has the driver over a macrocell that is a register
    file and functions for its reactions; \<open>Bxcan_Init\<close>, \<open>Bxcan_Timings\<close> and \<open>Bxcan_Frames\<close> have the
    properties of initialization, bit timing, and mailboxes, FIFOs and filters.
  \<^item> Bootloader: \<open>Bootloader\<close> has the search for an image, the state machine and the upgrade (\<open>bootloader.hpp\<close>).
    Each member function holds the mutex and is one step of \<open>bl_step\<close>, so a run interleaves the steps
    of all threads; \<open>bl_reachable\<close> and \<open>bl_inv\<close> are about all runs. \<open>App_Storage\<close> has the backend in the
    flash (\<open>app_storage_backend.hpp\<close>, \<open>flash_writer.hpp\<close>), which interprets \<open>storage_backend\<close>.
  \<^item> Loader node (\<open>l_uavcan.hpp\<close>): \<open>Timekeeper\<close> is its clock; \<open>Loader\<close> the messages, the callbacks it gives to
    libcanard and one turn of its loop; \<open>Loader_Inv\<close> shows that it keeps \<open>rx_application\<close> with the invariant
    \<open>node_inv\<close>; \<open>Loader_Tasks\<close> and \<open>Loader_Tasks_Inv\<close> are the thread: detection of the bit rate, allocation
    of a node identifier, download, and the main function that calls the state machine.
  \<^item> Byte queues (\<open>ChibiOS/os/hal/src/hal_queues.c\<close>): \<open>Hal_Queues\<close> has the operations, \<open>Hal_Fifo\<close> the contract of a
    bounded FIFO as a locale (\<open>byte_fifo\<close>, extended by \<open>os_queue\<close>) with both kinds of queue as
    interpretations, \<open>Hal_Transfers\<close> the blocking calls.
  \<^item> Memory (\<open>ChibiOS/os/common/oslib/src/\<close>): \<open>Memcore\<close> is the core allocator; \<open>Chheap\<close>, \<open>Chheap_Links\<close> and
    \<open>Chheap_Inv\<close> are the heap, its linked free list as a list of blocks, and \<open>heap_inv\<close>.
  \<^item> Formatted output (\<open>ChibiOS/os/hal/lib/streams/\<close>): \<open>Chprintf\<close> has \<open>chvprintf\<close> over any stream and the memory streams;
    \<open>Chprintf_Inv\<close> the contract \<open>byte_stream\<close>, extended by \<open>truncating_stream\<close>, and what \<open>chsnprintf\<close> leaves.
  \<^item> Serial driver (\<open>hal_serial.c\<close>, \<open>USARTv1/hal_serial_lld.c\<close>): \<open>Hal_Serial\<close> has the driver and its interrupt
    handler, \<open>Hal_Serial_Inv\<close> the invariant \<open>serial_inv\<close> and the way of a log line from \<open>chprintf\<close> to the data
    register; the port interprets \<open>byte_stream\<close>.

  \<^bold>\<open>What the lemmas show.\<close> For libcanard: every call is memory safe, returns, preserves the invariant with
  every block accounted for, and does what its list-level description says, on every branch; the
  functions on bits agree with bitwise reference definitions and are inverse to each other where the
  program relies on it. For the bootloader: whatever the threads do, it boots only a valid
  application, and an upgrade always ends. For the loader: no frame of up to eight bytes breaks it outside the
  traps; the thread finds the rate of a living bus and writes what it has asked for. For ChibiOS: queues are
  FIFOs and lose no wakeup, heaps stay partitioned and merged, printed numbers read back, bytes that
  are logged leave in order. Some theorems state what goes wrong and exactly when: a chunk that is lost
  in a partly blank page, timing arguments that fail assertions, long gaps that the clock loses,
  oversized heap requests, a trailing percent sign, a length code above eight.

  \<^bold>\<open>Bounds and fuel.\<close> Loops over pointers and loops that wait are \<open>partial_function (option)\<close>; that they end is
  proved along the lists of the layout or from what the environment does. Other loops are structural or
  have a measure. Counters that bound a loop are those of the code: 1000 milliseconds for each of the
  two acknowledgements of the macrocell, 10 frames in each direction per turn of the loader, the size of
  the conversion buffer of \<open>chprintf\<close> for the digits of a number (\<open>digit_loop\<close> is at \<open>None\<close> when a digit
  would fall in front of the buffer; eleven digits are enough for 32 bits in every radix the formats
  can select). A list bounds what the environment supplies: \<open>sleeps\<close>, the events during each sleep of a thread,
  and \<open>line\<close>, the successive readings of the status register within one interrupt. When such a list is used up
  the run does not go on: a thread goes on sleeping, or the handler has no further reading and is at \<open>None\<close>.
  The theorems quantify over all such lists and say when they are long enough.

  \<^bold>\<open>Interfaces.\<close> \<open>block_pool\<close> (pool of libcanard), \<open>msb_crc\<close> (both checksums), \<open>app_storage\<close> and \<open>storage_backend\<close>
  (flash backend), \<open>rx_application\<close> (loader node), \<open>byte_fifo\<close> and \<open>os_queue\<close> (input and output queues),
  \<open>byte_stream\<close> (memory streams, serial port) and \<open>truncating_stream\<close> (memory streams). Each is
  interpreted on the definitions of the code.

  \<^bold>\<open>Not modelled\<close>

  \<^item> The start-up of the bootloader (\<open>src/main.cpp\<close>, \<open>board.cpp\<close>, \<open>sys.cpp\<close>, the watchdog): access to hardware
    and construction of objects.
  \<^item> The application that is started (\<open>src/src/\<close> of the repository): it is built on libuavcan, a submodule that
    is not part of the repository.
  \<^item> The CAN driver of the bootloader behind \<open>ICANIface\<close>, which is an abstract class: it is an argument
    of the loader, as are the flash controller, the CAN macrocell and the serial line of the other drivers.
  \<^item> The drivers of libcanard for other systems and its tests; the kernel of ChibiOS (what the models use of
    it is in them: threads that wait in a queue, and locks that make operations atomic), its other drivers
    and ports, and the register headers of the vendor, nearly all of the lines of the repository.
  \<^item> Of the serial driver: clock gates, the interrupt controller and ports other than \<open>SD1\<close>.
  \<^item> Interference within a step: other threads act between steps, in sleeps and at points of preemption, but
    not within a callback of libcanard, and the registers of the USART do not change while a thread of the
    serial driver sleeps, apart from its queues.
\<close>

end
